(* ===== verification/Prelude.thy ===== *)
theory Prelude
  imports Main "HOL-Library.Word" "HOL-Library.List_Lexorder" "HOL-Library.Char_ord"
begin

text \<open>
  Shared vocabulary of the development: the machine types of the Kernel sources, C++
  exceptions as values of a sum type, 64-bit signed arithmetic with its wrap-around, the
  passage between bytes and characters, and the generic list and word lemmas on which the
  component theories rely.

  Conventions. A C++ \<open>std::string\<close> is a \<open>string\<close> (a list of 8-bit characters), a
  \<open>std::vector<std::uint8_t>\<close> is a list of 8-bit words, an unsigned fixed-width integer
  is a word of that width, and a signed 64-bit integer is an \<open>int\<close> kept in range by
  \<open>wrap_i64\<close>. A function that may throw returns \<open>Inl e\<close> for the exception \<open>e\<close> and
  \<open>Inr x\<close> for the value \<open>x\<close>.
\<close>

unbundle bit_operations_syntax

named_theorems data_inv "the parts of the invariant of the durable data"
named_theorems lease_inv "the parts of the invariant of the leases"

section \<open>Machine types\<close>

type_synonym byte = "8 word"
type_synonym u16 = "16 word"
type_synonym u32 = "32 word"
type_synonym u64 = "64 word"
type_synonym i64 = int

text \<open>
  Signed 64-bit addition. Overflow is undefined in C++; the model takes the two's complement
  wrap-around that the supported targets compute, and theorems about sums name the range in
  which no overflow happens.
\<close>

definition i64_min :: int where
  "i64_min = - 9223372036854775808"

definition i64_max :: int where
  "i64_max = 9223372036854775807"

definition i32_max :: int where
  "i32_max = 2147483647"

definition in_i64 :: "int \<Rightarrow> bool" where
  "in_i64 x \<longleftrightarrow> i64_min \<le> x \<and> x \<le> i64_max"

definition wrap_i64 :: "int \<Rightarrow> i64" where
  "wrap_i64 x = (x + 9223372036854775808) mod 18446744073709551616 - 9223372036854775808"

definition add_i64 :: "i64 \<Rightarrow> i64 \<Rightarrow> i64" where
  "add_i64 a b = wrap_i64 (a + b)"

definition sub_i64 :: "i64 \<Rightarrow> i64 \<Rightarrow> i64" where
  "sub_i64 a b = wrap_i64 (a - b)"

section \<open>Exceptions\<close>

text \<open>
  The exception classes the sources throw and tell apart. \<open>FramingError\<close> is a subclass of
  \<open>std::runtime_error\<close>; every class is caught as \<open>std::exception\<close>.
\<close>

datatype exn =
    FramingError string
  | RuntimeError string
  | InvalidArgument string
  | OutOfRange string

primrec what :: "exn \<Rightarrow> string" where
  "what (FramingError m) = m"
| "what (RuntimeError m) = m"
| "what (InvalidArgument m) = m"
| "what (OutOfRange m) = m"

type_synonym 'a result = "exn + 'a"

definition bind_result :: "'a result \<Rightarrow> ('a \<Rightarrow> 'b result) \<Rightarrow> 'b result" where
  "bind_result m f = (case m of Inl e \<Rightarrow> Inl e | Inr x \<Rightarrow> f x)"

section \<open>Bytes and characters\<close>

definition byte_of_char :: "char \<Rightarrow> byte" where
  "byte_of_char c = of_char c"

definition char_of_byte :: "byte \<Rightarrow> char" where
  "char_of_byte b = char_of (unat b)"

definition bytes_of_string :: "string \<Rightarrow> byte list" where
  "bytes_of_string s = map byte_of_char s"

definition string_of_bytes :: "byte list \<Rightarrow> string" where
  "string_of_bytes bs = map char_of_byte bs"

section \<open>Generic lemmas\<close>

lemma bind_result_simps [simp]:
  "bind_result (Inl e) f = Inl e"
  "bind_result (Inr x) f = f x"
  by (simp_all add: bind_result_def)

lemma bind_result_Inr_iff:
  "bind_result m f = Inr y \<longleftrightarrow> (\<exists>x. m = Inr x \<and> f x = Inr y)"
  by (cases m) auto

lemma wrap_i64_id [simp]: "in_i64 x \<Longrightarrow> wrap_i64 x = x"
  by (simp add: in_i64_def i64_min_def i64_max_def wrap_i64_def)

lemma wrap_i64_range [simp]: "in_i64 (wrap_i64 x)"
proof -
  have "0 \<le> (x + 9223372036854775808) mod 18446744073709551616"
    and "(x + 9223372036854775808) mod 18446744073709551616 < 18446744073709551616"
    by simp_all
  then show ?thesis
    by (simp add: in_i64_def i64_min_def i64_max_def wrap_i64_def)
qed

lemma add_i64_exact: "in_i64 (a + b) \<Longrightarrow> add_i64 a b = a + b"
  by (simp add: add_i64_def)

lemma add_i64_range [simp]: "in_i64 (add_i64 a b)"
  by (simp add: add_i64_def)

lemma sub_i64_exact: "in_i64 (a - b) \<Longrightarrow> sub_i64 a b = a - b"
  by (simp add: sub_i64_def)

lemma char_of_byte_of_char [simp]: "char_of_byte (byte_of_char c) = c"
proof -
  have "unat (of_nat (of_char c) :: byte) = of_char c"
    using nat_of_char_less_256 [of c] by (simp add: unat_of_nat take_bit_nat_eq_self)
  then have "unat (of_char c :: byte) = of_char c"
    by (simp only: of_nat_of_char)
  then show ?thesis
    by (simp add: byte_of_char_def char_of_byte_def)
qed

lemma string_of_bytes_of_string [simp]: "string_of_bytes (bytes_of_string s) = s"
  by (simp add: string_of_bytes_def bytes_of_string_def comp_def map_idI)

lemma length_bytes_of_string [simp]: "length (bytes_of_string s) = length s"
  by (simp add: bytes_of_string_def)

lemma length_string_of_bytes [simp]: "length (string_of_bytes s) = length s"
  by (simp add: string_of_bytes_def)

lemma string_of_bytes_append [simp]:
  "string_of_bytes (xs @ ys) = string_of_bytes xs @ string_of_bytes ys"
  by (simp add: string_of_bytes_def)

lemma takeWhile_neq_append [simp]:
  "x \<notin> set xs \<Longrightarrow> takeWhile (\<lambda>y. y \<noteq> x) (xs @ x # ys) = xs"
  by (induction xs) auto

lemma takeWhile_neq_id [simp]: "x \<notin> set xs \<Longrightarrow> takeWhile (\<lambda>y. y \<noteq> x) xs = xs"
  by (induction xs) auto

lemma map_of_filter_key: "map_of (filter (\<lambda>(k, _). P k) xs) k = (if P k then map_of xs k else None)"
  by (induction xs) auto

section \<open>Invariants of transition systems\<close>

text \<open>
  A step relation with its initial states and a predicate that the initial states have and every
  step keeps.
\<close>

locale step_system =
  fixes step :: "'s \<Rightarrow> 's \<Rightarrow> bool" and start :: "'s \<Rightarrow> bool" and invar :: "'s \<Rightarrow> bool"
  assumes start_invar: "start s \<Longrightarrow> invar s"
    and step_invar: "step s s' \<Longrightarrow> invar s \<Longrightarrow> invar s'"
begin

lemma steps_invar: "step\<^sup>*\<^sup>* s s' \<Longrightarrow> invar s \<Longrightarrow> invar s'"
  by (induction rule: rtranclp_induct) (simp_all add: step_invar)

lemma reachable_invar: "start s \<Longrightarrow> step\<^sup>*\<^sup>* s s' \<Longrightarrow> invar s'"
  using steps_invar start_invar by blast

end

end
