(* ===== verification/Cxx_Std.thy ===== *)
theory Cxx_Std
  imports Prelude
begin

text \<open>
  The parts of the C++ standard library the Kernel uses: \<open>std::map\<close> with string keys, the
  number parsers \<open>std::stoi\<close>, \<open>std::stoll\<close>, \<open>std::stoull\<close>, \<open>std::to_string\<close> and the
  hexadecimal stream formatting of Work identities.

  A \<open>std::map\<close> is an association list in strictly ascending key order, which is also its
  iteration order; strings compare as lists of unsigned characters, as
  \<open>std::char_traits<char>\<close> does. The locale \<open>std_map\<close> states what the sources rely on; the
  insertion functions below are its instance.
\<close>

section \<open>std::map\<close>

type_synonym ('k, 'v) std_assoc = "('k \<times> 'v) list"

definition ordered_keys :: "('k::linorder, 'v) std_assoc \<Rightarrow> bool" where
  "ordered_keys m \<longleftrightarrow> sorted_wrt (<) (map fst m)"

text \<open>\<open>m.emplace(k, v)\<close>: an existing entry is kept.\<close>

fun map_emplace :: "'k::linorder \<Rightarrow> 'v \<Rightarrow> ('k, 'v) std_assoc \<Rightarrow> ('k, 'v) std_assoc" where
  "map_emplace k v [] = [(k, v)]"
| "map_emplace k v ((k', v') # m) =
     (if k < k' then (k, v) # (k', v') # m
      else if k = k' then (k', v') # m
      else (k', v') # map_emplace k v m)"

text \<open>\<open>m[k] = v\<close>: an existing entry is overwritten.\<close>

fun map_assign :: "'k::linorder \<Rightarrow> 'v \<Rightarrow> ('k, 'v) std_assoc \<Rightarrow> ('k, 'v) std_assoc" where
  "map_assign k v [] = [(k, v)]"
| "map_assign k v ((k', v') # m) =
     (if k < k' then (k, v) # (k', v') # m
      else if k = k' then (k, v) # m
      else (k', v') # map_assign k v m)"

text \<open>\<open>m.erase(it)\<close> for the entry of a key.\<close>

definition map_erase :: "'k \<Rightarrow> ('k, 'v) std_assoc \<Rightarrow> ('k, 'v) std_assoc" where
  "map_erase k m = filter (\<lambda>(j, _). j \<noteq> k) m"

text \<open>A braced initialiser or a sequence of assignments, left to right.\<close>

definition map_assign_all ::
    "('k::linorder \<times> 'v) list \<Rightarrow> ('k, 'v) std_assoc \<Rightarrow> ('k, 'v) std_assoc" where
  "map_assign_all kvs m = fold (\<lambda>(k, v). map_assign k v) kvs m"

section \<open>Numbers and text\<close>

definition is_space :: "char \<Rightarrow> bool" where
  "is_space c \<longleftrightarrow> c \<in> {CHR '' '', CHR 0x09, CHR 0x0A, CHR 0x0B, CHR 0x0C, CHR 0x0D}"

definition is_digit :: "char \<Rightarrow> bool" where
  "is_digit c \<longleftrightarrow> 48 \<le> (of_char c :: nat) \<and> (of_char c :: nat) \<le> 57"

definition digit_value :: "char \<Rightarrow> nat" where
  "digit_value c = of_char c - 48"

definition digits_value :: "string \<Rightarrow> nat" where
  "digits_value ds = foldl (\<lambda>n c. 10 * n + digit_value c) 0 ds"

text \<open>
  The common part of \<open>strtol\<close>, \<open>strtoll\<close> and \<open>strtoull\<close> in base ten: leading white space,
  an optional sign, the longest run of digits. The result is the sign, the magnitude and the
  number of characters used; \<open>None\<close> when there is no digit.
\<close>

definition strto :: "string \<Rightarrow> (bool \<times> nat \<times> nat) option" where
  "strto s =
     (let ws = takeWhile is_space s;
          r1 = drop (length ws) s;
          sign = (case r1 of c # _ \<Rightarrow> if c = CHR ''-'' \<or> c = CHR ''+'' then [c] else [] | [] \<Rightarrow> []);
          ds = takeWhile is_digit (drop (length sign) r1)
      in if ds = [] then None
         else Some (sign = ''-'', digits_value ds, length ws + length sign + length ds))"

definition signed_value :: "bool \<Rightarrow> nat \<Rightarrow> int" where
  "signed_value neg n = (if neg then - int n else int n)"

definition stoll :: "string \<Rightarrow> (i64 \<times> nat) result" where
  "stoll s =
     (case strto s of
        None \<Rightarrow> Inl (InvalidArgument ''stoll'')
      | Some (neg, n, used) \<Rightarrow>
          if in_i64 (signed_value neg n) then Inr (signed_value neg n, used)
          else Inl (OutOfRange ''stoll''))"

definition stoi :: "string \<Rightarrow> int result" where
  "stoi s =
     (case strto s of
        None \<Rightarrow> Inl (InvalidArgument ''stoi'')
      | Some (neg, n, used) \<Rightarrow>
          if - i32_max - 1 \<le> signed_value neg n \<and> signed_value neg n \<le> i32_max
          then Inr (signed_value neg n)
          else Inl (OutOfRange ''stoi''))"

text \<open>\<open>strtoull\<close> negates a value with a minus sign modulo \<open>2 ^ 64\<close>.\<close>

definition stoull :: "string \<Rightarrow> u64 result" where
  "stoull s =
     (case strto s of
        None \<Rightarrow> Inl (InvalidArgument ''stoull'')
      | Some (neg, n, used) \<Rightarrow>
          if n \<le> 18446744073709551615 then Inr (if neg then - of_nat n else of_nat n)
          else Inl (OutOfRange ''stoull''))"

definition digit_char :: "nat \<Rightarrow> char" where
  "digit_char d = char_of (48 + d)"

fun string_of_nat :: "nat \<Rightarrow> string" where
  "string_of_nat n =
     (if n < 10 then [digit_char n] else string_of_nat (n div 10) @ [digit_char (n mod 10)])"

declare string_of_nat.simps [simp del]

definition string_of_int :: "int \<Rightarrow> string" where
  "string_of_int i =
     (if i < 0 then CHR ''-'' # string_of_nat (nat (- i)) else string_of_nat (nat i))"

definition hex_char :: "nat \<Rightarrow> char" where
  "hex_char d = ''0123456789abcdef'' ! d"

text \<open>\<open>std::hex << std::setfill('0') << std::setw(n)\<close> for a value of at most \<open>n\<close> digits.\<close>

fun hex_fixed :: "nat \<Rightarrow> nat \<Rightarrow> string" where
  "hex_fixed 0 v = []"
| "hex_fixed (Suc n) v = hex_fixed n (v div 16) @ [hex_char (v mod 16)]"

section \<open>Laws of std::map\<close>

locale std_map =
  fixes lookup :: "'m \<Rightarrow> 'k \<Rightarrow> 'v option"
    and emplace :: "'k \<Rightarrow> 'v \<Rightarrow> 'm \<Rightarrow> 'm"
    and assign :: "'k \<Rightarrow> 'v \<Rightarrow> 'm \<Rightarrow> 'm"
    and erase :: "'k \<Rightarrow> 'm \<Rightarrow> 'm"
    and invar :: "'m \<Rightarrow> bool"
  assumes lookup_emplace:
      "invar m \<Longrightarrow> lookup (emplace k v m) j =
         (if j = k then Some (case lookup m k of None \<Rightarrow> v | Some u \<Rightarrow> u) else lookup m j)"
    and lookup_assign:
      "invar m \<Longrightarrow> lookup (assign k v m) j = (if j = k then Some v else lookup m j)"
    and lookup_erase: "lookup (erase k m) j = (if j = k then None else lookup m j)"
    and invar_erase: "invar m \<Longrightarrow> invar (erase k m)"
    and invar_emplace: "invar m \<Longrightarrow> invar (emplace k v m)"
    and invar_assign: "invar m \<Longrightarrow> invar (assign k v m)"
begin

lemma invar_assigns: "invar m \<Longrightarrow> invar (fold (\<lambda>(k, v). assign k v) kvs m)"
  by (induction kvs arbitrary: m) (auto simp: invar_assign)

lemma lookup_assigns_other:
  "invar m \<Longrightarrow> j \<notin> fst ` set kvs \<Longrightarrow>
     lookup (fold (\<lambda>(k, v). assign k v) kvs m) j = lookup m j"
  by (induction kvs arbitrary: m) (auto simp: invar_assign lookup_assign)

lemma lookup_assigns:
  assumes "invar m" and "distinct (map fst kvs)" and "(k, v) \<in> set kvs"
  shows "lookup (fold (\<lambda>(k, v). assign k v) kvs m) k = Some v"
  using assms
proof (induction kvs arbitrary: m)
  case (Cons kv kvs)
  then show ?case
    by (cases kv)
       (auto simp: invar_assign lookup_assign lookup_assigns_other image_iff dest: bspec)
qed simp

lemma emplace_keeps: "invar m \<Longrightarrow> lookup m k = Some u \<Longrightarrow> lookup (emplace k v m) k = Some u"
  by (simp add: lookup_emplace)

end

lemma fst_map_emplace: "fst ` set (map_emplace k v m) = insert k (fst ` set m)"
  by (induction k v m rule: map_emplace.induct) auto

lemma fst_map_assign: "fst ` set (map_assign k v m) = insert k (fst ` set m)"
  by (induction k v m rule: map_assign.induct) auto

lemma ordered_keys_Cons [simp]:
  "ordered_keys ((k, v) # m) \<longleftrightarrow> (\<forall>j \<in> fst ` set m. k < j) \<and> ordered_keys m"
  by (auto simp: ordered_keys_def)

lemma ordered_keys_Nil [simp]: "ordered_keys []"
  by (simp add: ordered_keys_def)

lemma ordered_map_emplace: "ordered_keys m \<Longrightarrow> ordered_keys (map_emplace k v m)"
  by (induction k v m rule: map_emplace.induct) (auto simp: fst_map_emplace not_less le_less dest: less_trans)

lemma ordered_map_assign: "ordered_keys m \<Longrightarrow> ordered_keys (map_assign k v m)"
  by (induction k v m rule: map_assign.induct) (auto simp: fst_map_assign not_less le_less dest: less_trans)

lemma map_of_below:
  fixes k' :: "'k::linorder"
  shows "\<forall>x \<in> set m. k' < fst x \<Longrightarrow> j < k' \<Longrightarrow> map_of m j = None"
  by (induction m) auto

lemma map_of_emplace:
  "ordered_keys m \<Longrightarrow> map_of (map_emplace k v m) j =
     (if j = k then Some (case map_of m k of None \<Rightarrow> v | Some u \<Rightarrow> u) else map_of m j)"
  by (induction k v m rule: map_emplace.induct)
     (auto simp: map_of_below split: option.splits)

lemma map_of_assign:
  "ordered_keys m \<Longrightarrow> map_of (map_assign k v m) j = (if j = k then Some v else map_of m j)"
  by (induction k v m rule: map_assign.induct) auto

lemma map_of_erase: "map_of (map_erase k m) j = (if j = k then None else map_of m j)"
  by (induction m) (auto simp: map_erase_def)

lemma ordered_map_erase: "ordered_keys m \<Longrightarrow> ordered_keys (map_erase k m)"
  by (induction m) (auto simp: map_erase_def)

interpretation smap: std_map map_of map_emplace map_assign map_erase ordered_keys
  by unfold_locales
     (auto simp: map_of_emplace map_of_assign map_of_erase ordered_map_emplace ordered_map_assign
       ordered_map_erase)

lemmas map_assign_all_ordered = smap.invar_assigns [folded map_assign_all_def]
lemmas map_of_assign_all = smap.lookup_assigns [folded map_assign_all_def]
lemmas map_of_assign_all_other = smap.lookup_assigns_other [folded map_assign_all_def]

text \<open>Inserting in ascending key order appends, so a map is rebuilt from its iteration order.\<close>

lemma map_emplace_append: "\<forall>j \<in> fst ` set m. j < k \<Longrightarrow> map_emplace k v m = m @ [(k, v)]"
  by (induction m) (auto simp: dest: less_asym)

lemma ordered_keys_append_single:
  "ordered_keys (m @ [(k, v)]) \<Longrightarrow> ordered_keys m \<and> (\<forall>j \<in> fst ` set m. j < k)"
  by (auto simp: ordered_keys_def sorted_wrt_append)

section \<open>Laws of the number formats\<close>

lemma is_digit_digit_char: "d < 10 \<Longrightarrow> is_digit (digit_char d)"
  by (simp add: is_digit_def digit_char_def)

lemma digit_value_digit_char: "d < 10 \<Longrightarrow> digit_value (digit_char d) = d"
  by (simp add: digit_value_def digit_char_def)

lemma digits_value_snoc: "digits_value (ds @ [c]) = 10 * digits_value ds + digit_value c"
  by (simp add: digits_value_def)

lemma digits_value_string_of_nat: "digits_value (string_of_nat n) = n"
proof (induction n rule: string_of_nat.induct)
  case (1 n)
  show ?case
  proof (cases "n < 10")
    case True
    then show ?thesis
      by (subst string_of_nat.simps) (simp add: digits_value_def digit_value_digit_char)
  next
    case False
    with 1 show ?thesis
      by (subst string_of_nat.simps) (simp add: digits_value_snoc digit_value_digit_char)
  qed
qed

lemma string_of_nat_digits: "\<forall>c \<in> set (string_of_nat n). is_digit c"
proof (induction n rule: string_of_nat.induct)
  case (1 n)
  then show ?case
    by (subst string_of_nat.simps) (auto simp: is_digit_digit_char)
qed

lemma string_of_nat_neq_Nil [simp]: "string_of_nat n \<noteq> []"
  by (subst string_of_nat.simps) simp

lemma is_digit_not_space: "is_digit c \<Longrightarrow> \<not> is_space c"
  by (auto simp: is_digit_def is_space_def)

lemma is_digit_not_sign: "is_digit c \<Longrightarrow> c \<noteq> CHR ''-'' \<and> c \<noteq> CHR ''+''"
  by (auto simp: is_digit_def)

lemma strto_digits:
  assumes "ds \<noteq> []" and "\<forall>c \<in> set ds. is_digit c"
  shows "strto ds = Some (False, digits_value ds, length ds)"
    and "strto (CHR ''-'' # ds) = Some (True, digits_value ds, Suc (length ds))"
proof -
  obtain c cs where ds: "ds = c # cs"
    using assms(1) by (cases ds) auto
  have c: "is_digit c"
    using assms(2) ds by simp
  show "strto ds = Some (False, digits_value ds, length ds)"
    using assms c is_digit_not_space [OF c] is_digit_not_sign [OF c]
    by (simp add: strto_def ds takeWhile_eq_all_conv [THEN iffD2])
  have "\<not> is_space (CHR ''-'')"
    by (simp add: is_space_def)
  then show "strto (CHR ''-'' # ds) = Some (True, digits_value ds, Suc (length ds))"
    using assms by (simp add: strto_def Let_def takeWhile_eq_all_conv [THEN iffD2])
qed

lemma strto_string_of_int:
  "strto (string_of_int i) = Some (i < 0, nat \<bar>i\<bar>, length (string_of_int i))"
  by (simp add: string_of_int_def strto_digits string_of_nat_digits digits_value_string_of_nat)

lemma stoll_string_of_int:
  "in_i64 i \<Longrightarrow> stoll (string_of_int i) = Inr (i, length (string_of_int i))"
  by (simp add: stoll_def strto_string_of_int signed_value_def)

lemma stoll_range: "stoll s = Inr (v, used) \<Longrightarrow> in_i64 v"
  by (auto simp: stoll_def split: option.splits if_splits)

lemma string_of_int_no_control:
  "c \<in> set (string_of_int i) \<Longrightarrow> c \<noteq> CHR 0x0A \<and> c \<noteq> CHR 0x0D \<and> c \<noteq> CHR 0x00"
  using string_of_nat_digits [of "nat i"] string_of_nat_digits [of "nat (- i)"]
  by (fastforce simp: string_of_int_def is_digit_def split: if_splits)

lemma length_hex_fixed [simp]: "length (hex_fixed n v) = n"
  by (induction n arbitrary: v) auto

end
