(* ===== verification/Store.thy ===== *)
theory Store
  imports Cxx_Std
begin

text \<open>
  The durable Work store of \<open>kernel/src/store.hpp\<close> and \<open>kernel/src/store.cpp\<close>.

  The two tables are lists of rows in \<open>rowid\<close> order (rows are never deleted, so a new row has
  the largest \<open>rowid\<close>). An SQL statement becomes the row operation it denotes: \<open>UPDATE \<dots>
  WHERE\<close> maps over the rows, \<open>SELECT \<dots> LIMIT 1\<close> finds one, \<open>INSERT\<close> checks the table's
  constraints and appends. Every operation holds the store's mutex, so it is one atomic step.

  Every call of the SQLite API that the sources check can fail. The parameter of type
  \<open>sqlite_fault\<close> says which checked call of an operation fails first, counted from 0, and
  with which message; \<open>None\<close> is a run without a fault. The lists of action texts below are
  the checked calls in the order of the source. A fault inside a transaction reaches the
  \<open>ROLLBACK\<close> of the \<open>catch\<close> block, so the tables are those before \<open>BEGIN\<close>.
\<close>

section \<open>Rows and tables\<close>

record WorkRecord =
  work_id :: string
  work_type :: string
  state :: string
  effort :: string
  urgency :: string
  required_capabilities :: string
  eligible_engine_ids :: string
  exact_engine_id :: string
  exact_model_id :: string
  created_at_ms :: i64
  eligible_at_ms :: i64
  next_attempt_at_ms :: i64
  deadline_ms :: "i64 option"
  timeout_ms :: "i64 option"
  max_attempts :: int
  retry_delay_ms :: i64
  attempt_count :: int
  input_path :: string
  result_path :: string
  acknowledged :: bool
  cancel_requested :: bool
  selected_engine_id :: string
  selected_model_id :: string
  technical_failure :: string

record AttemptRecord =
  attempt_work_id :: string
  attempt_number :: int
  attempt_engine_id :: string
  attempt_model_id :: string
  started_at_ms :: i64
  ended_at_ms :: "i64 option"
  attempt_state :: string
  attempt_failure :: string

record Db =
  works :: "WorkRecord list"
  attempts :: "AttemptRecord list"

definition empty_db :: Db where
  "empty_db = \<lparr>works = [], attempts = []\<rparr>"

section \<open>The SQLite interface\<close>

type_synonym sqlite_fault = "(nat \<times> string) option"

text \<open>\<open>check(rc, db, action)\<close> over consecutive calls, numbered from \<open>n\<close>.\<close>

fun checks :: "sqlite_fault \<Rightarrow> nat \<Rightarrow> string list \<Rightarrow> exn option" where
  "checks f n [] = None"
| "checks f n (action # actions) =
     (case f of
        Some (k, msg) \<Rightarrow>
          if k = n then Some (RuntimeError (action @ '': '' @ msg)) else checks f (Suc n) actions
      | None \<Rightarrow> None)"

declare checks.simps [simp del]

text \<open>
  \<open>bind_text\<close> passes \<open>value.c_str()\<close> with length -1: what SQLite stores and compares ends at
  the first NUL character.
\<close>

definition c_str :: "string \<Rightarrow> string" where
  "c_str s = takeWhile (\<lambda>c. c \<noteq> CHR 0x00) s"

text \<open>\<open>UPDATE \<dots> WHERE P\<close> on each table, and \<open>SELECT \<dots> WHERE P\<close> for one row.\<close>

definition update_works :: "(WorkRecord \<Rightarrow> bool) \<Rightarrow> (WorkRecord \<Rightarrow> WorkRecord) \<Rightarrow> Db \<Rightarrow> Db" where
  "update_works P g db = db\<lparr>works := map (\<lambda>w. if P w then g w else w) (works db)\<rparr>"

definition update_attempts ::
    "(AttemptRecord \<Rightarrow> bool) \<Rightarrow> (AttemptRecord \<Rightarrow> AttemptRecord) \<Rightarrow> Db \<Rightarrow> Db" where
  "update_attempts P g db = db\<lparr>attempts := map (\<lambda>a. if P a then g a else a) (attempts db)\<rparr>"

definition select_work :: "(WorkRecord \<Rightarrow> bool) \<Rightarrow> Db \<Rightarrow> WorkRecord option" where
  "select_work P db = List.find P (works db)"

text \<open>The \<open>CHECK\<close> constraints of the table \<open>work\<close>.\<close>

definition work_constraints :: "WorkRecord \<Rightarrow> bool" where
  "work_constraints w \<longleftrightarrow>
     state w \<in> {''QUEUED'', ''RUNNING'', ''SUCCEEDED'', ''FAILED'', ''CANCELLED''}
     \<and> effort w \<in> {''STANDARD'', ''HIGH''}
     \<and> urgency w \<in> {''INTERACTIVE'', ''NORMAL'', ''BACKGROUND''}
     \<and> 1 \<le> max_attempts w \<and> 0 \<le> retry_delay_ms w"

section \<open>Retry rule\<close>

definition retry_permitted :: "WorkRecord \<Rightarrow> i64 \<Rightarrow> bool" where
  "retry_permitted w now =
     (if attempt_count w \<ge> max_attempts w then False
      else (case deadline_ms w of
              None \<Rightarrow> True
            | Some d \<Rightarrow> add_i64 now (retry_delay_ms w) < d))"

section \<open>Operations\<close>

text \<open>The row that \<open>submit\<close> inserts: text columns as bound, the bookkeeping columns reset.\<close>

definition bound_row :: "WorkRecord \<Rightarrow> WorkRecord" where
  "bound_row w = w\<lparr>
     work_id := c_str (work_id w), work_type := c_str (work_type w), state := c_str (state w),
     effort := c_str (effort w), urgency := c_str (urgency w),
     required_capabilities := c_str (required_capabilities w),
     eligible_engine_ids := c_str (eligible_engine_ids w),
     exact_engine_id := c_str (exact_engine_id w), exact_model_id := c_str (exact_model_id w),
     attempt_count := 0, input_path := c_str (input_path w), result_path := c_str (result_path w),
     acknowledged := False, cancel_requested := False, selected_engine_id := [],
     selected_model_id := [], technical_failure := []\<rparr>"

definition store_submit :: "sqlite_fault \<Rightarrow> WorkRecord \<Rightarrow> Db \<Rightarrow> unit result \<times> Db" where
  "store_submit f w db =
     (let row = bound_row w;
          opt = (\<lambda>v. case v of None \<Rightarrow> ''bind SQLite null'' | Some _ \<Rightarrow> ''bind SQLite integer'');
          actions = [''prepare SQLite statement''] @ replicate 9 ''bind SQLite text''
            @ [''bind creation time'', ''bind eligible time'', ''bind next attempt time'',
               opt (deadline_ms w), opt (timeout_ms w), ''bind max attempts'', ''bind retry delay'',
               ''bind SQLite text'', ''bind SQLite text'', ''insert Work'']
      in case checks f 0 actions of
           Some e \<Rightarrow> (Inl e, db)
         | None \<Rightarrow>
             if \<not> work_constraints row
             then (Inl (RuntimeError ''insert Work: CHECK constraint failed''), db)
             else if select_work (\<lambda>v. work_id v = work_id row) db \<noteq> None
             then (Inl (RuntimeError ''insert Work: UNIQUE constraint failed: work.id''), db)
             else (Inr (), db\<lparr>works := works db @ [row]\<rparr>))"

definition store_find :: "sqlite_fault \<Rightarrow> string \<Rightarrow> Db \<Rightarrow> WorkRecord option result" where
  "store_find f key db =
     (case checks f 0 [''prepare SQLite statement'', ''bind SQLite text'', ''read Work''] of
        Some e \<Rightarrow> Inl e
      | None \<Rightarrow> Inr (select_work (\<lambda>w. work_id w = c_str key) db))"

definition urgency_rank :: "string \<Rightarrow> nat" where
  "urgency_rank u = (if u = ''INTERACTIVE'' then 0 else if u = ''NORMAL'' then 1 else 2)"

definition eligible_now :: "i64 \<Rightarrow> WorkRecord \<Rightarrow> bool" where
  "eligible_now now w \<longleftrightarrow>
     state w = ''QUEUED'' \<and> \<not> cancel_requested w \<and> eligible_at_ms w \<le> now
     \<and> next_attempt_at_ms w \<le> now"

text \<open>\<open>ORDER BY \<dots>, rowid LIMIT 1\<close>: of the rows least in the order, the first.\<close>

definition queue_before :: "WorkRecord \<Rightarrow> WorkRecord \<Rightarrow> bool" where
  "queue_before a b \<longleftrightarrow>
     urgency_rank (urgency a) < urgency_rank (urgency b)
     \<or> urgency_rank (urgency a) = urgency_rank (urgency b) \<and> created_at_ms a < created_at_ms b"

fun first_least :: "('a \<Rightarrow> 'a \<Rightarrow> bool) \<Rightarrow> 'a list \<Rightarrow> 'a option" where
  "first_least lt [] = None"
| "first_least lt (x # xs) =
     (case first_least lt xs of None \<Rightarrow> Some x | Some y \<Rightarrow> Some (if lt y x then y else x))"

definition store_next_eligible :: "sqlite_fault \<Rightarrow> i64 \<Rightarrow> Db \<Rightarrow> WorkRecord option result" where
  "store_next_eligible f now db =
     (case checks f 0 [''prepare SQLite statement'', ''bind scheduler time'', ''bind retry time'',
                       ''read eligible Work''] of
        Some e \<Rightarrow> Inl e
      | None \<Rightarrow> Inr (first_least queue_before (filter (eligible_now now) (works db))))"

definition deadline_expired_text :: string where
  "deadline_expired_text = ''DEADLINE_EXPIRED: Work deadline expired before dispatch''"

definition store_expire_queued_deadlines :: "sqlite_fault \<Rightarrow> i64 \<Rightarrow> Db \<Rightarrow> unit result \<times> Db" where
  "store_expire_queued_deadlines f now db =
     (case checks f 0 [''prepare SQLite statement'', ''bind deadline sweep time'',
                       ''expire queued Work deadlines''] of
        Some e \<Rightarrow> (Inl e, db)
      | None \<Rightarrow>
          (Inr (), update_works
             (\<lambda>w. state w = ''QUEUED'' \<and> (case deadline_ms w of None \<Rightarrow> False | Some d \<Rightarrow> d \<le> now))
             (\<lambda>w. w\<lparr>state := ''FAILED'', technical_failure := deadline_expired_text\<rparr>) db))"

definition store_fail_queued :: "sqlite_fault \<Rightarrow> string \<Rightarrow> string \<Rightarrow> Db \<Rightarrow> unit result \<times> Db" where
  "store_fail_queued f key failure db =
     (case checks f 0 [''prepare SQLite statement'', ''bind SQLite text'', ''bind SQLite text'',
                       ''fail queued Work''] of
        Some e \<Rightarrow> (Inl e, db)
      | None \<Rightarrow>
          (Inr (), update_works (\<lambda>w. work_id w = c_str key \<and> state w = ''QUEUED'')
             (\<lambda>w. w\<lparr>state := ''FAILED'', technical_failure := c_str failure\<rparr>) db))"

definition store_begin_attempt ::
    "sqlite_fault \<Rightarrow> string \<Rightarrow> string \<Rightarrow> string \<Rightarrow> i64 \<Rightarrow> Db \<Rightarrow> int result \<times> Db" where
  "store_begin_attempt f key engine_id model_id started_at db =
     (let queued = (\<lambda>w. work_id w = c_str key \<and> state w = ''QUEUED'' \<and> \<not> cancel_requested w);
          opening = [''begin attempt transaction'', ''prepare SQLite statement'',
                     ''bind SQLite text'', ''read attempt count'']
      in case select_work queued db of
           None \<Rightarrow>
             (case checks f 0 (opening @ [''rollback absent attempt'']) of
                Some e \<Rightarrow> (Inl e, db) | None \<Rightarrow> (Inr 0, db))
         | Some w \<Rightarrow>
             (let n = attempt_count w + 1;
                  db1 = update_works queued
                    (\<lambda>w. w\<lparr>state := ''RUNNING'', attempt_count := n,
                           selected_engine_id := c_str engine_id,
                           selected_model_id := c_str model_id, technical_failure := []\<rparr>) db;
                  actions = opening
                    @ [''prepare SQLite statement'', ''bind attempt number'', ''bind SQLite text'',
                       ''bind SQLite text'', ''bind SQLite text'', ''mark Work running'']
              in if length (filter queued (works db)) \<noteq> 1
                 then (case checks f 0 (actions @ [''rollback lost attempt race'']) of
                         Some e \<Rightarrow> (Inl e, db) | None \<Rightarrow> (Inr 0, db))
                 else
                   (case checks f 0 (actions
                      @ [''prepare SQLite statement'', ''bind SQLite text'', ''bind attempt number'',
                         ''bind SQLite text'', ''bind SQLite text'', ''bind attempt start'',
                         ''insert attempt'']) of
                      Some e \<Rightarrow> (Inl e, db)
                    | None \<Rightarrow>
                        if list_ex (\<lambda>a. attempt_work_id a = c_str key \<and> attempt_number a = n)
                             (attempts db)
                        then (Inl (RuntimeError
                          ''insert attempt: UNIQUE constraint failed: attempts.work_id, attempts.attempt_number''), db)
                        else
                          (case checks f 17 [''commit attempt transaction''] of
                             Some e \<Rightarrow> (Inl e, db)
                           | None \<Rightarrow>
                               (Inr n, db1\<lparr>attempts := attempts db1 @
                                  [\<lparr>attempt_work_id = c_str key, attempt_number = n,
                                    attempt_engine_id = c_str engine_id,
                                    attempt_model_id = c_str model_id,
                                    started_at_ms = started_at, ended_at_ms = None,
                                    attempt_state = ''RUNNING'', attempt_failure = []\<rparr>]\<rparr>)))))"

text \<open>\<open>WHERE work_id=? AND attempt_number=? AND state='RUNNING'\<close>.\<close>

definition running_attempt :: "string \<Rightarrow> int \<Rightarrow> AttemptRecord \<Rightarrow> bool" where
  "running_attempt key n a \<longleftrightarrow>
     attempt_work_id a = key \<and> attempt_number a = n \<and> attempt_state a = ''RUNNING''"

definition end_attempt :: "string \<Rightarrow> i64 \<Rightarrow> string \<Rightarrow> AttemptRecord \<Rightarrow> AttemptRecord" where
  "end_attempt st ended failure a =
     a\<lparr>attempt_state := st, ended_at_ms := Some ended, attempt_failure := failure\<rparr>"

definition running_work :: "string \<Rightarrow> WorkRecord \<Rightarrow> bool" where
  "running_work key w \<longleftrightarrow> work_id w = key \<and> state w = ''RUNNING''"

definition store_finish_success ::
    "sqlite_fault \<Rightarrow> string \<Rightarrow> int \<Rightarrow> i64 \<Rightarrow> Db \<Rightarrow> unit result \<times> Db" where
  "store_finish_success f key n ended db =
     (case checks f 0 [''begin success transaction'', ''prepare SQLite statement'',
                       ''bind attempt end'', ''bind SQLite text'', ''bind attempt number'',
                       ''mark attempt succeeded'', ''prepare SQLite statement'',
                       ''bind SQLite text'', ''mark Work succeeded'',
                       ''commit success transaction''] of
        Some e \<Rightarrow> (Inl e, db)
      | None \<Rightarrow>
          (Inr (), update_works (running_work (c_str key))
             (\<lambda>w. w\<lparr>state := ''SUCCEEDED'', technical_failure := []\<rparr>)
             (update_attempts (running_attempt (c_str key) n)
                (end_attempt ''SUCCEEDED'' ended []) db)))"

definition store_finish_cancelled ::
    "sqlite_fault \<Rightarrow> string \<Rightarrow> int \<Rightarrow> i64 \<Rightarrow> Db \<Rightarrow> unit result \<times> Db" where
  "store_finish_cancelled f key n ended db =
     (case checks f 0 [''begin cancel transaction'', ''prepare SQLite statement'',
                       ''bind cancellation time'', ''bind SQLite text'', ''bind attempt number'',
                       ''cancel attempt'', ''prepare SQLite statement'', ''bind SQLite text'',
                       ''cancel Work'', ''commit cancel transaction''] of
        Some e \<Rightarrow> (Inl e, db)
      | None \<Rightarrow>
          (Inr (), update_works (running_work (c_str key))
             (\<lambda>w. w\<lparr>state := ''CANCELLED'', technical_failure := ''cancelled''\<rparr>)
             (update_attempts (running_attempt (c_str key) n)
                (end_attempt ''CANCELLED'' ended ''cancelled'') db)))"

text \<open>
  What a failed or interrupted attempt makes of its Work: the three branches that
  \<open>finish_retryable_failure\<close> and \<open>recover_interrupted\<close> share, with the texts of each. The
  row \<open>w\<close> read in the transaction decides; \<open>row\<close> is the row that is updated.
\<close>

definition settle_failed ::
    "string \<Rightarrow> string \<Rightarrow> i64 \<Rightarrow> WorkRecord \<Rightarrow> WorkRecord \<Rightarrow> WorkRecord" where
  "settle_failed cancel_text failure now w row =
     (if cancel_requested w then row\<lparr>state := ''CANCELLED'', technical_failure := cancel_text\<rparr>
      else if retry_permitted w now
      then row\<lparr>state := ''QUEUED'', next_attempt_at_ms := add_i64 now (retry_delay_ms w),
               technical_failure := failure, selected_engine_id := [], selected_model_id := []\<rparr>
      else row\<lparr>state := ''FAILED'', technical_failure := failure\<rparr>)"

definition store_finish_retryable_failure ::
    "sqlite_fault \<Rightarrow> string \<Rightarrow> int \<Rightarrow> string \<Rightarrow> string \<Rightarrow> i64 \<Rightarrow> Db \<Rightarrow> unit result \<times> Db" where
  "store_finish_retryable_failure f key n st failure ended db =
     (if st \<noteq> ''FAILED'' \<and> st \<noteq> ''TIMED_OUT''
      then (Inl (InvalidArgument ''retryable attempt state must be FAILED or TIMED_OUT''), db)
      else
        let opening = [''begin failure transaction'', ''prepare SQLite statement'',
                       ''bind SQLite text'', ''read running Work'']
        in case select_work (running_work (c_str key)) db of
             None \<Rightarrow>
               (case checks f 0 (opening @ [''rollback missing running Work'']) of
                  Some e \<Rightarrow> (Inl e, db) | None \<Rightarrow> (Inr (), db))
           | Some w \<Rightarrow>
               (case checks f 0 (opening
                  @ [''prepare SQLite statement'', ''bind SQLite text'', ''bind attempt end'',
                     ''bind SQLite text'', ''bind SQLite text'', ''bind attempt number'',
                     ''finish failed attempt'', ''prepare SQLite statement'']
                  @ (if cancel_requested w
                     then [''bind SQLite text'', ''cancel Work during failure finalization'']
                     else if retry_permitted w ended
                     then [''bind retry time'', ''bind SQLite text'', ''bind SQLite text'',
                           ''queue Work retry'']
                     else [''bind SQLite text'', ''bind SQLite text'', ''fail Work after attempt''])
                  @ [''commit failure transaction'']) of
                  Some e \<Rightarrow> (Inl e, db)
                | None \<Rightarrow>
                    (Inr (), update_works (running_work (c_str key))
                       (settle_failed ''cancelled'' (c_str failure) ended w)
                       (update_attempts (running_attempt (c_str key) n)
                          (end_attempt st ended (c_str failure)) db))))"

definition restart_text :: string where
  "restart_text = ''Kernel restarted during active attempt''"

text \<open>One iteration of the recovery loop, for a row read while it was running.\<close>

definition recover_one :: "i64 \<Rightarrow> WorkRecord \<Rightarrow> Db \<Rightarrow> Db" where
  "recover_one now w db =
     update_works (running_work (work_id w))
       (settle_failed ''cancelled before restart recovery'' restart_text now w)
       (update_attempts (running_attempt (work_id w) (attempt_count w))
          (end_attempt ''INTERRUPTED'' now restart_text) db)"

definition recover_actions :: "i64 \<Rightarrow> WorkRecord \<Rightarrow> string list" where
  "recover_actions now w =
     [''prepare SQLite statement'', ''bind interruption time'', ''bind SQLite text'',
      ''bind interrupted attempt number'', ''interrupt running attempt'',
      ''prepare SQLite statement'']
     @ (if cancel_requested w
        then [''bind SQLite text'', ''cancel interrupted Work with prior cancellation request'']
        else if retry_permitted w now
        then [''bind restart retry time'', ''bind SQLite text'', ''queue interrupted Work retry'']
        else [''bind SQLite text'', ''fail interrupted Work''])"

definition store_recover_interrupted :: "sqlite_fault \<Rightarrow> i64 \<Rightarrow> Db \<Rightarrow> unit result \<times> Db" where
  "store_recover_interrupted f now db =
     (let running = filter (\<lambda>w. state w = ''RUNNING'') (works db);
          actions = [''begin restart recovery'', ''prepare SQLite statement'']
            @ replicate (length running + 1) ''read running Work for recovery''
            @ concat (map (recover_actions now) running) @ [''commit restart recovery'']
      in case checks f 0 actions of
           Some e \<Rightarrow> (Inl e, db)
         | None \<Rightarrow> (Inr (), fold (recover_one now) running db))"

text \<open>The returned text is empty for an unknown identity.\<close>

definition store_cancel :: "sqlite_fault \<Rightarrow> string \<Rightarrow> Db \<Rightarrow> string result \<times> Db" where
  "store_cancel f key db =
     (let opening = [''prepare SQLite statement'', ''bind SQLite text'',
                     ''read Work for cancellation'']
      in case select_work (\<lambda>w. work_id w = c_str key) db of
           None \<Rightarrow> (case checks f 0 opening of Some e \<Rightarrow> (Inl e, db) | None \<Rightarrow> (Inr [], db))
         | Some w \<Rightarrow>
             if state w = ''QUEUED'' then
               (case checks f 0 (opening @ [''prepare SQLite statement'', ''bind SQLite text'',
                                            ''cancel queued Work'']) of
                  Some e \<Rightarrow> (Inl e, db)
                | None \<Rightarrow>
                    (Inr ''CANCELLED'',
                     update_works (\<lambda>w. work_id w = c_str key \<and> state w = ''QUEUED'')
                       (\<lambda>w. w\<lparr>state := ''CANCELLED'', cancel_requested := True,
                              technical_failure := ''cancelled''\<rparr>) db))
             else if state w = ''RUNNING'' then
               (case checks f 0 (opening @ [''prepare SQLite statement'', ''bind SQLite text'',
                                            ''request running Work cancellation'']) of
                  Some e \<Rightarrow> (Inl e, db)
                | None \<Rightarrow>
                    (Inr ''RUNNING'',
                     update_works (running_work (c_str key)) (\<lambda>w. w\<lparr>cancel_requested := True\<rparr>) db))
             else (case checks f 0 opening of Some e \<Rightarrow> (Inl e, db) | None \<Rightarrow> (Inr (state w), db)))"

definition store_cancel_requested :: "sqlite_fault \<Rightarrow> string \<Rightarrow> Db \<Rightarrow> bool result" where
  "store_cancel_requested f key db =
     (case checks f 0 [''prepare SQLite statement'', ''bind SQLite text'',
                       ''read cancellation request''] of
        Some e \<Rightarrow> Inl e
      | None \<Rightarrow>
          (case select_work (\<lambda>w. work_id w = c_str key) db of
             None \<Rightarrow> Inr False | Some w \<Rightarrow> Inr (cancel_requested w)))"

definition store_acknowledge :: "sqlite_fault \<Rightarrow> string \<Rightarrow> Db \<Rightarrow> bool result \<times> Db" where
  "store_acknowledge f key db =
     (let ready = (\<lambda>w. work_id w = c_str key \<and> state w = ''SUCCEEDED'' \<and> \<not> acknowledged w)
      in case checks f 0 [''prepare SQLite statement'', ''bind SQLite text'',
                          ''acknowledge Work result''] of
           Some e \<Rightarrow> (Inl e, db)
         | None \<Rightarrow>
             (Inr (length (filter ready (works db)) = 1),
              update_works ready (\<lambda>w. w\<lparr>acknowledged := True\<rparr>) db))"

end
