(* ===== verification/Store_Invariant.thy ===== *)
theory Store_Invariant
  imports Store
begin

text \<open>
  The invariant of the Work store and its preservation by every operation, whatever SQLite call
  fails: identities are unique, the attempts of a Work are numbered from one to its attempt
  count, at most the last of them runs and only while the Work runs, the count stays within
  the submitted limit, and only a succeeded Work is acknowledged. Then the effect of restart
  recovery on the whole table and the position of the row the scheduler's query returns.
\<close>

section \<open>The invariant\<close>

definition attempts_of :: "Db \<Rightarrow> string \<Rightarrow> AttemptRecord list" where
  "attempts_of db key = filter (\<lambda>a. attempt_work_id a = key) (attempts db)"

definition wf_row :: "WorkRecord \<Rightarrow> AttemptRecord list \<Rightarrow> bool" where
  "wf_row w ats \<longleftrightarrow>
     work_constraints w \<and> max_attempts w \<le> i32_max
     \<and> c_str (work_id w) = work_id w
     \<and> 0 \<le> attempt_count w \<and> attempt_count w \<le> max_attempts w
     \<and> (state w = ''QUEUED'' \<longrightarrow> attempt_count w < max_attempts w \<and> \<not> cancel_requested w)
     \<and> (acknowledged w \<longrightarrow> state w = ''SUCCEEDED'')
     \<and> map attempt_number ats = [1..attempt_count w]
     \<and> (\<forall>a \<in> set ats. attempt_state a = ''RUNNING'' \<longleftrightarrow>
          state w = ''RUNNING'' \<and> attempt_number a = attempt_count w)
     \<and> (state w = ''RUNNING'' \<longrightarrow> 1 \<le> attempt_count w)"

definition wf_db :: "Db \<Rightarrow> bool" where
  "wf_db db \<longleftrightarrow>
     distinct (map work_id (works db))
     \<and> (\<forall>w \<in> set (works db). wf_row w (attempts_of db (work_id w)))
     \<and> (\<forall>a \<in> set (attempts db). attempt_work_id a \<in> work_id ` set (works db))"

definition attempt_current :: "Db \<Rightarrow> string \<Rightarrow> int \<Rightarrow> bool" where
  "attempt_current db key n \<longleftrightarrow>
     (\<forall>w \<in> set (works db). work_id w = c_str key \<and> state w = ''RUNNING'' \<longrightarrow> attempt_count w = n)"

lemma c_str_idem [simp]: "c_str (c_str s) = c_str s"
  by (simp add: c_str_def)

lemma checks_None [simp]: "checks None n as = None"
  by (cases as) (auto simp: checks.simps)

lemma wf_db_map:
  assumes wf: "wf_db db"
    and works: "works db' = map g (works db)" and atts: "attempts db' = map h (attempts db)"
    and g: "\<And>w. work_id (g w) = work_id w"
    and h: "\<And>a. attempt_work_id (h a) = attempt_work_id a"
    and rows: "\<And>w. w \<in> set (works db) \<Longrightarrow> wf_row w (attempts_of db (work_id w)) \<Longrightarrow>
                 wf_row (g w) (map h (attempts_of db (work_id w)))"
  shows "wf_db db'"
proof -
  have at: "attempts_of db' key = map h (attempts_of db key)" for key
    by (simp add: attempts_of_def atts filter_map comp_def h)
  have "work_id ` set (works db') = work_id ` set (works db)"
    by (simp add: works image_image g)
  moreover have "distinct (map work_id (works db'))"
    using wf by (simp add: wf_db_def works comp_def g)
  ultimately show ?thesis
    using wf rows by (auto simp: wf_db_def at g h works atts)
qed

lemma works_update_works [simp]:
  "works (update_works P g db) = map (\<lambda>w. if P w then g w else w) (works db)"
  "attempts (update_works P g db) = attempts db"
  by (simp_all add: update_works_def)

lemma works_update_attempts [simp]:
  "works (update_attempts P g db) = works db"
  "attempts (update_attempts P g db) = map (\<lambda>a. if P a then g a else a) (attempts db)"
  by (simp_all add: update_attempts_def)

lemma wf_db_update_works:
  assumes "wf_db db" and "\<And>w. work_id (g w) = work_id w"
    and "\<And>w ats. w \<in> set (works db) \<Longrightarrow> P w \<Longrightarrow> wf_row w ats \<Longrightarrow> wf_row (g w) ats"
  shows "wf_db (update_works P g db)"
  by (rule wf_db_map [where g = "\<lambda>w. if P w then g w else w" and h = id, OF assms(1)])
     (auto simp: assms)

lemma wf_row_ended:
  assumes "wf_row w ats" and "map attempt_number ats' = map attempt_number ats"
    and "\<forall>a \<in> set ats'. attempt_state a \<noteq> ''RUNNING''"
    and "work_id w' = work_id w" and "work_constraints w'" and "attempt_count w' = attempt_count w"
    and "max_attempts w' = max_attempts w" and "state w' \<noteq> ''RUNNING''" and "\<not> acknowledged w'"
    and "state w' = ''QUEUED'' \<longrightarrow> attempt_count w < max_attempts w \<and> \<not> cancel_requested w'"
  shows "wf_row w' ats'"
  using assms by (simp add: wf_row_def)

text \<open>Ending the running attempt of a running Work together with the Work's new state.\<close>

lemma wf_db_finish:
  assumes wf: "wf_db db" and cur: "attempt_current db key n"
    and id: "\<And>w. work_id (g w) = work_id w"
    and st: "st \<noteq> ''RUNNING''"
    and rows: "\<And>w. w \<in> set (works db) \<Longrightarrow> running_work (c_str key) w \<Longrightarrow>
       work_constraints w \<Longrightarrow> attempt_count w \<le> max_attempts w \<Longrightarrow> \<not> acknowledged w \<Longrightarrow>
       work_constraints (g w) \<and> attempt_count (g w) = attempt_count w
       \<and> max_attempts (g w) = max_attempts w \<and> state (g w) \<noteq> ''RUNNING'' \<and> \<not> acknowledged (g w)
       \<and> (state (g w) = ''QUEUED'' \<longrightarrow> attempt_count w < max_attempts w \<and> \<not> cancel_requested (g w))"
  shows "wf_db (update_works (running_work (c_str key)) g
           (update_attempts (running_attempt (c_str key) n) (end_attempt st t m) db))"
proof (rule wf_db_map [where g = "\<lambda>w. if running_work (c_str key) w then g w else w"
      and h = "\<lambda>a. if running_attempt (c_str key) n a then end_attempt st t m a else a", OF wf])
  let ?h = "\<lambda>a. if running_attempt (c_str key) n a then end_attempt st t m a else a"
  fix w
  assume w: "w \<in> set (works db)" and row: "wf_row w (attempts_of db (work_id w))"
  have num: "map attempt_number (map ?h ats) = map attempt_number ats" for ats
    by (auto simp: end_attempt_def)
  show "wf_row (if running_work (c_str key) w then g w else w) (map ?h (attempts_of db (work_id w)))"
  proof (cases "running_work (c_str key) w")
    case True
    then have "attempt_count w = n"
      using cur w by (auto simp: attempt_current_def running_work_def)
    then have ended: "\<forall>a \<in> set (map ?h (attempts_of db (work_id w))). attempt_state a \<noteq> ''RUNNING''"
      using row True st
      by (auto simp: wf_row_def attempts_of_def running_attempt_def running_work_def end_attempt_def)
    have "\<not> acknowledged w"
      using row True by (auto simp: wf_row_def running_work_def)
    then show ?thesis
      using rows [OF w True] row True
      by (intro wf_row_ended [OF row num ended]) (auto simp: id wf_row_def)
  next
    case False
    then have "?h a = a" if "a \<in> set (attempts_of db (work_id w))" for a
      using that row by (auto simp: wf_row_def attempts_of_def running_attempt_def running_work_def)
    then have "map ?h (attempts_of db (work_id w)) = attempts_of db (work_id w)"
      by (simp add: map_idI)
    with False row show ?thesis by simp
  qed
qed (auto simp: id end_attempt_def)

section \<open>Every operation keeps it\<close>

lemmas wf_row_columns = wf_row_def work_constraints_def

lemma wf_db_distinct: "wf_db db \<Longrightarrow> distinct (map work_id (works db))"
  by (simp add: wf_db_def)

lemma same_id_eq:
  "wf_db db \<Longrightarrow> v \<in> set (works db) \<Longrightarrow> w \<in> set (works db) \<Longrightarrow> work_id v = work_id w \<Longrightarrow> v = w"
  using wf_db_distinct by (metis distinct_map inj_on_eq_iff)

lemma select_work_SomeD: "select_work P db = Some w \<Longrightarrow> w \<in> set (works db) \<and> P w"
  by (auto simp: select_work_def find_Some_iff)

lemma wf_db_rowD: "wf_db db \<Longrightarrow> w \<in> set (works db) \<Longrightarrow> wf_row w (attempts_of db (work_id w))"
  by (simp add: wf_db_def)

lemma attempts_of_unknown:
  "wf_db db \<Longrightarrow> key \<notin> work_id ` set (works db) \<Longrightarrow> attempts_of db key = []"
  by (auto simp: wf_db_def attempts_of_def filter_empty_conv)

lemma store_submit_wf:
  assumes wf: "wf_db db" and "state w = ''QUEUED''" and "max_attempts w \<le> i32_max"
  shows "wf_db (snd (store_submit f w db))"
proof (cases "\<exists>e. fst (store_submit f w db) = Inl e")
  case True
  then have "snd (store_submit f w db) = db"
    by (auto simp: store_submit_def Let_def split: option.splits if_splits)
  with wf show ?thesis by simp
next
  case False
  let ?row = "bound_row w"
  let ?db = "db\<lparr>works := works db @ [?row]\<rparr>"
  from False have snd: "snd (store_submit f w db) = ?db" and con: "work_constraints ?row"
    and new: "select_work (\<lambda>v. work_id v = work_id ?row) db = None"
    by (auto simp: store_submit_def Let_def split: option.splits if_splits)
  from new have fresh: "work_id ?row \<notin> work_id ` set (works db)"
    by (auto simp: select_work_def find_None_iff)
  have at: "attempts_of ?db key = attempts_of db key" for key
    by (simp add: attempts_of_def)
  have "wf_row ?row []"
    using con assms(2,3) by (simp add: wf_row_columns bound_row_def c_str_def)
  with wf fresh show ?thesis
    unfolding snd by (auto simp: wf_db_def at attempts_of_unknown [OF wf fresh])
qed

lemma store_expire_wf: "wf_db db \<Longrightarrow> wf_db (snd (store_expire_queued_deadlines f now db))"
  by (auto simp: store_expire_queued_deadlines_def wf_row_columns split: option.splits
      intro!: wf_db_update_works)

lemma store_fail_queued_wf: "wf_db db \<Longrightarrow> wf_db (snd (store_fail_queued f key m db))"
  by (auto simp: store_fail_queued_def wf_row_columns split: option.splits intro!: wf_db_update_works)

lemma store_cancel_wf: "wf_db db \<Longrightarrow> wf_db (snd (store_cancel f key db))"
  by (auto simp: store_cancel_def wf_row_columns running_work_def Let_def split: option.splits
      intro!: wf_db_update_works)

lemma store_acknowledge_wf: "wf_db db \<Longrightarrow> wf_db (snd (store_acknowledge f key db))"
  by (auto simp: store_acknowledge_def wf_row_columns Let_def split: option.splits
      intro!: wf_db_update_works)

lemma store_finish_success_wf:
  "wf_db db \<Longrightarrow> attempt_current db key n \<Longrightarrow> wf_db (snd (store_finish_success f key n t db))"
  by (auto simp: store_finish_success_def work_constraints_def running_work_def split: option.splits
      intro!: wf_db_finish)

lemma store_finish_cancelled_wf:
  "wf_db db \<Longrightarrow> attempt_current db key n \<Longrightarrow> wf_db (snd (store_finish_cancelled f key n t db))"
  by (auto simp: store_finish_cancelled_def work_constraints_def running_work_def split: option.splits
      intro!: wf_db_finish)

lemma settle_failed_simps [simp]:
  "work_id (settle_failed c m now w r) = work_id r"
  "attempt_count (settle_failed c m now w r) = attempt_count r"
  "max_attempts (settle_failed c m now w r) = max_attempts r"
  "acknowledged (settle_failed c m now w r) = acknowledged r"
  "cancel_requested (settle_failed c m now w r) = cancel_requested r"
  "state (settle_failed c m now w r) \<noteq> ''RUNNING''"
  "work_constraints (settle_failed c m now w r) = work_constraints (r\<lparr>state := ''QUEUED''\<rparr>)"
  "state (settle_failed c m now w r) = ''QUEUED'' \<longleftrightarrow> \<not> cancel_requested w \<and> retry_permitted w now"
  by (auto simp: settle_failed_def work_constraints_def)

lemma retry_permitted_count: "retry_permitted w now \<Longrightarrow> attempt_count w < max_attempts w"
  by (auto simp: retry_permitted_def split: if_splits)

lemma work_constraints_requeue:
  "work_constraints w \<Longrightarrow> work_constraints (w\<lparr>state := ''QUEUED''\<rparr>)"
  by (simp add: work_constraints_def)

lemma wf_db_settle:
  assumes "wf_db db" and "attempt_current db key n" and "w \<in> set (works db)"
    and "work_id w = c_str key" and "st \<noteq> ''RUNNING''"
  shows "wf_db (update_works (running_work (c_str key)) (settle_failed c m now w)
           (update_attempts (running_attempt (c_str key) n) (end_attempt st t m') db))"
proof (rule wf_db_finish [OF assms(1,2) _ assms(5)])
  fix r
  assume r: "r \<in> set (works db)" "running_work (c_str key) r" "work_constraints r" "\<not> acknowledged r"
  then have "r = w"
    using same_id_eq [OF assms(1)] assms(3,4) by (auto simp: running_work_def)
  with r show "work_constraints (settle_failed c m now w r)
      \<and> attempt_count (settle_failed c m now w r) = attempt_count r
      \<and> max_attempts (settle_failed c m now w r) = max_attempts r
      \<and> state (settle_failed c m now w r) \<noteq> ''RUNNING'' \<and> \<not> acknowledged (settle_failed c m now w r)
      \<and> (state (settle_failed c m now w r) = ''QUEUED'' \<longrightarrow>
           attempt_count r < max_attempts r \<and> \<not> cancel_requested (settle_failed c m now w r))"
    by (auto simp: work_constraints_requeue retry_permitted_count)
qed simp

lemma store_finish_retryable_failure_cases:
  obtains (rejected) e where "store_finish_retryable_failure f key n st m t db = (Inl e, db)"
  | (absent) "select_work (running_work (c_str key)) db = None"
      "store_finish_retryable_failure f key n st m t db = (Inr (), db)"
  | (settled) w where "select_work (running_work (c_str key)) db = Some w" "st \<noteq> ''RUNNING''"
      "store_finish_retryable_failure f key n st m t db =
         (Inr (), update_works (running_work (c_str key)) (settle_failed ''cancelled'' (c_str m) t w)
            (update_attempts (running_attempt (c_str key) n) (end_attempt st t (c_str m)) db))"
proof (cases "st = ''FAILED'' \<or> st = ''TIMED_OUT''")
  case False
  then show ?thesis
    by (intro rejected) (simp add: store_finish_retryable_failure_def)
next
  case st: True
  then have run: "st \<noteq> ''RUNNING''" by auto
  show ?thesis
  proof (cases "select_work (running_work (c_str key)) db")
    case None
    with st show ?thesis
      by (cases "\<exists>e. store_finish_retryable_failure f key n st m t db = (Inl e, db)")
         (use rejected absent in \<open>auto simp: store_finish_retryable_failure_def Let_def split: option.splits\<close>)
  next
    case (Some w)
    show ?thesis
    proof (cases "\<exists>e. store_finish_retryable_failure f key n st m t db = (Inl e, db)")
      case False
      then have "store_finish_retryable_failure f key n st m t db =
         (Inr (), update_works (running_work (c_str key)) (settle_failed ''cancelled'' (c_str m) t w)
            (update_attempts (running_attempt (c_str key) n) (end_attempt st t (c_str m)) db))"
        unfolding store_finish_retryable_failure_def Let_def Some option.case
        using st by (simp split: option.splits if_split_asm)
      then show ?thesis
        by (rule settled [OF Some run])
    qed (use rejected in blast)
  qed
qed

lemma store_finish_retryable_failure_wf:
  assumes "wf_db db" and "attempt_current db key n"
  shows "wf_db (snd (store_finish_retryable_failure f key n st m t db))"
proof (cases f key n st m t db rule: store_finish_retryable_failure_cases)
  case (settled w)
  then show ?thesis
    using assms select_work_SomeD [OF settled(1)] by (simp add: running_work_def wf_db_settle)
qed (simp_all add: assms)

text \<open>\<open>begin_attempt\<close> on a well-formed store: no attempt, or the next one of a queued Work.\<close>

lemma queued_unique:
  assumes "wf_db db" and "w \<in> set (works db)" and "work_id w = key" and "P w"
  shows "length (filter (\<lambda>v. work_id v = key \<and> P v) (works db)) = 1"
proof -
  obtain us vs where works: "works db = us @ w # vs"
    using assms(2) by (meson split_list)
  have "work_id v \<noteq> key" if "v \<in> set us \<union> set vs" for v
    using wf_db_distinct [OF assms(1)] that assms(3) by (fastforce simp: works image_iff)
  then have "filter (\<lambda>v. work_id v = key \<and> P v) us = []"
    and "filter (\<lambda>v. work_id v = key \<and> P v) vs = []"
    by (auto simp: filter_empty_conv)
  then show ?thesis
    using assms(3,4) by (simp add: works)
qed

lemma attempt_number_fresh:
  assumes "wf_db db" and "w \<in> set (works db)" and "a \<in> set (attempts db)"
    and "attempt_work_id a = work_id w"
  shows "attempt_number a \<le> attempt_count w"
proof -
  have "attempt_number a \<in> set (map attempt_number (attempts_of db (work_id w)))"
    using assms(3,4) by (auto simp: attempts_of_def)
  moreover have "map attempt_number (attempts_of db (work_id w)) = [1..attempt_count w]"
    using wf_db_rowD [OF assms(1,2)] by (simp add: wf_row_def)
  ultimately show ?thesis
    by simp
qed

definition attempt_begun ::
    "string \<Rightarrow> string \<Rightarrow> string \<Rightarrow> i64 \<Rightarrow> int \<Rightarrow> Db \<Rightarrow> Db" where
  "attempt_begun key eng mdl t n db =
     (update_works (\<lambda>w. work_id w = key)
        (\<lambda>w. w\<lparr>state := ''RUNNING'', attempt_count := n, selected_engine_id := eng,
               selected_model_id := mdl, technical_failure := []\<rparr>) db)
     \<lparr>attempts := attempts db @
        [\<lparr>attempt_work_id = key, attempt_number = n, attempt_engine_id = eng,
          attempt_model_id = mdl, started_at_ms = t, ended_at_ms = None,
          attempt_state = ''RUNNING'', attempt_failure = []\<rparr>]\<rparr>"

lemma store_begin_attempt_queued:
  assumes wf: "wf_db db" and w: "w \<in> set (works db)" "work_id w = c_str key"
    and q: "state w = ''QUEUED''"
  shows "(\<exists>e. store_begin_attempt f key eng mdl t db = (Inl e, db) \<and> f \<noteq> None)
     \<or> store_begin_attempt f key eng mdl t db =
         (Inr (attempt_count w + 1),
          attempt_begun (c_str key) (c_str eng) (c_str mdl) t (attempt_count w + 1) db)"
proof -
  let ?queued = "\<lambda>w. work_id w = c_str key \<and> state w = ''QUEUED'' \<and> \<not> cancel_requested w"
  have nc: "\<not> cancel_requested w"
    using wf_db_rowD [OF wf w(1)] q by (simp add: wf_row_def)
  obtain v where v: "select_work ?queued db = Some v"
    using w q nc by (cases "select_work ?queued db") (auto simp: select_work_def find_None_iff)
  then have "v = w"
    using select_work_SomeD [OF v] same_id_eq [OF wf _ w(1)] w(2) by auto
  then have sel: "select_work ?queued db = Some w"
    using v by simp
  have one: "length (filter ?queued (works db)) = 1"
    using queued_unique [OF wf w, of "\<lambda>w. state w = ''QUEUED'' \<and> \<not> cancel_requested w"] q nc by simp
  have fresh: "\<not> list_ex (\<lambda>a. attempt_work_id a = c_str key \<and> attempt_number a = attempt_count w + 1)
      (attempts db)"
    using attempt_number_fresh [OF wf w(1)] w(2) by (fastforce simp: list_ex_iff)
  have rows: "update_works ?queued g db = update_works (\<lambda>w. work_id w = c_str key) g db" for g
  proof -
    have "(if ?queued v then g v else v) = (if work_id v = c_str key then g v else v)"
      if "v \<in> set (works db)" for v
      using same_id_eq [OF wf that w(1)] w(2) q nc by auto
    then have "map (\<lambda>v. if ?queued v then g v else v) (works db)
        = map (\<lambda>v. if work_id v = c_str key then g v else v) (works db)"
      by (rule map_cong [OF refl])
    then show ?thesis by (simp only: update_works_def)
  qed
  have f: "f \<noteq> None" if "checks f n as = Some e" for n as e
    using that by (cases f) auto
  show ?thesis
    using f by (auto simp: store_begin_attempt_def Let_def sel one fresh rows attempt_begun_def
        split: option.split)
qed

lemma store_begin_attempt_absent:
  assumes "\<forall>w \<in> set (works db). work_id w = c_str key \<longrightarrow> state w \<noteq> ''QUEUED''"
  shows "snd (store_begin_attempt f key eng mdl t db) = db"
    and "fst (store_begin_attempt f key eng mdl t db) = Inr n \<Longrightarrow> n = 0"
proof -
  have "select_work (\<lambda>w. work_id w = c_str key \<and> state w = ''QUEUED'' \<and> \<not> cancel_requested w) db = None"
    using assms by (auto simp: select_work_def find_None_iff)
  then show "snd (store_begin_attempt f key eng mdl t db) = db"
    and "fst (store_begin_attempt f key eng mdl t db) = Inr n \<Longrightarrow> n = 0"
    by (auto simp: store_begin_attempt_def Let_def split: option.splits)
qed

lemma wf_db_begun:
  assumes wf: "wf_db db" and w: "w \<in> set (works db)" and q: "state w = ''QUEUED''"
  shows "wf_db (attempt_begun (work_id w) eng mdl t (attempt_count w + 1) db)"
proof -
  let ?n = "attempt_count w + 1"
  let ?db = "attempt_begun (work_id w) eng mdl t ?n db"
  have row: "wf_row w (attempts_of db (work_id w))"
    by (rule wf_db_rowD [OF wf w])
  have works: "works ?db = map (\<lambda>v. if work_id v = work_id w then
      v\<lparr>state := ''RUNNING'', attempt_count := ?n, selected_engine_id := eng,
        selected_model_id := mdl, technical_failure := []\<rparr> else v) (works db)"
    by (simp add: attempt_begun_def)
  have ids: "map work_id (works ?db) = map work_id (works db)"
    by (simp add: works)
  then have id_set: "work_id ` set (works ?db) = work_id ` set (works db)"
    by (metis list.set_map)
  have other: "attempts_of ?db key = attempts_of db key" if "key \<noteq> work_id w" for key
    using that by (simp add: attempts_of_def attempt_begun_def)
  have upto: "[1..?n] = [1..attempt_count w] @ [?n]"
    using row by (subst upto_rec2) (auto simp: wf_row_def)
  have "wf_row r (attempts_of ?db (work_id r))" if r: "r \<in> set (works ?db)" for r
  proof -
    obtain v where v: "v \<in> set (works db)"
      and rv: "r = (if work_id v = work_id w then
        v\<lparr>state := ''RUNNING'', attempt_count := ?n, selected_engine_id := eng,
          selected_model_id := mdl, technical_failure := []\<rparr> else v)"
      using r by (auto simp: works)
    show ?thesis
    proof (cases "work_id v = work_id w")
      case True
      then have "v = w"
        using same_id_eq [OF wf v w] by simp
      moreover have "\<forall>a \<in> set (attempts_of db (work_id w)). attempt_number a \<le> attempt_count w"
        using attempt_number_fresh [OF wf w] by (auto simp: attempts_of_def)
      ultimately show ?thesis
        using row q rv upto
        by (auto simp: wf_row_columns attempts_of_def attempt_begun_def)
    next
      case False
      then show ?thesis
        using rv wf_db_rowD [OF wf v] by (simp add: other)
    qed
  qed
  moreover have "attempt_work_id a \<in> work_id ` set (works ?db)" if "a \<in> set (attempts ?db)" for a
    unfolding id_set using that wf w by (auto simp: attempt_begun_def wf_db_def)
  ultimately show ?thesis
    using wf ids by (simp add: wf_db_def)
qed

lemma store_begin_attempt_wf:
  assumes "wf_db db"
  shows "wf_db (snd (store_begin_attempt f key eng mdl t db))"
proof (cases "\<exists>w \<in> set (works db). work_id w = c_str key \<and> state w = ''QUEUED''")
  case True
  then obtain w where w: "w \<in> set (works db)" "work_id w = c_str key" "state w = ''QUEUED''"
    by auto
  have "wf_db (attempt_begun (c_str key) (c_str eng) (c_str mdl) t (attempt_count w + 1) db)"
    using wf_db_begun [OF assms w(1,3)] w(2) by simp
  then show ?thesis
    using store_begin_attempt_queued [OF assms w, of f eng mdl t] assms by auto
next
  case False
  then show ?thesis
    using store_begin_attempt_absent(1) [of db key] assms by auto
qed

section \<open>Recovery and the queue\<close>

text \<open>Recovery settles each running row on its own.\<close>

lemma update_works_one:
  assumes "distinct (map work_id (us @ w # vs))" and "\<And>v. P v \<Longrightarrow> work_id v = work_id w"
  shows "map (\<lambda>v. if P v then g v else v) (us @ w # vs) = us @ (if P w then g w else w) # vs"
proof -
  have "\<not> P v" if "v \<in> set us \<union> set vs" for v
    using that assms by (fastforce simp: image_iff)
  then have "map (\<lambda>v. if P v then g v else v) us = us" and "map (\<lambda>v. if P v then g v else v) vs = vs"
    by (auto intro: map_idI)
  then show ?thesis by simp
qed

definition settled_on_restart :: "i64 \<Rightarrow> WorkRecord \<Rightarrow> WorkRecord" where
  "settled_on_restart now w =
     (if state w = ''RUNNING''
      then settle_failed ''cancelled before restart recovery'' restart_text now w w else w)"

lemma work_id_settled [simp]: "work_id (settled_on_restart now w) = work_id w"
  by (simp add: settled_on_restart_def)

lemma fold_recover_works:
  assumes "distinct (map work_id (us @ vs))" and "works db = us @ vs"
  shows "works (fold (recover_one now) (filter (\<lambda>w. state w = ''RUNNING'') vs) db) =
    us @ map (settled_on_restart now) vs"
  using assms
proof (induction vs arbitrary: us db)
  case (Cons w vs)
  show ?case
  proof (cases "state w = ''RUNNING''")
    case True
    have "works (recover_one now w db) = (us @ [settled_on_restart now w]) @ vs"
      using update_works_one [OF Cons.prems(1), of "running_work (work_id w)"] Cons.prems(2) True
      by (simp add: recover_one_def running_work_def settled_on_restart_def)
    moreover have "distinct (map work_id ((us @ [settled_on_restart now w]) @ vs))"
      using Cons.prems(1) by simp
    ultimately show ?thesis
      using Cons.IH [of "us @ [settled_on_restart now w]" "recover_one now w db"] True by simp
  next
    case False
    then have "settled_on_restart now w = w"
      by (simp add: settled_on_restart_def)
    then show ?thesis
      using Cons.IH [of "us @ [w]" db] Cons.prems False by simp
  qed
qed simp

lemma wf_db_recover_one:
  assumes "wf_db db" and "w \<in> set (works db)"
  shows "wf_db (recover_one now w db)"
proof -
  have key: "c_str (work_id w) = work_id w"
    using wf_db_rowD [OF assms] by (simp add: wf_row_def)
  have "attempt_current db (work_id w) (attempt_count w)"
    using same_id_eq [OF assms(1) _ assms(2)] by (auto simp: attempt_current_def key)
  then show ?thesis
    using wf_db_settle [OF assms(1) _ assms(2), of "work_id w"] by (simp add: recover_one_def key)
qed

lemma recover_one_other:
  "v \<in> set (works db) \<Longrightarrow> work_id v \<noteq> work_id w \<Longrightarrow> v \<in> set (works (recover_one now w db))"
  by (force simp: recover_one_def running_work_def image_iff)

lemma fold_recover_wf:
  "wf_db db \<Longrightarrow> distinct (map work_id rs) \<Longrightarrow> set rs \<subseteq> set (works db) \<Longrightarrow>
     wf_db (fold (recover_one now) rs db)"
proof (induction rs arbitrary: db)
  case (Cons w rs)
  have "v \<in> set (works (recover_one now w db))" if "v \<in> set rs" for v
    using Cons.prems that by (intro recover_one_other) (auto simp: image_iff)
  then show ?case
    using Cons.IH [of "recover_one now w db"] Cons.prems wf_db_recover_one by auto
qed simp

lemma distinct_filter_ids: "distinct (map work_id ws) \<Longrightarrow> distinct (map work_id (filter P ws))"
  by (rule distinct_map_filter)

lemma store_recover_wf: "wf_db db \<Longrightarrow> wf_db (snd (store_recover_interrupted f now db))"
  by (auto simp: store_recover_interrupted_def Let_def distinct_filter_ids wf_db_distinct
      split: option.split intro!: fold_recover_wf)

lemma store_recover_works:
  assumes "wf_db db" and "fst (store_recover_interrupted f now db) = Inr ()"
  shows "works (snd (store_recover_interrupted f now db)) = map (settled_on_restart now) (works db)"
  using assms fold_recover_works [of "[]" "works db" db now] wf_db_distinct [OF assms(1)]
  by (auto simp: store_recover_interrupted_def Let_def split: option.splits)

text \<open>The scheduler's queue order.\<close>

lemma first_least_None [simp]: "first_least lt xs = None \<longleftrightarrow> xs = []"
  by (cases xs) (auto split: option.splits)

lemma first_least_position:
  assumes asym: "\<And>x y. lt x y \<Longrightarrow> \<not> lt y x"
    and negtrans: "\<And>x y z. \<not> lt x y \<Longrightarrow> \<not> lt y z \<Longrightarrow> \<not> lt x z"
  shows "first_least lt xs = Some x \<Longrightarrow>
    \<exists>us vs. xs = us @ x # vs \<and> (\<forall>u \<in> set us. lt x u) \<and> (\<forall>v \<in> set vs. \<not> lt v x)"
proof (induction xs arbitrary: x)
  case (Cons y ys)
  show ?case
  proof (cases "first_least lt ys")
    case None
    then have "y # ys = [] @ x # []"
      using Cons.prems by simp
    then show ?thesis by force
  next
    case (Some z)
    show ?thesis
    proof (cases "lt z y")
      case True
      then have "x = z" using Some Cons.prems by simp
      then obtain us vs where "ys = us @ x # vs" "\<forall>u \<in> set us. lt x u" "\<forall>v \<in> set vs. \<not> lt v x"
        using Cons.IH Some by auto
      then have "y # ys = (y # us) @ x # vs" "\<forall>u \<in> set (y # us). lt x u" "\<forall>v \<in> set vs. \<not> lt v x"
        using True \<open>x = z\<close> by auto
      then show ?thesis by blast
    next
      case False
      then have x: "x = y" using Some Cons.prems by simp
      obtain us vs where ys: "ys = us @ z # vs" "\<forall>u \<in> set us. lt z u" "\<forall>v \<in> set vs. \<not> lt v z"
        using Cons.IH Some by auto
      have "\<not> lt v z" if "v \<in> set ys" for v
        using that ys asym by auto
      then have "y # ys = [] @ x # ys" "\<forall>v \<in> set ys. \<not> lt v x"
        using x False negtrans by auto
      then show ?thesis by force
    qed
  qed
qed simp

end
