(* ===== verification/Store_Contract.thy ===== *)
theory Store_Contract
  imports Store_Invariant
begin

text \<open>
  What the store promises to the Kernel. The lifecycle of a row is an abstract step relation;
  the locale \<open>store_operation\<close> states the contract of one operation (a thrown exception changes
  nothing, the invariant is kept, each row moves along the lifecycle), and every operation of
  the store interprets it. Sequences of calls follow, and the properties of the store.
\<close>

section \<open>Lifecycle of a row\<close>

text \<open>The life of one row, as the abstract machine every operation follows.\<close>

inductive row_step :: "WorkRecord \<Rightarrow> WorkRecord \<Rightarrow> bool" where
  keep: "row_step w w"
| reject: "state w = ''QUEUED'' \<Longrightarrow> row_step w (w\<lparr>state := ''FAILED'', technical_failure := m\<rparr>)"
| dispatch: "state w = ''QUEUED'' \<Longrightarrow> \<not> cancel_requested w \<Longrightarrow> attempt_count w < max_attempts w \<Longrightarrow>
    row_step w (w\<lparr>state := ''RUNNING'', attempt_count := attempt_count w + 1,
      selected_engine_id := eng, selected_model_id := mdl, technical_failure := []\<rparr>)"
| succeed: "state w = ''RUNNING'' \<Longrightarrow>
    row_step w (w\<lparr>state := ''SUCCEEDED'', technical_failure := []\<rparr>)"
| stop: "state w = ''RUNNING'' \<Longrightarrow>
    row_step w (w\<lparr>state := ''CANCELLED'', technical_failure := ''cancelled''\<rparr>)"
| settle: "state w = ''RUNNING'' \<Longrightarrow> row_step w (settle_failed c m t w w)"
| cancel_queued: "state w = ''QUEUED'' \<Longrightarrow>
    row_step w (w\<lparr>state := ''CANCELLED'', cancel_requested := True, technical_failure := ''cancelled''\<rparr>)"
| request_cancel: "state w = ''RUNNING'' \<Longrightarrow> row_step w (w\<lparr>cancel_requested := True\<rparr>)"
| acknowledge: "state w = ''SUCCEEDED'' \<Longrightarrow> \<not> acknowledged w \<Longrightarrow>
    row_step w (w\<lparr>acknowledged := True\<rparr>)"

inductive_cases row_stepE: "row_step w w'"

definition rows_step :: "WorkRecord list \<Rightarrow> WorkRecord list \<Rightarrow> bool" where
  "rows_step ws ws' \<longleftrightarrow>
     (\<exists>olds news. ws' = olds @ news \<and> list_all2 row_step ws olds
        \<and> (\<forall>w \<in> set news. state w = ''QUEUED'' \<and> attempt_count w = 0 \<and> \<not> acknowledged w))"

definition terminal :: "string \<Rightarrow> bool" where
  "terminal s \<longleftrightarrow> s = ''SUCCEEDED'' \<or> s = ''FAILED'' \<or> s = ''CANCELLED''"

lemma row_step_id: "row_step w w' \<Longrightarrow> work_id w' = work_id w"
  by (erule row_stepE) simp_all

lemma row_step_terminal:
  assumes "row_step w w'" and "terminal (state w)"
  shows "w' = w \<or> w' = w\<lparr>acknowledged := True\<rparr>"
proof -
  have "state w \<noteq> ''QUEUED''" and "state w \<noteq> ''RUNNING''"
    using assms(2) by (auto simp: terminal_def)
  with assms(1) show ?thesis
    by (cases rule: row_step.cases) blast+
qed

lemma row_step_request:
  assumes "row_step w w'"
  shows "work_type w' = work_type w \<and> effort w' = effort w \<and> urgency w' = urgency w
    \<and> required_capabilities w' = required_capabilities w
    \<and> eligible_engine_ids w' = eligible_engine_ids w \<and> exact_engine_id w' = exact_engine_id w
    \<and> exact_model_id w' = exact_model_id w \<and> created_at_ms w' = created_at_ms w
    \<and> eligible_at_ms w' = eligible_at_ms w \<and> deadline_ms w' = deadline_ms w
    \<and> timeout_ms w' = timeout_ms w \<and> max_attempts w' = max_attempts w
    \<and> retry_delay_ms w' = retry_delay_ms w \<and> input_path w' = input_path w
    \<and> result_path w' = result_path w"
  using assms by (cases rule: row_step.cases) (simp_all add: settle_failed_def)

lemma rows_step_map: "(\<And>w. w \<in> set ws \<Longrightarrow> row_step w (g w)) \<Longrightarrow> rows_step ws (map g ws)"
  unfolding rows_step_def
  by (rule exI [of _ "map g ws"], rule exI [of _ "[]"]) (simp add: list_all2_conv_all_nth)

lemma rows_step_refl [simp]: "rows_step ws ws"
  using rows_step_map [of ws "\<lambda>w. w"] by (simp add: row_step.keep)

lemma rows_step_append:
  "state w = ''QUEUED'' \<and> attempt_count w = 0 \<and> \<not> acknowledged w \<Longrightarrow> rows_step ws (ws @ [w])"
  unfolding rows_step_def
  by (rule exI [of _ ws], rule exI [of _ "[w]"]) (simp add: list_all2_conv_all_nth row_step.keep)

lemma rows_step_update:
  "(\<And>w. w \<in> set (works db) \<Longrightarrow> P w \<Longrightarrow> row_step w (g w)) \<Longrightarrow>
     rows_step (works db) (works (update_works P g db))"
  by (simp add: rows_step_map row_step.keep)

lemma rows_stepE:
  assumes "rows_step ws ws'" and "w \<in> set ws"
  obtains w' where "w' \<in> set ws'" and "row_step w w'"
proof -
  obtain olds news where ws': "ws' = olds @ news" and rel: "list_all2 row_step ws olds"
    using assms(1) by (auto simp: rows_step_def)
  obtain i where i: "i < length ws" "w = ws ! i"
    using assms(2) by (auto simp: in_set_conv_nth)
  show thesis
    using that [of "olds ! i"] i rel by (simp add: ws' list_all2_conv_all_nth)
qed

section \<open>The contract of an operation\<close>

locale store_operation =
  fixes guard :: "Db \<Rightarrow> bool"
    and op :: "sqlite_fault \<Rightarrow> Db \<Rightarrow> 'a result \<times> Db"
  assumes rollback: "fst (op f db) = Inl e \<Longrightarrow> snd (op f db) = db"
    and keeps_wf: "wf_db db \<Longrightarrow> guard db \<Longrightarrow> wf_db (snd (op f db))"
    and refines: "wf_db db \<Longrightarrow> guard db \<Longrightarrow> rows_step (works db) (works (snd (op f db)))"
begin

lemma terminal_rows_stay:
  assumes "wf_db db" and "guard db" and "w \<in> set (works db)" and "terminal (state w)"
  shows "w \<in> set (works (snd (op f db))) \<or> w\<lparr>acknowledged := True\<rparr> \<in> set (works (snd (op f db)))"
  using rows_stepE [OF refines [OF assms(1,2)] assms(3)] row_step_terminal [OF _ assms(4)] by metis

lemma wf_whatever_happens:
  "wf_db db \<Longrightarrow> guard db \<Longrightarrow> op f db = (r, db') \<Longrightarrow> wf_db db' \<and> (\<forall>e. r = Inl e \<longrightarrow> db' = db)"
  using keeps_wf [of db f] rollback [of f db] by auto

end

lemma rows_step_finish:
  assumes "\<And>w. w \<in> set (works db) \<Longrightarrow> running_work key w \<Longrightarrow> row_step w (g w)"
  shows "rows_step (works db) (works (update_works (running_work key) g
           (update_attempts P h db)))"
  using assms by (simp add: rows_step_map row_step.keep)

interpretation submitting: store_operation
  "\<lambda>db. state w = ''QUEUED'' \<and> max_attempts w \<le> i32_max" "\<lambda>f. store_submit f w" for w
proof
  fix f db
  assume g: "wf_db db" "state w = ''QUEUED'' \<and> max_attempts w \<le> i32_max"
  then show "wf_db (snd (store_submit f w db))"
    by (simp add: store_submit_wf)
  have "snd (store_submit f w db) = db \<or> snd (store_submit f w db) = db\<lparr>works := works db @ [bound_row w]\<rparr>"
    by (auto simp: store_submit_def Let_def split: option.splits)
  then show "rows_step (works db) (works (snd (store_submit f w db)))"
    using g by (auto simp: bound_row_def c_str_def rows_step_append)
qed (auto simp: store_submit_def Let_def split: option.splits if_splits)

interpretation expiring: store_operation "\<lambda>_. True" "\<lambda>f. store_expire_queued_deadlines f now" for now
  by (unfold_locales; (erule store_expire_wf)?)
     (auto simp: store_expire_queued_deadlines_def split: option.splits
       intro!: rows_step_map row_step.intros)

interpretation failing: store_operation "\<lambda>_. True" "\<lambda>f. store_fail_queued f key m" for key m
  by (unfold_locales; (erule store_fail_queued_wf)?)
     (auto simp: store_fail_queued_def split: option.splits
       intro!: rows_step_map row_step.intros)

interpretation beginning: store_operation "\<lambda>_. True" "\<lambda>f. store_begin_attempt f key eng mdl t"
  for key eng mdl t
proof
  fix f db
  assume wf: "wf_db db"
  then show "wf_db (snd (store_begin_attempt f key eng mdl t db))"
    by (rule store_begin_attempt_wf)
  show "rows_step (works db) (works (snd (store_begin_attempt f key eng mdl t db)))"
  proof (cases "\<exists>w \<in> set (works db). work_id w = c_str key \<and> state w = ''QUEUED''")
    case True
    then obtain w where w: "w \<in> set (works db)" "work_id w = c_str key" "state w = ''QUEUED''"
      by auto
    have "row_step v (v\<lparr>state := ''RUNNING'', attempt_count := attempt_count w + 1,
        selected_engine_id := c_str eng, selected_model_id := c_str mdl, technical_failure := []\<rparr>)"
      if "v \<in> set (works db)" "work_id v = c_str key" for v
    proof -
      have "v = w" using same_id_eq [OF wf that(1) w(1)] that(2) w(2) by simp
      then show ?thesis
        using w(3) wf_db_rowD [OF wf w(1)] by (auto simp: wf_row_def intro: row_step.dispatch)
    qed
    then have "rows_step (works db)
        (works (attempt_begun (c_str key) (c_str eng) (c_str mdl) t (attempt_count w + 1) db))"
      by (auto simp: attempt_begun_def intro!: rows_step_map row_step.keep)
    then show ?thesis
      using store_begin_attempt_queued [OF wf w, of f eng mdl t] by auto
  next
    case False
    then show ?thesis
      using store_begin_attempt_absent(1) [of db key f eng mdl t] by auto
  qed
qed (auto simp: store_begin_attempt_def Let_def split: option.splits if_splits)

interpretation succeeding: store_operation "\<lambda>db. attempt_current db key n"
  "\<lambda>f. store_finish_success f key n t" for key n t
  by (unfold_locales; (erule (1) store_finish_success_wf)?)
     (auto simp: store_finish_success_def running_work_def split: option.splits
       intro!: rows_step_map row_step.intros)

interpretation stopping: store_operation "\<lambda>db. attempt_current db key n"
  "\<lambda>f. store_finish_cancelled f key n t" for key n t
  by (unfold_locales; (erule (1) store_finish_cancelled_wf)?)
     (auto simp: store_finish_cancelled_def running_work_def split: option.splits
       intro!: rows_step_map row_step.intros)

interpretation retrying: store_operation "\<lambda>db. attempt_current db key n"
  "\<lambda>f. store_finish_retryable_failure f key n st m t" for key n st m t
proof
  fix f db e
  show "fst (store_finish_retryable_failure f key n st m t db) = Inl e \<Longrightarrow>
      snd (store_finish_retryable_failure f key n st m t db) = db"
    by (cases f key n st m t db rule: store_finish_retryable_failure_cases) auto
next
  fix f db
  assume wf: "wf_db db" and cur: "attempt_current db key n"
  then show "wf_db (snd (store_finish_retryable_failure f key n st m t db))"
    by (rule store_finish_retryable_failure_wf)
  show "rows_step (works db) (works (snd (store_finish_retryable_failure f key n st m t db)))"
  proof (cases f key n st m t db rule: store_finish_retryable_failure_cases)
    case (settled w)
    have "row_step v (settle_failed ''cancelled'' (c_str m) t w v)"
      if "v \<in> set (works db)" "running_work (c_str key) v" for v
    proof -
      have "v = w"
        using same_id_eq [OF wf that(1)] that(2) select_work_SomeD [OF settled(1)]
        by (auto simp: running_work_def)
      then show ?thesis
        using that(2) by (auto simp: running_work_def intro: row_step.settle)
    qed
    then show ?thesis
      using settled(3) rows_step_finish by simp
  qed auto
qed

interpretation recovering: store_operation "\<lambda>_. True" "\<lambda>f. store_recover_interrupted f now" for now
proof
  fix f db
  assume wf: "wf_db db"
  then show "wf_db (snd (store_recover_interrupted f now db))"
    by (rule store_recover_wf)
  show "rows_step (works db) (works (snd (store_recover_interrupted f now db)))"
  proof (cases "fst (store_recover_interrupted f now db)")
    case (Inr u)
    then show ?thesis
      using store_recover_works [OF wf, of f now]
      by (auto simp: settled_on_restart_def intro!: rows_step_map row_step.keep row_step.settle)
  qed (auto simp: store_recover_interrupted_def Let_def split: option.splits)
qed (auto simp: store_recover_interrupted_def Let_def split: option.splits)

interpretation cancelling: store_operation "\<lambda>_. True" "\<lambda>f. store_cancel f key" for key
  by (unfold_locales; (erule store_cancel_wf)?)
     (auto simp: store_cancel_def Let_def running_work_def split: option.splits if_splits
       intro!: rows_step_map row_step.intros)

interpretation acknowledging: store_operation "\<lambda>_. True" "\<lambda>f. store_acknowledge f key" for key
  by (unfold_locales; (erule store_acknowledge_wf)?)
     (auto simp: store_acknowledge_def Let_def split: option.splits
       intro!: rows_step_map row_step.intros)

section \<open>Sequences of calls\<close>

datatype store_call =
    CallSubmit WorkRecord
  | CallExpire i64
  | CallFail string string
  | CallBegin string string string i64
  | CallSuccess string int i64
  | CallCancelled string int i64
  | CallRetry string int string string i64
  | CallRecover i64
  | CallCancel string
  | CallAcknowledge string

definition thrown :: "'a result \<times> Db \<Rightarrow> exn option \<times> Db" where
  "thrown r = (case fst r of Inl e \<Rightarrow> Some e | Inr _ \<Rightarrow> None, snd r)"

fun store_exec :: "sqlite_fault \<Rightarrow> store_call \<Rightarrow> Db \<Rightarrow> exn option \<times> Db" where
  "store_exec f (CallSubmit w) db = thrown (store_submit f w db)"
| "store_exec f (CallExpire now) db = thrown (store_expire_queued_deadlines f now db)"
| "store_exec f (CallFail key m) db = thrown (store_fail_queued f key m db)"
| "store_exec f (CallBegin key eng mdl t) db = thrown (store_begin_attempt f key eng mdl t db)"
| "store_exec f (CallSuccess key n t) db = thrown (store_finish_success f key n t db)"
| "store_exec f (CallCancelled key n t) db = thrown (store_finish_cancelled f key n t db)"
| "store_exec f (CallRetry key n st m t) db = thrown (store_finish_retryable_failure f key n st m t db)"
| "store_exec f (CallRecover now) db = thrown (store_recover_interrupted f now db)"
| "store_exec f (CallCancel key) db = thrown (store_cancel f key db)"
| "store_exec f (CallAcknowledge key) db = thrown (store_acknowledge f key db)"

text \<open>
  What the callers guarantee: a submitted Work is queued and its attempt limit is a C++
  \<open>int\<close>; an attempt is finished under the number \<open>begin_attempt\<close> gave it.
\<close>

fun admissible :: "store_call \<Rightarrow> Db \<Rightarrow> bool" where
  "admissible (CallSubmit w) db \<longleftrightarrow> state w = ''QUEUED'' \<and> max_attempts w \<le> i32_max"
| "admissible (CallSuccess key n t) db \<longleftrightarrow> attempt_current db key n"
| "admissible (CallCancelled key n t) db \<longleftrightarrow> attempt_current db key n"
| "admissible (CallRetry key n st m t) db \<longleftrightarrow> attempt_current db key n"
| "admissible _ db \<longleftrightarrow> True"

inductive store_path :: "Db \<Rightarrow> Db \<Rightarrow> bool" where
  here: "store_path db db"
| call: "store_path db db' \<Longrightarrow> admissible c db' \<Longrightarrow> store_path db (snd (store_exec f c db'))"

lemma snd_thrown [simp]: "snd (thrown r) = snd r"
  by (simp add: thrown_def)

lemma fst_thrown: "fst (thrown r) = Some e \<longleftrightarrow> fst r = Inl e"
  by (auto simp: thrown_def split: sum.splits)

lemmas store_keeps_wf =
  submitting.keeps_wf expiring.keeps_wf failing.keeps_wf beginning.keeps_wf succeeding.keeps_wf
  stopping.keeps_wf retrying.keeps_wf recovering.keeps_wf cancelling.keeps_wf acknowledging.keeps_wf

lemmas store_refines =
  submitting.refines expiring.refines failing.refines beginning.refines succeeding.refines
  stopping.refines retrying.refines recovering.refines cancelling.refines acknowledging.refines

lemmas store_rollback =
  submitting.rollback expiring.rollback failing.rollback beginning.rollback succeeding.rollback
  stopping.rollback retrying.rollback recovering.rollback cancelling.rollback acknowledging.rollback

lemma store_exec_wf: "wf_db db \<Longrightarrow> admissible c db \<Longrightarrow> wf_db (snd (store_exec f c db))"
  by (cases c) (simp_all add: store_keeps_wf)

lemma store_exec_rows:
  "wf_db db \<Longrightarrow> admissible c db \<Longrightarrow> rows_step (works db) (works (snd (store_exec f c db)))"
  by (cases c) (simp_all add: store_refines)

lemma store_path_wf: "store_path db db' \<Longrightarrow> wf_db db \<Longrightarrow> wf_db db'"
  by (induction rule: store_path.induct) (simp_all add: store_exec_wf)

lemma wf_empty_db [simp]: "wf_db empty_db"
  by (simp add: wf_db_def empty_db_def)

lemma store_path_terminal:
  assumes "store_path db db'" and "wf_db db" and "w \<in> set (works db)" and "terminal (state w)"
  shows "w \<in> set (works db') \<or> w\<lparr>acknowledged := True\<rparr> \<in> set (works db')"
  using assms
proof (induction rule: store_path.induct)
  case (call db db' c f)
  then obtain v where v: "v \<in> set (works db')" "v = w \<or> v = w\<lparr>acknowledged := True\<rparr>"
    by blast
  obtain v' where v': "v' \<in> set (works (snd (store_exec f c db')))" "row_step v v'"
    using rows_stepE [OF store_exec_rows v(1)] store_path_wf call by blast
  have "terminal (state v)"
    using v(2) call.prems(3) by auto
  then show ?case
    using row_step_terminal [OF v'(2)] v(2) v'(1) by auto
qed simp

section \<open>Properties\<close>

text \<open>
  A sample Work and a store in which its first attempt runs, for the evaluated instances below.
\<close>

definition sample_work :: WorkRecord where
  "sample_work = \<lparr>
     work_id = ''w1'', work_type = ''text-generation/v1'', state = ''QUEUED'', effort = ''STANDARD'',
     urgency = ''NORMAL'', required_capabilities = [], eligible_engine_ids = [],
     exact_engine_id = [], exact_model_id = [], created_at_ms = 10, eligible_at_ms = 10,
     next_attempt_at_ms = 10, deadline_ms = Some 1000, timeout_ms = None, max_attempts = 2,
     retry_delay_ms = 50, attempt_count = 0, input_path = ''/d/work/w1/input.bin'',
     result_path = ''/d/work/w1/result.bin'', acknowledged = False, cancel_requested = False,
     selected_engine_id = [], selected_model_id = [], technical_failure = []\<rparr>"

definition sample_running_db :: Db where
  "sample_running_db =
     snd (store_begin_attempt None ''w1'' ''e'' ''m'' 20 (snd (store_submit None sample_work empty_db)))"

lemmas store_eval =
  store_submit_def store_begin_attempt_def store_finish_retryable_failure_def store_find_def
  store_acknowledge_def store_finish_success_def store_recover_interrupted_def store_cancel_def
  store_next_eligible_def recover_one_def settle_failed_def retry_permitted_def running_work_def
  running_attempt_def end_attempt_def select_work_def bound_row_def c_str_def work_constraints_def
  update_works_def update_attempts_def empty_db_def Let_def

lemma sample_running_db_eq:
  "sample_running_db =
     \<lparr>works = [sample_work\<lparr>state := ''RUNNING'', attempt_count := 1, selected_engine_id := ''e'',
                           selected_model_id := ''m''\<rparr>],
      attempts = [\<lparr>attempt_work_id = ''w1'', attempt_number = 1, attempt_engine_id = ''e'',
                   attempt_model_id = ''m'', started_at_ms = 20, ended_at_ms = None,
                   attempt_state = ''RUNNING'', attempt_failure = []\<rparr>]\<rparr>"
  by (simp add: sample_running_db_def store_eval sample_work_def)

lemma sample_submitted_path: "store_path empty_db (snd (store_submit None sample_work empty_db))"
  using store_path.call [OF store_path.here, of "CallSubmit sample_work" empty_db None]
  by (simp add: sample_work_def i32_max_def)

lemma sample_running_path: "store_path empty_db sample_running_db"
  using store_path.call [OF sample_submitted_path, of "CallBegin ''w1'' ''e'' ''m'' 20" None]
  by (simp add: sample_running_db_def)

text \<open>
  C11: However the calls of the store are interleaved and whichever SQLite call fails, the
  attempts of a Work are numbered from one without gap or repetition up to its attempt count,
  the count never exceeds the limit the Work was submitted with, and an attempt is marked
  running exactly when it is the last one of a running Work.
\<close>

theorem attempts_bounded:
  assumes "store_path empty_db db" and "w \<in> set (works db)"
  shows "map attempt_number (attempts_of db (work_id w)) = [1..attempt_count w]
    \<and> attempt_count w \<le> max_attempts w
    \<and> (\<forall>a \<in> set (attempts_of db (work_id w)).
         attempt_state a = ''RUNNING'' \<longleftrightarrow>
         state w = ''RUNNING'' \<and> attempt_number a = attempt_count w)"
  using wf_db_rowD [OF store_path_wf [OF assms(1) wf_empty_db] assms(2)] by (simp add: wf_row_def)

theorem attempts_bounded_witness:
  "map attempt_number (attempts_of sample_running_db ''w1'') = [1..1]
    \<and> attempt_state (hd (attempts_of sample_running_db ''w1'')) = ''RUNNING''"
  using attempts_bounded [OF sample_running_path, of "hd (works sample_running_db)"]
  by (simp add: sample_running_db_eq sample_work_def attempts_of_def)

text \<open>
  C7: Every call moves each row along the lifecycle of \<open>row_step\<close>, keeps all rows and adds at
  most new queued ones: the store refines the one-row machine.
\<close>

theorem store_refines_lifecycle:
  assumes "store_path empty_db db" and "admissible c db"
  shows "rows_step (works db) (works (snd (store_exec f c db)))"
  using store_exec_rows [OF store_path_wf [OF assms(1) wf_empty_db] assms(2)] .

theorem store_refines_lifecycle_witness:
  "rows_step (works sample_running_db)
     (works (snd (store_exec None (CallRetry ''w1'' 1 ''FAILED'' ''boom'' 30) sample_running_db)))"
  by (rule store_refines_lifecycle [OF sample_running_path])
     (simp add: attempt_current_def sample_running_db_eq)

text \<open>
  A Work that has succeeded, failed or been cancelled keeps its whole row for ever: no later
  sequence of calls changes anything of it but the acknowledgement mark.
\<close>

lemma terminal_work_is_final:
  assumes "store_path empty_db db" and "store_path db db'"
    and "w \<in> set (works db)" and "terminal (state w)"
  shows "\<exists>v \<in> set (works db'). v\<lparr>acknowledged := acknowledged w\<rparr> = w"
  using store_path_terminal [OF assms(2) store_path_wf [OF assms(1) wf_empty_db] assms(3,4)] by force

text \<open>
  A call that throws leaves both tables as they were.
\<close>

lemma thrown_call_changes_nothing:
  assumes "fst (store_exec f c db) = Some e"
  shows "snd (store_exec f c db) = db"
  using assms by (cases c) (simp_all add: fst_thrown store_rollback)

lemma queue_before_asym: "queue_before x y \<Longrightarrow> \<not> queue_before y x"
  by (auto simp: queue_before_def)

lemma queue_before_negtrans: "\<not> queue_before x y \<Longrightarrow> \<not> queue_before y z \<Longrightarrow> \<not> queue_before x z"
  by (auto simp: queue_before_def)

lemma filter_split:
  assumes "filter P xs = us @ x # vs"
  obtains us' vs' where "xs = us' @ x # vs'" "filter P us' = us" "filter P vs' = vs" "P x"
  using assms
proof (induction xs arbitrary: us thesis)
  case (Cons y ys)
  show ?case
  proof (cases "P y")
    case True
    then have eq: "y # filter P ys = us @ x # vs"
      using Cons.prems(2) by simp
    show ?thesis
    proof (cases us)
      case Nil
      then show ?thesis
        using eq True by (intro Cons.prems(1) [of "[]" ys]) auto
    next
      case us: (Cons u us1)
      then have "filter P ys = us1 @ x # vs"
        using eq by simp
      from Cons.IH [OF _ this] obtain us' vs'
        where "ys = us' @ x # vs'" "filter P us' = us1" "filter P vs' = vs" "P x" .
      then show ?thesis
        using eq us True by (intro Cons.prems(1) [of "y # us'" vs']) auto
    qed
  next
    case False
    then have "filter P ys = us @ x # vs"
      using Cons.prems(2) by simp
    from Cons.IH [OF _ this] obtain us' vs'
      where "ys = us' @ x # vs'" "filter P us' = us" "filter P vs' = vs" "P x" .
    then show ?thesis
      using False by (intro Cons.prems(1) [of "y # us'" vs']) auto
  qed
qed simp

lemma first_least_Some: "xs \<noteq> [] \<Longrightarrow> \<exists>y. first_least lt xs = Some y"
  by (cases xs) (auto split: option.split)

lemma queue_head:
  assumes "first_least queue_before xs = Some x"
  obtains us vs where "xs = us @ x # vs" "\<forall>u \<in> set us. queue_before x u"
    "\<forall>v \<in> set vs. \<not> queue_before v x"
  using first_least_position [of queue_before xs x] assms queue_before_asym queue_before_negtrans
  by blast



lemma attempt_has_work:
  assumes "wf_db db" and "a \<in> set (attempts db)"
  shows "\<exists>w \<in> set (works db). attempt_work_id a = work_id w"
proof -
  have "attempt_work_id a \<in> work_id ` set (works db)"
    using assms by (simp add: wf_db_def)
  then show ?thesis by (simp add: image_iff)
qed

text \<open>
  C26: Recovery at start-up, when it succeeds, leaves no Work and no attempt running; every Work
  that was running is cancelled when a cancellation had been requested, queued again after its
  retry delay when its attempts and its deadline allow another attempt, and failed otherwise;
  every other Work is untouched.
\<close>

theorem recovery_settles_running:
  assumes "store_path empty_db db" and "store_recover_interrupted f now db = (Inr (), db')"
  shows "(\<forall>w \<in> set (works db'). state w \<noteq> ''RUNNING'')
    \<and> (\<forall>a \<in> set (attempts db'). attempt_state a \<noteq> ''RUNNING'')
    \<and> works db' = map (\<lambda>w.
        if state w = ''RUNNING''
        then (if cancel_requested w
          then w\<lparr>state := ''CANCELLED'', technical_failure := ''cancelled before restart recovery''\<rparr>
          else if retry_permitted w now
          then w\<lparr>state := ''QUEUED'', next_attempt_at_ms := add_i64 now (retry_delay_ms w),
                 technical_failure := ''Kernel restarted during active attempt'',
                 selected_engine_id := [], selected_model_id := []\<rparr>
          else w\<lparr>state := ''FAILED'', technical_failure := ''Kernel restarted during active attempt''\<rparr>)
        else w) (works db)"
proof -
  have wf: "wf_db db"
    by (rule store_path_wf [OF assms(1) wf_empty_db])
  have works: "works db' = map (settled_on_restart now) (works db)"
    using store_recover_works [OF wf, of f now] assms(2) by simp
  have wf': "wf_db db'"
    using store_recover_wf [OF wf, of f now] assms(2) by simp
  have idle: "\<forall>w \<in> set (works db'). state w \<noteq> ''RUNNING''"
    by (auto simp: works settled_on_restart_def)
  moreover have "attempt_state a \<noteq> ''RUNNING''" if a: "a \<in> set (attempts db')" for a
  proof -
    obtain w where w: "w \<in> set (works db')" "attempt_work_id a = work_id w"
      using attempt_has_work [OF wf' a] by blast
    then show ?thesis
      using wf_db_rowD [OF wf' w(1)] idle a by (auto simp: wf_row_def attempts_of_def)
  qed
  ultimately show ?thesis
    using works unfolding settled_on_restart_def [abs_def] settle_failed_def restart_text_def by blast
qed

theorem recovery_settles_running_witness:
  "works (snd (store_recover_interrupted None 100 sample_running_db))
     = [sample_work\<lparr>attempt_count := 1, next_attempt_at_ms := 150,
          technical_failure := ''Kernel restarted during active attempt''\<rparr>]"
proof -
  obtain db' where "store_recover_interrupted None 100 sample_running_db = (Inr (), db')"
    by (simp add: store_recover_interrupted_def Let_def)
  with recovery_settles_running [OF sample_running_path this] show ?thesis
    by (simp add: sample_running_db_eq retry_permitted_def sample_work_def add_i64_def wrap_i64_def)
qed



lemma add_i64_overflow:
  assumes "0 \<le> a" "a \<le> i64_max" "0 \<le> b" "b \<le> i64_max" "i64_max < a + b"
  shows "add_i64 a b = a + b - 18446744073709551616" and "add_i64 a b < 0"
proof -
  have "a + b + 9223372036854775808 = (a + b - 9223372036854775808) + 18446744073709551616"
    by simp
  then have "(a + b + 9223372036854775808) mod 18446744073709551616
      = (a + b - 9223372036854775808) mod 18446744073709551616"
    by (simp only: mod_add_self2)
  moreover have "(a + b - 9223372036854775808) mod 18446744073709551616 = a + b - 9223372036854775808"
    using assms by (intro mod_pos_pos_trivial) (simp_all add: i64_max_def)
  ultimately have "(a + b + 9223372036854775808) mod 18446744073709551616 = a + b - 9223372036854775808"
    by simp
  then show "add_i64 a b = a + b - 18446744073709551616" and "add_i64 a b < 0"
    using assms by (simp_all add: add_i64_def wrap_i64_def i64_max_def)
qed

text \<open>
  C39: The sum of the present time and a retry delay near the largest 64-bit value overflows; a
  retry that should wait for ages is then due at once, whatever the deadline.
\<close>

theorem retry_delay_overflow_is_immediate:
  assumes "0 \<le> now" "now \<le> i64_max" "retry_delay_ms w \<le> i64_max"
    and "0 \<le> retry_delay_ms w" and "i64_max < now + retry_delay_ms w"
    and "\<not> cancel_requested w" "attempt_count w < max_attempts w" "eligible_at_ms w \<le> now"
    and "\<forall>d. deadline_ms w = Some d \<longrightarrow> 0 \<le> d"
  shows "eligible_now now (settle_failed c m now w w)"
proof -
  have neg: "add_i64 now (retry_delay_ms w) < 0"
    by (rule add_i64_overflow) (use assms in simp_all)
  then have "retry_permitted w now"
    using assms(7,9) by (auto simp: retry_permitted_def split: option.splits)
  with neg show ?thesis
    using assms by (simp add: eligible_now_def settle_failed_def)
qed

theorem retry_delay_overflow_is_immediate_witness:
  "eligible_now 1000 (settle_failed ''c'' ''m'' 1000
     (sample_work\<lparr>state := ''RUNNING'', retry_delay_ms := i64_max, attempt_count := 1\<rparr>)
     (sample_work\<lparr>state := ''RUNNING'', retry_delay_ms := i64_max, attempt_count := 1\<rparr>))"
  by (rule retry_delay_overflow_is_immediate) (simp_all add: sample_work_def i64_max_def)

lemma count_ready:
  assumes wf: "wf_db db"
  shows "length (filter (\<lambda>w. work_id w = key \<and> P w) (works db)) = 1 \<longleftrightarrow>
     (\<exists>w \<in> set (works db). work_id w = key \<and> P w)"
proof
  assume "length (filter (\<lambda>w. work_id w = key \<and> P w) (works db)) = 1"
  then have "filter (\<lambda>w. work_id w = key \<and> P w) (works db) \<noteq> []"
    by auto
  then show "\<exists>w \<in> set (works db). work_id w = key \<and> P w"
    by (auto simp: filter_empty_conv)
qed (use queued_unique [OF wf] in blast)

text \<open>
  A result is acknowledged exactly once: acknowledging succeeds exactly for a Work that has
  succeeded and was not acknowledged before, and after a success it never succeeds again.
\<close>

lemma acknowledged_exactly_once:
  assumes "store_path empty_db db" and "store_acknowledge f key db = (Inr ok, db')"
  shows "(ok \<longleftrightarrow> (\<exists>w \<in> set (works db). work_id w = c_str key \<and> state w = ''SUCCEEDED'' \<and> \<not> acknowledged w))
    \<and> fst (store_acknowledge None key db') = Inr False"
proof -
  have wf: "wf_db db"
    by (rule store_path_wf [OF assms(1) wf_empty_db])
  have wf': "wf_db db'"
    using store_acknowledge_wf [OF wf, of f key] assms(2) by simp
  let ?ready = "\<lambda>w. work_id w = c_str key \<and> state w = ''SUCCEEDED'' \<and> \<not> acknowledged w"
  from assms(2) have ok: "ok \<longleftrightarrow> length (filter ?ready (works db)) = 1"
    and db': "db' = update_works ?ready (\<lambda>w. w\<lparr>acknowledged := True\<rparr>) db"
    by (auto simp: store_acknowledge_def Let_def split: option.splits)
  have "filter ?ready (works db') = []"
    by (auto simp: db' filter_empty_conv)
  then show ?thesis
    using ok count_ready [OF wf, of "c_str key" "\<lambda>w. state w = ''SUCCEEDED'' \<and> \<not> acknowledged w"]
    by (simp add: store_acknowledge_def Let_def)
qed

text \<open>
  What is submitted is found: after a submission the row read back under the Work's
  identity is the submitted record as SQLite stores it, and every other Work reads as before.
\<close>

lemma submit_then_find:
  assumes "store_submit f w db = (Inr (), db')"
  shows "store_find None (work_id w) db' = Inr (Some (bound_row w))
    \<and> (c_str key \<noteq> c_str (work_id w) \<longrightarrow> store_find g key db' = store_find g key db)"
proof -
  from assms have db': "db' = db\<lparr>works := works db @ [bound_row w]\<rparr>"
    and new: "select_work (\<lambda>v. work_id v = work_id (bound_row w)) db = None"
    by (auto simp: store_submit_def Let_def split: option.splits if_splits)
  have find: "List.find P (xs @ [x]) = (case List.find P xs of None \<Rightarrow> if P x then Some x else None
      | Some y \<Rightarrow> Some y)" for P and xs :: "WorkRecord list" and x
    by (induction xs) auto
  show ?thesis
    using new by (auto simp: db' store_find_def select_work_def find bound_row_def split: option.splits)
qed

text \<open>
  A cancellation of a queued Work takes effect at once, that of a running Work is recorded
  and its state reported unchanged, and that of an ended or unknown Work changes nothing.
\<close>

lemma cancel_by_state:
  assumes "store_path empty_db db" and "w \<in> set (works db)"
  shows "store_cancel None (work_id w) db =
    (if state w = ''QUEUED'' then
       (Inr ''CANCELLED'', update_works (\<lambda>v. work_id v = work_id w)
          (\<lambda>v. v\<lparr>state := ''CANCELLED'', cancel_requested := True, technical_failure := ''cancelled''\<rparr>) db)
     else if state w = ''RUNNING'' then
       (Inr ''RUNNING'', update_works (\<lambda>v. work_id v = work_id w) (\<lambda>v. v\<lparr>cancel_requested := True\<rparr>) db)
     else (Inr (state w), db))"
proof -
  have wf: "wf_db db"
    by (rule store_path_wf [OF assms(1) wf_empty_db])
  have key: "c_str (work_id w) = work_id w"
    using wf_db_rowD [OF wf assms(2)] by (simp add: wf_row_def)
  have uniq: "v = w" if "v \<in> set (works db)" "work_id v = work_id w" for v
    using same_id_eq [OF wf that(1) assms(2) that(2)] .
  have sel: "select_work (\<lambda>v. work_id v = work_id w) db = Some w"
  proof -
    obtain u where u: "select_work (\<lambda>v. work_id v = work_id w) db = Some u"
      using assms(2) by (cases "select_work (\<lambda>v. work_id v = work_id w) db")
        (auto simp: select_work_def find_None_iff)
    with select_work_SomeD [OF u] uniq show ?thesis by auto
  qed
  have upd: "update_works (\<lambda>v. work_id v = work_id w \<and> state v = s) g db
      = update_works (\<lambda>v. work_id v = work_id w) g db" if "state w = s" for s g
    using uniq that unfolding update_works_def by (intro arg_cong [where f = "\<lambda>x. db\<lparr>works := x\<rparr>"]) auto
  show ?thesis
    using upd by (simp add: store_cancel_def Let_def key sel running_work_def [abs_def])
qed

end
