(* ===== verification/Resources.thy ===== *)
theory Resources
  imports Cxx_Std "HOL-Library.Multiset"
begin

text \<open>
  The resource accounting of \<open>kernel/src/worker_runtime.cpp\<close>: \<open>ResourceManager\<close> and its leases.

  CPU slots are a C++ \<open>int\<close>, memory sizes are 64-bit unsigned words with their wrap-around, GPU
  memory in use is a \<open>std::map\<close>. A lease is the requirement it holds; moving a lease object
  keeps exactly one owner, so a granted lease is released exactly once, when its last owner is
  destroyed. The locale \<open>lease_pool\<close> states what the accounting relies on and proves that any
  history of reservations and releases stays within the capacity.
\<close>

section \<open>Data\<close>

record ResourceRequirement =
  req_cpu_slots :: int
  req_ram_bytes :: u64
  req_gpu_id :: string
  req_gpu_vram_bytes :: u64

record ResourceCapacity =
  cap_cpu_slots :: int
  cap_ram_bytes :: u64
  cap_gpu_vram_bytes :: "(string, u64) std_assoc"

record ResourceManager =
  capacity :: ResourceCapacity
  cpu_used :: int
  ram_used :: u64
  gpu_vram_used :: "(string, u64) std_assoc"

section \<open>Operations\<close>

definition validate_requirement :: "ResourceRequirement \<Rightarrow> unit result" where
  "validate_requirement r =
     (if req_cpu_slots r < 1 \<or> req_ram_bytes r = 0
      then Inl (InvalidArgument ''engine resource requirement must provide positive CPU and RAM'')
      else if (req_gpu_id r = []) \<noteq> (req_gpu_vram_bytes r = 0)
      then Inl (InvalidArgument ''GPU identity and VRAM requirement must be declared together'')
      else Inr ())"

definition new_resource_manager :: "ResourceCapacity \<Rightarrow> ResourceManager result" where
  "new_resource_manager cap =
     (if cap_cpu_slots cap < 1 \<or> cap_ram_bytes cap = 0
      then Inl (InvalidArgument ''resource capacity must provide positive CPU and RAM'')
      else Inr \<lparr>capacity = cap, cpu_used = 0, ram_used = 0, gpu_vram_used = []\<rparr>)"

definition can_ever_reserve :: "ResourceRequirement \<Rightarrow> ResourceManager \<Rightarrow> bool result" where
  "can_ever_reserve r m =
     bind_result (validate_requirement r) (\<lambda>_.
       if req_cpu_slots r > cap_cpu_slots (capacity m) \<or> req_ram_bytes r > cap_ram_bytes (capacity m)
       then Inr False
       else if req_gpu_id r = [] then Inr True
       else (case map_of (cap_gpu_vram_bytes (capacity m)) (req_gpu_id r) of
               None \<Rightarrow> Inr False
             | Some c \<Rightarrow> Inr (req_gpu_vram_bytes r \<le> c)))"

text \<open>
  \<open>gpu_vram_used_[id]\<close> creates an entry 0 for a GPU that has none, also when the reservation
  is then refused. The result says whether a lease was granted.
\<close>

definition gpu_slot :: "string \<Rightarrow> (string, u64) std_assoc \<Rightarrow> u64" where
  "gpu_slot g used = (case map_of used g of None \<Rightarrow> 0 | Some v \<Rightarrow> v)"

definition try_reserve :: "ResourceRequirement \<Rightarrow> ResourceManager \<Rightarrow> bool result \<times> ResourceManager" where
  "try_reserve r m =
     (case validate_requirement r of
        Inl e \<Rightarrow> (Inl e, m)
      | Inr _ \<Rightarrow>
          if req_cpu_slots r > cap_cpu_slots (capacity m) - cpu_used m
             \<or> req_ram_bytes r > cap_ram_bytes (capacity m) - ram_used m
          then (Inr False, m)
          else if req_gpu_id r = []
          then (Inr True, m\<lparr>cpu_used := cpu_used m + req_cpu_slots r,
                            ram_used := ram_used m + req_ram_bytes r\<rparr>)
          else
            (case map_of (cap_gpu_vram_bytes (capacity m)) (req_gpu_id r) of
               None \<Rightarrow> (Inr False, m)
             | Some c \<Rightarrow>
                 (let used = gpu_slot (req_gpu_id r) (gpu_vram_used m);
                      table = map_emplace (req_gpu_id r) 0 (gpu_vram_used m)
                  in if req_gpu_vram_bytes r > c - used
                     then (Inr False, m\<lparr>gpu_vram_used := table\<rparr>)
                     else (Inr True,
                           m\<lparr>cpu_used := cpu_used m + req_cpu_slots r,
                             ram_used := ram_used m + req_ram_bytes r,
                             gpu_vram_used :=
                               map_assign (req_gpu_id r) (used + req_gpu_vram_bytes r) table\<rparr>))))"

definition release_resources :: "ResourceRequirement \<Rightarrow> ResourceManager \<Rightarrow> ResourceManager" where
  "release_resources r m =
     (let m1 = m\<lparr>cpu_used := cpu_used m - req_cpu_slots r, ram_used := ram_used m - req_ram_bytes r\<rparr>
      in if req_gpu_id r = [] then m1
         else (case map_of (gpu_vram_used m) (req_gpu_id r) of
                 None \<Rightarrow> m1
               | Some v \<Rightarrow>
                   if v - req_gpu_vram_bytes r = 0
                   then m1\<lparr>gpu_vram_used := map_erase (req_gpu_id r) (gpu_vram_used m)\<rparr>
                   else m1\<lparr>gpu_vram_used :=
                          map_assign (req_gpu_id r) (v - req_gpu_vram_bytes r) (gpu_vram_used m)\<rparr>))"

section \<open>Leases\<close>

text \<open>
  A \<open>ResourceManager::Lease\<close> object: \<open>owned\<close> is \<open>owner_ != nullptr\<close>. A program run creates,
  moves and destroys lease objects; \<open>LeaseHeap\<close> is the manager with the objects that exist.
\<close>

record ResourceLease =
  owned :: bool
  lease_requirement :: ResourceRequirement

record LeaseHeap =
  manager :: ResourceManager
  leases :: "ResourceLease list"

definition lease_reset :: "nat \<Rightarrow> LeaseHeap \<Rightarrow> LeaseHeap" where
  "lease_reset i h =
     (if owned (leases h ! i)
      then \<lparr>manager = release_resources (lease_requirement (leases h ! i)) (manager h),
            leases = (leases h)[i := (leases h ! i)\<lparr>owned := False\<rparr>]\<rparr>
      else h)"

definition lease_move_construct :: "nat \<Rightarrow> LeaseHeap \<Rightarrow> LeaseHeap" where
  "lease_move_construct other h =
     h\<lparr>leases := (leases h)[other := (leases h ! other)\<lparr>owned := False\<rparr>] @ [leases h ! other]\<rparr>"

definition lease_move_assign :: "nat \<Rightarrow> nat \<Rightarrow> LeaseHeap \<Rightarrow> LeaseHeap" where
  "lease_move_assign this other h =
     (if this = other then h
      else
        let h1 = lease_reset this h;
            src = leases h1 ! other
        in h1\<lparr>leases := (leases h1)[this := src, other := src\<lparr>owned := False\<rparr>]\<rparr>)"

definition reserve_lease :: "ResourceRequirement \<Rightarrow> LeaseHeap \<Rightarrow> bool result \<times> LeaseHeap" where
  "reserve_lease r h =
     (case try_reserve r (manager h) of
        (Inr True, m) \<Rightarrow>
          (Inr True, \<lparr>manager = m, leases = leases h @ [\<lparr>owned = True, lease_requirement = r\<rparr>]\<rparr>)
      | (res, m) \<Rightarrow> (res, h\<lparr>manager := m\<rparr>))"

datatype lease_op =
    Reserve ResourceRequirement
  | MoveConstruct nat
  | MoveAssign nat nat
  | Destroy nat

fun lease_exec :: "lease_op \<Rightarrow> LeaseHeap \<Rightarrow> LeaseHeap" where
  "lease_exec (Reserve r) h = snd (reserve_lease r h)"
| "lease_exec (MoveConstruct i) h = lease_move_construct i h"
| "lease_exec (MoveAssign i j) h = lease_move_assign i j h"
| "lease_exec (Destroy i) h = lease_reset i h"

fun lease_op_ok :: "lease_op \<Rightarrow> LeaseHeap \<Rightarrow> bool" where
  "lease_op_ok (Reserve r) h = True"
| "lease_op_ok (MoveConstruct i) h = (i < length (leases h))"
| "lease_op_ok (MoveAssign i j) h = (i < length (leases h) \<and> j < length (leases h))"
| "lease_op_ok (Destroy i) h = (i < length (leases h))"

fun lease_run :: "lease_op list \<Rightarrow> LeaseHeap \<Rightarrow> LeaseHeap" where
  "lease_run [] h = h"
| "lease_run (c # cs) h = lease_run cs (if lease_op_ok c h then lease_exec c h else h)"

section \<open>Accounting interface\<close>

text \<open>
  A pool hands out amounts of several kinds of resource: a granted request fits the limits and
  is added to what is used, a refused one changes nothing that is used, and giving back
  something that is in use subtracts it.
\<close>

locale lease_pool =
  fixes used :: "'m \<Rightarrow> 'k \<Rightarrow> nat"
    and limit :: "'m \<Rightarrow> 'k \<Rightarrow> nat"
    and amount :: "'r \<Rightarrow> 'k \<Rightarrow> nat"
    and reserve :: "'r \<Rightarrow> 'm \<Rightarrow> bool \<times> 'm"
    and release :: "'r \<Rightarrow> 'm \<Rightarrow> 'm"
    and invar :: "'m \<Rightarrow> bool"
    and valid :: "'r \<Rightarrow> bool"
  assumes granted: "invar m \<Longrightarrow> reserve r m = (True, m') \<Longrightarrow>
        valid r \<and> used m' k = used m k + amount r k \<and> used m' k \<le> limit m k"
    and refused: "invar m \<Longrightarrow> reserve r m = (False, m') \<Longrightarrow> used m' k = used m k"
    and released: "invar m \<Longrightarrow> valid r \<Longrightarrow> (\<And>j. amount r j \<le> used m j) \<Longrightarrow>
        used (release r m) k = used m k - amount r k"
    and limit_fixed: "limit (snd (reserve r m)) k = limit m k" "limit (release r m) k = limit m k"
    and invar_reserve: "invar m \<Longrightarrow> invar (snd (reserve r m))"
    and invar_release: "invar m \<Longrightarrow> valid r \<Longrightarrow> (\<And>j. amount r j \<le> used m j) \<Longrightarrow> invar (release r m)"
begin

definition accounts :: "'m \<Rightarrow> 'r list \<Rightarrow> bool" where
  "accounts m rs \<longleftrightarrow> invar m \<and> (\<forall>r \<in> set rs. valid r)
     \<and> (\<forall>k. used m k = (\<Sum>r\<leftarrow>rs. amount r k))"

lemma outstanding_covered:
  "accounts m rs \<Longrightarrow> r \<in> set rs \<Longrightarrow> amount r k \<le> used m k"
  by (simp add: accounts_def member_le_sum_list)

lemma accounts_reserve:
  assumes "accounts m rs"
  shows "accounts (snd (reserve r m)) (if fst (reserve r m) then r # rs else rs)"
proof (cases "reserve r m")
  case (Pair b m')
  then show ?thesis
    using assms invar_reserve [of m r] granted [of m r m'] refused [of m r m']
    by (cases b) (auto simp: accounts_def)
qed

lemma accounts_release:
  assumes "accounts m (us @ r # vs)"
  shows "accounts (release r m) (us @ vs)"
proof -
  have cover: "amount r j \<le> used m j" for j
    by (rule outstanding_covered [OF assms]) simp
  then show ?thesis
    using assms invar_release [of m r] released [of m r] by (auto simp: accounts_def)
qed

lemma accounts_mset:
  assumes "accounts m rs" and "mset rs = mset rs'"
  shows "accounts m rs'"
proof -
  have "set rs = set rs'" and "\<And>f. (\<Sum>r\<leftarrow>rs. (f r :: nat)) = (\<Sum>r\<leftarrow>rs'. f r)"
    using assms(2) mset_eq_setD apply blast
    by (metis assms(2) mset_map sum_mset_sum_list)
  with assms(1) show ?thesis by (simp add: accounts_def)
qed

end

section \<open>The manager is such a pool\<close>

datatype resource = Cpu | Ram | Gpu string

fun used_of :: "ResourceManager \<Rightarrow> resource \<Rightarrow> nat" where
  "used_of m Cpu = nat (cpu_used m)"
| "used_of m Ram = unat (ram_used m)"
| "used_of m (Gpu g) = unat (gpu_slot g (gpu_vram_used m))"

fun limit_of :: "ResourceManager \<Rightarrow> resource \<Rightarrow> nat" where
  "limit_of m Cpu = nat (cap_cpu_slots (capacity m))"
| "limit_of m Ram = unat (cap_ram_bytes (capacity m))"
| "limit_of m (Gpu g) = unat (gpu_slot g (cap_gpu_vram_bytes (capacity m)))"

fun amount_of :: "ResourceRequirement \<Rightarrow> resource \<Rightarrow> nat" where
  "amount_of r Cpu = nat (req_cpu_slots r)"
| "amount_of r Ram = unat (req_ram_bytes r)"
| "amount_of r (Gpu g) = (if g = req_gpu_id r \<and> g \<noteq> [] then unat (req_gpu_vram_bytes r) else 0)"

definition wf_manager :: "ResourceManager \<Rightarrow> bool" where
  "wf_manager m \<longleftrightarrow> 0 \<le> cpu_used m \<and> ordered_keys (gpu_vram_used m)
     \<and> (\<forall>k. used_of m k \<le> limit_of m k)"

definition granted_by :: "ResourceRequirement \<Rightarrow> ResourceManager \<Rightarrow> bool \<times> ResourceManager" where
  "granted_by r m = (fst (try_reserve r m) = Inr True, snd (try_reserve r m))"

lemma word_reserve:
  fixes u r c :: "'a::len word"
  assumes "u \<le> c" and "\<not> c - u < r"
  shows "unat (u + r) = unat u + unat r" and "unat (u + r) \<le> unat c"
proof -
  have "unat (c - u) = unat c - unat u"
    using assms(1) by (simp add: unat_sub word_le_nat_alt)
  then have sum: "unat u + unat r \<le> unat c"
    using assms by (simp add: word_less_nat_alt word_le_nat_alt)
  moreover have "unat c < 2 ^ LENGTH('a)"
    by (rule unsigned_less)
  ultimately have "unat u + unat r < 2 ^ LENGTH('a)"
    by linarith
  then show "unat (u + r) = unat u + unat r"
    by (simp add: unat_add_lem)
  then show "unat (u + r) \<le> unat c"
    using sum by simp
qed

lemma gpu_slot_assign:
  "ordered_keys t \<Longrightarrow> gpu_slot h (map_assign g v t) = (if h = g then v else gpu_slot h t)"
  by (simp add: gpu_slot_def map_of_assign)

lemma gpu_slot_emplace: "ordered_keys t \<Longrightarrow> gpu_slot h (map_emplace g 0 t) = gpu_slot h t"
  by (simp add: gpu_slot_def map_of_emplace split: option.split)

lemma gpu_slot_erase: "gpu_slot h (map_erase g t) = (if h = g then 0 else gpu_slot h t)"
  by (simp add: gpu_slot_def map_of_erase)

lemmas gpu_table = gpu_slot_assign gpu_slot_emplace gpu_slot_erase ordered_map_assign
  ordered_map_emplace ordered_map_erase

lemma validate_requirement_ok:
  "validate_requirement r = Inr u \<longleftrightarrow>
     1 \<le> req_cpu_slots r \<and> req_ram_bytes r \<noteq> 0 \<and> (req_gpu_id r = [] \<longleftrightarrow> req_gpu_vram_bytes r = 0)"
  by (auto simp: validate_requirement_def)

lemma wf_manager_bounds:
  assumes "wf_manager m"
  shows "0 \<le> cpu_used m" and "cpu_used m \<le> cap_cpu_slots (capacity m) \<or> cpu_used m = 0"
    and "ram_used m \<le> cap_ram_bytes (capacity m)"
    and "gpu_slot g (gpu_vram_used m) \<le> gpu_slot g (cap_gpu_vram_bytes (capacity m))"
    and "ordered_keys (gpu_vram_used m)"
  using assms
  by (auto simp: wf_manager_def word_le_nat_alt dest: spec [of _ Cpu] spec [of _ Ram] spec [of _ "Gpu g"])

lemma try_reserve_granted:
  assumes wf: "wf_manager m" and "try_reserve r m = (Inr True, m')"
  shows "validate_requirement r = Inr () \<and> used_of m' k = used_of m k + amount_of r k
    \<and> used_of m' k \<le> limit_of m k"
proof -
  note b = wf_manager_bounds [OF wf]
  have ok: "1 \<le> req_cpu_slots r" "validate_requirement r = Inr ()"
    using assms(2) by (auto simp: try_reserve_def validate_requirement_ok split: sum.splits)
  have cpu: "req_cpu_slots r \<le> cap_cpu_slots (capacity m) - cpu_used m"
    and ram: "\<not> cap_ram_bytes (capacity m) - ram_used m < req_ram_bytes r"
    using assms(2) ok(2) by (auto simp: try_reserve_def split: if_splits)
  show ?thesis
  proof (cases k)
    case Cpu
    have "cpu_used m' = cpu_used m + req_cpu_slots r"
      using assms(2) ok(2)
      by (auto simp: try_reserve_def Let_def split: if_splits option.splits)
    then show ?thesis
      using b(1) cpu ok Cpu by (auto simp: nat_add_distrib)
  next
    case Ram
    have "ram_used m' = ram_used m + req_ram_bytes r"
      using assms(2) ok(2)
      by (auto simp: try_reserve_def Let_def split: if_splits option.splits)
    then show ?thesis
      using word_reserve [OF b(3) ram] ok Ram by simp
  next
    case (Gpu g)
    have "gpu_slot g (gpu_vram_used m') =
        (if g = req_gpu_id r \<and> g \<noteq> [] then gpu_slot g (gpu_vram_used m) + req_gpu_vram_bytes r
         else gpu_slot g (gpu_vram_used m))"
      and fits: "g = req_gpu_id r \<Longrightarrow> g \<noteq> [] \<Longrightarrow> \<not> gpu_slot g (cap_gpu_vram_bytes (capacity m))
         - gpu_slot g (gpu_vram_used m) < req_gpu_vram_bytes r"
      using assms(2) ok(2) b(5)
      by (auto simp: try_reserve_def Let_def gpu_table gpu_slot_def [of _ "cap_gpu_vram_bytes _"]
          split: if_splits option.splits)
    then show ?thesis
      using word_reserve [OF b(4) fits] b(4) ok(2) Gpu
      by (auto simp: word_le_nat_alt)
  qed
qed

lemma try_reserve_refused:
  assumes wf: "wf_manager m" and "fst (try_reserve r m) \<noteq> Inr True"
  shows "used_of (snd (try_reserve r m)) k = used_of m k"
  using assms(2) wf_manager_bounds(5) [OF wf]
  by (cases k) (auto simp: try_reserve_def Let_def gpu_table split: sum.splits option.splits if_splits)

lemma try_reserve_bool:
  "validate_requirement r = Inr () \<Longrightarrow> fst (try_reserve r m) = Inr True \<or> fst (try_reserve r m) = Inr False"
  by (simp add: try_reserve_def Let_def split: option.split)

lemma can_ever_reserve_True:
  "can_ever_reserve r m = Inr b \<Longrightarrow> validate_requirement r = Inr () \<and>
     (b \<longleftrightarrow> req_cpu_slots r \<le> cap_cpu_slots (capacity m)
      \<and> req_ram_bytes r \<le> cap_ram_bytes (capacity m)
      \<and> (req_gpu_id r \<noteq> [] \<longrightarrow> (\<exists>c. map_of (cap_gpu_vram_bytes (capacity m)) (req_gpu_id r) = Some c
           \<and> req_gpu_vram_bytes r \<le> c)))"
  by (cases "validate_requirement r") (auto simp: can_ever_reserve_def split: if_splits option.splits)

text \<open>A request that fits the capacity is granted by a manager of which nothing is in use.\<close>

lemma try_reserve_unused:
  assumes wf: "wf_manager m" and unused: "\<And>k. used_of m k = 0" and fits: "can_ever_reserve r m = Inr True"
  shows "fst (try_reserve r m) = Inr True"
proof -
  have "cpu_used m = 0" "ram_used m = 0" "gpu_slot (req_gpu_id r) (gpu_vram_used m) = 0"
    using unused [of Cpu] unused [of Ram] unused [of "Gpu (req_gpu_id r)"] wf_manager_bounds(1) [OF wf]
    by (auto simp: unat_eq_0)
  then show ?thesis
    using can_ever_reserve_True [OF fits] by (auto simp: try_reserve_def Let_def split: option.splits)
qed

lemma capacity_fixed [simp]:
  "capacity (snd (try_reserve r m)) = capacity m" "capacity (release_resources r m) = capacity m"
  by (auto simp: try_reserve_def release_resources_def Let_def split: sum.splits option.splits)

lemma limit_of_fixed [simp]:
  "limit_of (snd (try_reserve r m)) k = limit_of m k" "limit_of (release_resources r m) k = limit_of m k"
  by (cases k; simp)+

lemma wf_manager_reserve:
  assumes wf: "wf_manager m"
  shows "wf_manager (snd (try_reserve r m))"
proof -
  have bound: "used_of (snd (try_reserve r m)) k \<le> limit_of m k" for k
  proof (cases "fst (try_reserve r m) = Inr True")
    case True
    then show ?thesis
      using try_reserve_granted [OF wf, of r "snd (try_reserve r m)" k] by (metis prod.collapse)
  next
    case False
    then show ?thesis
      using try_reserve_refused [OF wf False, of k] wf by (simp add: wf_manager_def)
  qed
  moreover have "0 \<le> cpu_used (snd (try_reserve r m))"
      "ordered_keys (gpu_vram_used (snd (try_reserve r m)))"
    using wf_manager_bounds(1,5) [OF wf]
    by (auto simp: try_reserve_def validate_requirement_ok Let_def gpu_table
        split: sum.splits option.splits)
  ultimately show ?thesis
    by (simp add: wf_manager_def)
qed

lemma word_release:
  fixes u r :: "'a::len word"
  assumes "unat r \<le> unat u"
  shows "unat (u - r) = unat u - unat r"
  using assms by (simp add: unat_sub word_le_nat_alt)

lemma release_used:
  assumes wf: "wf_manager m" and valid: "validate_requirement r = Inr ()"
    and cover: "\<And>j. amount_of r j \<le> used_of m j"
  shows "used_of (release_resources r m) k = used_of m k - amount_of r k"
proof (cases k)
  case Cpu
  have "cpu_used (release_resources r m) = cpu_used m - req_cpu_slots r"
    by (simp add: release_resources_def Let_def split: option.split)
  then show ?thesis
    using valid Cpu wf_manager_bounds(1) [OF wf]
    by (simp add: validate_requirement_ok nat_diff_distrib')
next
  case Ram
  have "ram_used (release_resources r m) = ram_used m - req_ram_bytes r"
    by (simp add: release_resources_def Let_def split: option.split)
  then show ?thesis
    using cover [of Ram] Ram by (simp add: word_release)
next
  case (Gpu g)
  have "gpu_slot g (gpu_vram_used (release_resources r m)) =
      (if g = req_gpu_id r \<and> g \<noteq> [] \<and> map_of (gpu_vram_used m) g \<noteq> None
       then gpu_slot g (gpu_vram_used m) - req_gpu_vram_bytes r
       else gpu_slot g (gpu_vram_used m))"
    using wf_manager_bounds(5) [OF wf]
    by (auto simp: release_resources_def Let_def gpu_table split: option.split)
       (auto simp: gpu_slot_def)
  moreover have "map_of (gpu_vram_used m) g = None \<Longrightarrow> amount_of r (Gpu g) = 0"
    using cover [of "Gpu g"] by (simp add: gpu_slot_def)
  ultimately show ?thesis
    using cover [of "Gpu g"] Gpu by (auto simp: word_release)
qed

lemma wf_manager_release:
  assumes wf: "wf_manager m" and valid: "validate_requirement r = Inr ()"
    and cover: "\<And>j. amount_of r j \<le> used_of m j"
  shows "wf_manager (release_resources r m)"
proof -
  have "used_of (release_resources r m) k \<le> limit_of m k" for k
    using release_used [OF wf valid cover, of k] wf by (simp add: wf_manager_def le_diff_conv trans_le_add1)
  moreover have "0 \<le> cpu_used (release_resources r m)"
    using cover [of Cpu] valid wf_manager_bounds(1) [OF wf]
    by (auto simp: release_resources_def Let_def validate_requirement_ok nat_le_iff split: option.split)
  moreover have "ordered_keys (gpu_vram_used (release_resources r m))"
    using wf_manager_bounds(5) [OF wf]
    by (auto simp: release_resources_def Let_def gpu_table split: option.split)
  ultimately show ?thesis
    by (simp add: wf_manager_def)
qed

interpretation rm: lease_pool used_of limit_of amount_of granted_by release_resources wf_manager
  "\<lambda>r. validate_requirement r = Inr ()"
proof
  fix m r m' k
  assume wf: "wf_manager m"
  show "granted_by r m = (True, m') \<Longrightarrow> validate_requirement r = Inr ()
      \<and> used_of m' k = used_of m k + amount_of r k \<and> used_of m' k \<le> limit_of m k"
    using try_reserve_granted [OF wf, of r m' k] by (auto simp: granted_by_def) (metis prod.collapse)+
  show "granted_by r m = (False, m') \<Longrightarrow> used_of m' k = used_of m k"
    using try_reserve_refused [OF wf, of r k] by (auto simp: granted_by_def)
  show "wf_manager (snd (granted_by r m))"
    using wf_manager_reserve [OF wf] by (simp add: granted_by_def)
qed (simp_all add: granted_by_def release_used wf_manager_release)

section \<open>Every history of lease objects\<close>

definition outstanding :: "LeaseHeap \<Rightarrow> ResourceRequirement list" where
  "outstanding h = map lease_requirement (filter owned (leases h))"

definition balanced :: "LeaseHeap \<Rightarrow> bool" where
  "balanced h \<longleftrightarrow> wf_manager (manager h)
     \<and> (\<forall>r \<in> set (outstanding h). validate_requirement r = Inr ())
     \<and> (\<forall>k. used_of (manager h) k = (\<Sum>r\<leftarrow>outstanding h. amount_of r k))"

lemma balanced_accounts: "balanced h \<longleftrightarrow> rm.accounts (manager h) (outstanding h)"
  by (auto simp: balanced_def rm.accounts_def)

lemma outstanding_split:
  assumes "i < length (leases h)"
  shows "outstanding h = map lease_requirement (filter owned (take i (leases h)))
    @ (if owned (leases h ! i) then [lease_requirement (leases h ! i)] else [])
    @ map lease_requirement (filter owned (drop (Suc i) (leases h)))"
  using arg_cong [OF id_take_nth_drop [OF assms], of "\<lambda>ls. map lease_requirement (filter owned ls)"]
  by (simp add: outstanding_def)

lemma outstanding_update:
  assumes "i < length ls"
  shows "map lease_requirement (filter owned (ls[i := l])) =
    map lease_requirement (filter owned (take i ls)) @ (if owned l then [lease_requirement l] else [])
    @ map lease_requirement (filter owned (drop (Suc i) ls))"
  using assms by (simp add: upd_conv_take_nth_drop)

lemma balanced_reset:
  assumes "balanced h" and "i < length (leases h)"
  shows "balanced (lease_reset i h)"
proof (cases "owned (leases h ! i)")
  case True
  then show ?thesis
    using assms rm.accounts_release
    by (simp add: balanced_accounts outstanding_split [OF assms(2)])
       (simp add: outstanding_def lease_reset_def outstanding_update [OF assms(2)])
qed (simp add: lease_reset_def assms)

lemma balanced_permute:
  assumes "balanced h" and "manager h' = manager h" and "mset (outstanding h') = mset (outstanding h)"
  shows "balanced h'"
  using assms rm.accounts_mset [of "manager h" "outstanding h" "outstanding h'"]
  by (simp add: balanced_accounts)

lemma balanced_move_construct:
  assumes "balanced h" and "i < length (leases h)"
  shows "balanced (lease_move_construct i h)"
proof (rule balanced_permute [OF assms(1)])
  show "mset (outstanding (lease_move_construct i h)) = mset (outstanding h)"
    by (simp add: outstanding_split [OF assms(2)])
       (simp add: outstanding_def lease_move_construct_def outstanding_update [OF assms(2)])
qed (simp add: lease_move_construct_def)

lemma length_lease_reset [simp]: "length (leases (lease_reset i h)) = length (leases h)"
  by (simp add: lease_reset_def)

lemma not_owned_reset: "i < length (leases h) \<Longrightarrow> \<not> owned (leases (lease_reset i h) ! i)"
  by (simp add: lease_reset_def)

lemma mset_outstanding:
  "mset (map lease_requirement (filter owned ls)) =
     image_mset lease_requirement (filter_mset owned (mset ls))"
  by simp

lemma balanced_move_assign:
  assumes "balanced h" and "i < length (leases h)" and "j < length (leases h)"
  shows "balanced (lease_move_assign i j h)"
proof (cases "i = j")
  case False
  define h1 where "h1 = lease_reset i h"
  have h1: "balanced h1" "i < length (leases h1)" "j < length (leases h1)" "\<not> owned (leases h1 ! i)"
    using assms balanced_reset not_owned_reset by (simp_all add: h1_def)
  define src where "src = leases h1 ! j"
  have eq: "lease_move_assign i j h = h1\<lparr>leases := (leases h1)[i := src, j := src\<lparr>owned := False\<rparr>]\<rparr>"
    using False by (simp add: lease_move_assign_def h1_def src_def Let_def)
  have swap: "mset ((leases h1)[i := src, j := leases h1 ! i]) = mset (leases h1)"
    unfolding src_def by (rule mset_swap [OF h1(3,2)])
  have j: "j < length ((leases h1)[i := src])"
    using h1(3) by simp
  have "map lease_requirement (filter owned ((leases h1)[i := src, j := src\<lparr>owned := False\<rparr>]))
      = map lease_requirement (filter owned ((leases h1)[i := src, j := leases h1 ! i]))"
    by (simp add: outstanding_update [OF j] h1(4))
  then have "mset (outstanding (lease_move_assign i j h)) = mset (outstanding h1)"
    using swap by (simp add: eq outstanding_def)
  then show ?thesis
    by (rule balanced_permute [OF h1(1), rotated]) (simp add: eq)
qed (simp add: lease_move_assign_def assms)

lemma balanced_reserve:
  assumes "balanced h"
  shows "balanced (snd (reserve_lease r h))"
proof -
  have "rm.accounts (snd (granted_by r (manager h)))
      (if fst (granted_by r (manager h)) then r # outstanding h else outstanding h)"
    using assms by (intro rm.accounts_reserve) (simp add: balanced_accounts)
  then have acc: "rm.accounts (snd (try_reserve r (manager h)))
      (if fst (try_reserve r (manager h)) = Inr True then r # outstanding h else outstanding h)"
    by (simp add: granted_by_def)
  show ?thesis
  proof (cases "fst (try_reserve r (manager h)) = Inr True")
    case True
    then have "snd (reserve_lease r h) = \<lparr>manager = snd (try_reserve r (manager h)),
        leases = leases h @ [\<lparr>owned = True, lease_requirement = r\<rparr>]\<rparr>"
      by (auto simp: reserve_lease_def split: prod.splits sum.splits bool.splits)
    then show ?thesis
      using acc True rm.accounts_mset [of _ "r # outstanding h" "outstanding h @ [r]"]
      by (simp add: balanced_accounts outstanding_def)
  next
    case False
    then have "snd (reserve_lease r h) = h\<lparr>manager := snd (try_reserve r (manager h))\<rparr>"
      by (auto simp: reserve_lease_def split: prod.splits sum.splits bool.splits)
    then show ?thesis
      using acc False by (simp add: balanced_accounts outstanding_def)
  qed
qed

lemma balanced_exec: "balanced h \<Longrightarrow> lease_op_ok c h \<Longrightarrow> balanced (lease_exec c h)"
  by (cases c)
     (simp_all add: balanced_reserve balanced_move_construct balanced_move_assign balanced_reset)

lemma balanced_run: "balanced h \<Longrightarrow> balanced (lease_run cs h)"
  by (induction cs arbitrary: h) (simp_all add: balanced_exec)

lemma balanced_new:
  assumes "new_resource_manager cap = Inr m"
  shows "balanced \<lparr>manager = m, leases = []\<rparr>"
proof -
  have m: "m = \<lparr>capacity = cap, cpu_used = 0, ram_used = 0, gpu_vram_used = []\<rparr>"
    using assms by (auto simp: new_resource_manager_def split: if_splits)
  have "used_of m k = 0" for k
    by (cases k) (simp_all add: m gpu_slot_def)
  then show ?thesis
    by (simp add: balanced_def outstanding_def wf_manager_def m)
qed

lemma manager_reserve [simp]: "manager (snd (reserve_lease r h)) = snd (try_reserve r (manager h))"
  by (simp add: reserve_lease_def split: prod.splits sum.splits bool.splits)

lemma exec_capacity: "capacity (manager (lease_exec c h)) = capacity (manager h)"
  by (cases c)
     (simp_all add: lease_move_construct_def lease_move_assign_def lease_reset_def Let_def)

lemma run_capacity: "capacity (manager (lease_run cs h)) = capacity (manager h)"
  by (induction cs arbitrary: h) (simp_all add: exec_capacity)

section \<open>Properties\<close>

text \<open>A machine with one GPU, and the requirement of an engine that uses it.\<close>

definition sample_capacity :: ResourceCapacity where
  "sample_capacity = \<lparr>cap_cpu_slots = 2, cap_ram_bytes = 100, cap_gpu_vram_bytes = [(''g'', 50)]\<rparr>"

definition sample_requirement :: ResourceRequirement where
  "sample_requirement =
     \<lparr>req_cpu_slots = 1, req_ram_bytes = 60, req_gpu_id = ''g'', req_gpu_vram_bytes = 40\<rparr>"

lemmas resource_eval =
  new_resource_manager_def try_reserve_def validate_requirement_def reserve_lease_def
  release_resources_def lease_reset_def lease_move_construct_def lease_move_assign_def
  gpu_slot_def map_erase_def sample_capacity_def sample_requirement_def Let_def

text \<open>
  C13: In every history of reservations, moves and destructions of lease objects, the manager's
  counters are exactly the sums over the lease objects that own a reservation, for CPU slots,
  memory and every GPU; nothing is counted twice, lost or wrapped around, and no counter exceeds
  the configured capacity.
\<close>

theorem leases_account_exactly:
  assumes "new_resource_manager cap = Inr m"
  shows "let h = lease_run cs \<lparr>manager = m, leases = []\<rparr>
         in used_of (manager h) k = (\<Sum>l\<leftarrow>filter owned (leases h). amount_of (lease_requirement l) k)
            \<and> used_of (manager h) k \<le> limit_of m k
            \<and> 0 \<le> cpu_used (manager h)"
proof -
  let ?h = "lease_run cs \<lparr>manager = m, leases = []\<rparr>"
  have "balanced ?h"
    by (rule balanced_run [OF balanced_new [OF assms]])
  moreover have "limit_of (manager ?h) k = limit_of m k"
    using run_capacity [of cs "\<lparr>manager = m, leases = []\<rparr>"] by (cases k) simp_all
  ultimately show ?thesis
    unfolding Let_def by (simp add: balanced_def outstanding_def wf_manager_def comp_def) metis
qed

theorem leases_account_exactly_witness:
  "let m = \<lparr>capacity = sample_capacity, cpu_used = 0, ram_used = 0, gpu_vram_used = []\<rparr>;
       h = lease_run [Reserve sample_requirement, MoveConstruct 0, Destroy 0] \<lparr>manager = m, leases = []\<rparr>
   in map owned (leases h) = [False, True] \<and> used_of (manager h) Ram = 60"
proof -
  let ?m = "\<lparr>capacity = sample_capacity, cpu_used = 0, ram_used = 0, gpu_vram_used = []\<rparr>"
  let ?cs = "[Reserve sample_requirement, MoveConstruct 0, Destroy 0]"
  have "new_resource_manager sample_capacity = Inr ?m"
    by (simp add: resource_eval)
  from leases_account_exactly [OF this, of ?cs Ram] show ?thesis
    by (simp add: resource_eval)
qed

text \<open>
  C34: What \<open>can_ever_reserve\<close> refuses is never granted in any history, and what it accepts is
  granted as soon as no other lease is outstanding: a Work that waits for resources can be
  served once the running ones end.
\<close>

theorem can_ever_reserve_decides:
  assumes "new_resource_manager cap = Inr m" and "can_ever_reserve r m = Inr b"
    and "h = lease_run cs \<lparr>manager = m, leases = []\<rparr>"
  shows "(\<not> b \<longrightarrow> fst (try_reserve r (manager h)) = Inr False)
    \<and> (b \<longrightarrow> (\<forall>l \<in> set (leases h). \<not> owned l) \<longrightarrow> fst (try_reserve r (manager h)) = Inr True)"
proof -
  have bal: "balanced h"
    unfolding assms(3) by (rule balanced_run [OF balanced_new [OF assms(1)]])
  have cap: "capacity (manager h) = capacity m"
    using run_capacity [of cs "\<lparr>manager = m, leases = []\<rparr>"] by (simp add: assms(3))
  note decided = can_ever_reserve_True [OF assms(2), THEN conjunct2]
    and valid = can_ever_reserve_True [OF assms(2), THEN conjunct1]
  have wf: "wf_manager (manager h)"
    using bal by (simp add: balanced_def)
  have limit: "limit_of (manager h) k = limit_of m k" for k
    by (cases k) (simp_all add: cap)
  have "fst (try_reserve r (manager h)) = Inr False" if "\<not> b"
  proof (rule ccontr)
    assume "fst (try_reserve r (manager h)) \<noteq> Inr False"
    then have "try_reserve r (manager h) = (Inr True, snd (try_reserve r (manager h)))"
      using valid try_reserve_bool [OF valid, of "manager h"] by (cases "try_reserve r (manager h)") auto
    then have "amount_of r k \<le> limit_of m k" for k
      using try_reserve_granted [OF wf, of r _ k] limit by fastforce
    from this [of Cpu] this [of Ram] this [of "Gpu (req_gpu_id r)"] show False
      using that valid
      by (auto simp: decided word_le_nat_alt gpu_slot_def validate_requirement_ok unat_eq_0
          split: option.splits)
  qed
  moreover have "fst (try_reserve r (manager h)) = Inr True" if b "\<forall>l \<in> set (leases h). \<not> owned l"
  proof -
    have "used_of (manager h) k = 0" for k
      using bal that(2) by (simp add: balanced_def outstanding_def)
    moreover have "can_ever_reserve r (manager h) = can_ever_reserve r m"
      by (simp only: can_ever_reserve_def cap)
    then have "can_ever_reserve r (manager h) = Inr True"
      using assms(2) that(1) by simp
    ultimately show ?thesis
      by (rule try_reserve_unused [OF wf])
  qed
  ultimately show ?thesis by blast
qed

theorem can_ever_reserve_decides_witness:
  "let m = \<lparr>capacity = sample_capacity, cpu_used = 0, ram_used = 0, gpu_vram_used = []\<rparr>;
       h = lease_run [Reserve sample_requirement, Destroy 0] \<lparr>manager = m, leases = []\<rparr>
   in fst (try_reserve sample_requirement (manager h)) = Inr True"
proof -
  let ?m = "\<lparr>capacity = sample_capacity, cpu_used = 0, ram_used = 0, gpu_vram_used = []\<rparr>"
  let ?cs = "[Reserve sample_requirement, Destroy 0]"
  have m: "new_resource_manager sample_capacity = Inr ?m"
    by (simp add: resource_eval)
  have "can_ever_reserve sample_requirement ?m = Inr True"
    by (simp add: can_ever_reserve_def resource_eval)
  from can_ever_reserve_decides [OF m this refl, of ?cs] show ?thesis
    by (simp add: resource_eval)
qed

end
