(* ===== verification/Protocol.thy ===== *)
theory Protocol
  imports Cxx_Std
begin

text \<open>
  The framed protocol of \<open>kernel/src/protocol.hpp\<close> and \<open>kernel/src/protocol.cpp\<close>: message
  types, frames, the big-endian header, the metadata text format, the blocking reader and
  writer, and the incremental reader of worker pipes (POSIX branches).

  A file descriptor is the script of what the operating system answers to successive
  \<open>read\<close> or \<open>write\<close> calls: the model makes no assumption on how a byte stream is cut into
  chunks, on interruptions or on errors. A blocking call with no answer left is \<open>Blocked\<close>.
\<close>

section \<open>Message types and frames\<close>

text \<open>
  \<open>enum class MessageType : std::uint16_t\<close>. A value read from the wire need not be one of
  the enumerators; such a value is \<open>Unnamed\<close>.
\<close>

datatype MessageType =
    Hello | HelloResponse
  | Submit | SubmitResponse
  | Status | StatusResponse
  | Result | ResultResponse
  | Acknowledge | AcknowledgeResponse
  | Cancel | CancelResponse
  | ListEngines | ListEnginesResponse
  | EngineStatus | EngineStatusResponse
  | Error
  | WorkerExecute | WorkerResult | WorkerFailure
  | Unnamed u16

primrec u16_of_type :: "MessageType \<Rightarrow> u16" where
  "u16_of_type Hello = 1"
| "u16_of_type HelloResponse = 2"
| "u16_of_type Submit = 10"
| "u16_of_type SubmitResponse = 11"
| "u16_of_type Status = 20"
| "u16_of_type StatusResponse = 21"
| "u16_of_type Result = 30"
| "u16_of_type ResultResponse = 31"
| "u16_of_type Acknowledge = 40"
| "u16_of_type AcknowledgeResponse = 41"
| "u16_of_type Cancel = 50"
| "u16_of_type CancelResponse = 51"
| "u16_of_type ListEngines = 60"
| "u16_of_type ListEnginesResponse = 61"
| "u16_of_type EngineStatus = 70"
| "u16_of_type EngineStatusResponse = 71"
| "u16_of_type Error = 90"
| "u16_of_type WorkerExecute = 200"
| "u16_of_type WorkerResult = 201"
| "u16_of_type WorkerFailure = 202"
| "u16_of_type (Unnamed w) = w"

definition named_types :: "MessageType list" where
  "named_types =
     [Hello, HelloResponse, Submit, SubmitResponse, Status, StatusResponse, Result,
      ResultResponse, Acknowledge, AcknowledgeResponse, Cancel, CancelResponse, ListEngines,
      ListEnginesResponse, EngineStatus, EngineStatusResponse, Error, WorkerExecute,
      WorkerResult, WorkerFailure]"

text \<open>\<open>static_cast<MessageType>(type)\<close>.\<close>

definition type_of_u16 :: "u16 \<Rightarrow> MessageType" where
  "type_of_u16 w =
     (case List.find (\<lambda>t. u16_of_type t = w) named_types of Some t \<Rightarrow> t | None \<Rightarrow> Unnamed w)"

type_synonym metadata_map = "(string, string) std_assoc"

record Frame =
  frame_type :: MessageType
  correlation_id :: u64
  metadata :: metadata_map
  payload :: "byte list"

definition kFramingVersion :: u16 where
  "kFramingVersion = 1"

definition kMagic :: "byte list" where
  "kMagic = [77, 65, 68, 82]"

definition kHeaderSize :: nat where
  "kHeaderSize = 28"

definition kMaxMetadata :: nat where
  "kMaxMetadata = 1048576"

definition kMaxPayload :: nat where
  "kMaxPayload = 1048576"

section \<open>Big-endian integers\<close>

definition get_u16 :: "byte list \<Rightarrow> u16" where
  "get_u16 p = push_bit 8 (ucast (p ! 0)) OR ucast (p ! 1)"

definition get_u32 :: "byte list \<Rightarrow> u32" where
  "get_u32 p =
     push_bit 24 (ucast (p ! 0)) OR push_bit 16 (ucast (p ! 1))
     OR push_bit 8 (ucast (p ! 2)) OR ucast (p ! 3)"

definition get_u64 :: "byte list \<Rightarrow> u64" where
  "get_u64 p = foldl (\<lambda>v i. push_bit 8 v OR ucast (p ! i)) 0 [0..<8]"

definition put_u16 :: "u16 \<Rightarrow> byte list" where
  "put_u16 v = [ucast (drop_bit 8 v AND 0xff), ucast (v AND 0xff)]"

definition put_u32 :: "u32 \<Rightarrow> byte list" where
  "put_u32 v =
     [ucast (drop_bit 24 v AND 0xff), ucast (drop_bit 16 v AND 0xff),
      ucast (drop_bit 8 v AND 0xff), ucast (v AND 0xff)]"

text \<open>The loop of \<open>put_u64\<close> fills \<open>p[7]\<close> down to \<open>p[0]\<close>.\<close>

fun put_u64_loop :: "nat \<Rightarrow> u64 \<Rightarrow> byte list \<Rightarrow> byte list" where
  "put_u64_loop 0 v p = p"
| "put_u64_loop (Suc i) v p = put_u64_loop i (drop_bit 8 v) (ucast (v AND 0xff) # p)"

definition put_u64 :: "u64 \<Rightarrow> byte list" where
  "put_u64 v = put_u64_loop 8 v []"

section \<open>Metadata text\<close>

definition bad_key :: "string \<Rightarrow> bool" where
  "bad_key k \<longleftrightarrow> k = [] \<or> list_ex (\<lambda>c. c \<in> {CHR ''='', CHR 0x0D, CHR 0x0A}) k"

definition bad_value :: "string \<Rightarrow> bool" where
  "bad_value v \<longleftrightarrow> list_ex (\<lambda>c. c \<in> {CHR 0x0D, CHR 0x0A}) v"

fun encode_metadata :: "metadata_map \<Rightarrow> string result" where
  "encode_metadata [] = Inr []"
| "encode_metadata ((k, v) # m) =
     (if bad_key k \<or> bad_value v then Inl (RuntimeError ''invalid framed metadata'')
      else bind_result (encode_metadata m) (\<lambda>out. Inr (k @ ''='' @ v @ [CHR 0x0A] @ out)))"

text \<open>
  The decoding loop on the part of the text that starts at \<open>pos\<close>; \<open>out\<close> is the map built
  so far.
\<close>

function decode_metadata_from :: "string \<Rightarrow> metadata_map \<Rightarrow> metadata_map result" where
  "decode_metadata_from s out =
     (if s = [] then Inr out
      else let line = takeWhile (\<lambda>c. c \<noteq> CHR 0x0A) s;
               rest = drop (length line + 1) s
           in if line = [] then decode_metadata_from rest out
              else if CHR ''='' \<notin> set line \<or> hd line = CHR ''=''
              then Inl (FramingError ''malformed framed metadata'')
              else let key = takeWhile (\<lambda>c. c \<noteq> CHR ''='') line
                   in decode_metadata_from rest
                        (map_emplace key (drop (length key + 1) line) out))"
  by pat_completeness auto
termination
  by (relation "measure (\<lambda>(s, out). length s)") auto

declare decode_metadata_from.simps [simp del]

definition decode_metadata :: "string \<Rightarrow> metadata_map result" where
  "decode_metadata encoded = decode_metadata_from encoded []"

section \<open>Encoding a frame\<close>

definition header_bytes :: "MessageType \<Rightarrow> u64 \<Rightarrow> nat \<Rightarrow> nat \<Rightarrow> byte list" where
  "header_bytes t corr mlen plen =
     kMagic @ put_u16 kFramingVersion @ put_u16 (u16_of_type t) @ put_u64 corr
       @ put_u32 (of_nat mlen) @ put_u64 (of_nat plen)"

definition limits_error :: exn where
  "limits_error = FramingError ''frame exceeds C1 bounded text-generation/v1 framing limits''"

definition encode_frame :: "Frame \<Rightarrow> byte list result" where
  "encode_frame f =
     bind_result (encode_metadata (metadata f)) (\<lambda>md.
       if length md > kMaxMetadata \<or> length (payload f) > kMaxPayload then Inl limits_error
       else Inr (header_bytes (frame_type f) (correlation_id f) (length md) (length (payload f))
                   @ bytes_of_string md @ payload f))"

definition metadata_value :: "Frame \<Rightarrow> string \<Rightarrow> string result" where
  "metadata_value f key =
     (case map_of (metadata f) key of
        None \<Rightarrow> Inl (RuntimeError (''missing metadata field: '' @ key))
      | Some v \<Rightarrow> Inr v)"

section \<open>Descriptors\<close>

datatype read_event =
    Chunk byte "byte list"   \<comment> \<open>at least one byte is ready\<close>
  | Eof                      \<comment> \<open>the peer closed its end\<close>
  | Interrupted              \<comment> \<open>\<open>EINTR\<close>\<close>
  | WouldBlock               \<comment> \<open>\<open>EAGAIN\<close> of a non-blocking descriptor\<close>
  | ReadError string         \<comment> \<open>any other error, with its \<open>strerror\<close> text\<close>

datatype write_event =
    Accept nat               \<comment> \<open>the number of bytes the call takes at most\<close>
  | WriteInterrupted
  | WriteError string

datatype 'a io = Return 'a | Throw exn | Blocked

text \<open>What is left of a chunk goes back to the front of the script.\<close>

definition unread :: "byte list \<Rightarrow> read_event list \<Rightarrow> read_event list" where
  "unread bs es = (case bs of [] \<Rightarrow> es | c # cs \<Rightarrow> Chunk c cs # es)"

function read_exact :: "nat \<Rightarrow> read_event list \<Rightarrow> byte list \<Rightarrow> byte list io \<times> read_event list" where
  "read_exact n es out =
     (if n = 0 then (Return out, es)
      else case es of
          [] \<Rightarrow> (Blocked, [])
        | Chunk b bs # es' \<Rightarrow>
            read_exact (n - length (take n (b # bs))) (unread (drop n (b # bs)) es')
              (out @ take n (b # bs))
        | Eof # es' \<Rightarrow> (Throw (RuntimeError ''peer closed framed IPC''), es)
        | Interrupted # es' \<Rightarrow> read_exact n es' out
        | WouldBlock # es' \<Rightarrow>
            (Throw (RuntimeError ''IPC read failed: Resource temporarily unavailable''), es')
        | ReadError m # es' \<Rightarrow> (Throw (RuntimeError (''IPC read failed: '' @ m)), es'))"
  by pat_completeness auto
termination
  by (relation "measure (\<lambda>(n, es, out). n + length es)")
     (auto simp: unread_def split: list.splits)

declare read_exact.simps [simp del]

text \<open>\<open>write_exact\<close>: the bytes the peer received, and how the call ended.\<close>

function write_exact :: "byte list \<Rightarrow> write_event list \<Rightarrow> byte list \<Rightarrow> byte list \<times> unit io" where
  "write_exact data es sent =
     (if data = [] then (sent, Return ())
      else case es of
          [] \<Rightarrow> (sent, Blocked)
        | Accept n # es' \<Rightarrow>
            if n = 0 then (sent, Throw (RuntimeError ''IPC write made no progress''))
            else write_exact (drop n data) es' (sent @ take n data)
        | WriteInterrupted # es' \<Rightarrow> write_exact data es' sent
        | WriteError m # es' \<Rightarrow> (sent, Throw (RuntimeError (''IPC write failed: '' @ m))))"
  by pat_completeness auto
termination
  by (relation "measure (\<lambda>(data, es, sent). length es)") auto

declare write_exact.simps [simp del]

definition write_frame :: "Frame \<Rightarrow> write_event list \<Rightarrow> byte list \<times> unit io" where
  "write_frame f es =
     (case encode_frame f of Inl e \<Rightarrow> ([], Throw e) | Inr bs \<Rightarrow> write_exact bs es [])"

section \<open>Decoding a header\<close>

record header =
  h_type :: u16
  h_correlation :: u64
  h_metadata_length :: u32
  h_payload_length :: u64

text \<open>The checks \<open>read_frame\<close> and \<open>read_available\<close> make on the first 28 bytes.\<close>

definition decode_header :: "byte list \<Rightarrow> header result" where
  "decode_header h =
     (if take 4 h \<noteq> kMagic then Inl (FramingError ''invalid framing magic'')
      else if get_u16 (drop 4 h) \<noteq> kFramingVersion
      then Inl (FramingError ''unsupported framing version'')
      else let mlen = get_u32 (drop 16 h); plen = get_u64 (drop 20 h)
           in if unat mlen > kMaxMetadata \<or> unat plen > kMaxPayload then Inl limits_error
              else Inr \<lparr>h_type = get_u16 (drop 6 h), h_correlation = get_u64 (drop 8 h),
                        h_metadata_length = mlen, h_payload_length = plen\<rparr>)"

text \<open>The frame built from a header, the metadata bytes and the payload bytes.\<close>

definition build_frame :: "header \<Rightarrow> byte list \<Rightarrow> byte list \<Rightarrow> Frame result" where
  "build_frame h md pl =
     bind_result (decode_metadata (string_of_bytes md)) (\<lambda>m.
       Inr \<lparr>frame_type = type_of_u16 (h_type h), correlation_id = h_correlation h,
            metadata = m, payload = pl\<rparr>)"

section \<open>The blocking reader\<close>

definition read_frame :: "read_event list \<Rightarrow> Frame io \<times> read_event list" where
  "read_frame es =
     (case read_exact kHeaderSize es [] of
        (Return hb, es1) \<Rightarrow>
          (case decode_header hb of
             Inl e \<Rightarrow> (Throw e, es1)
           | Inr h \<Rightarrow>
               (case read_exact (unat (h_metadata_length h)) es1 [] of
                  (Return md, es2) \<Rightarrow>
                    (case read_exact (unat (h_payload_length h)) es2 [] of
                       (Return pl, es3) \<Rightarrow>
                         (case build_frame h md pl of
                            Inl e \<Rightarrow> (Throw e, es3)
                          | Inr f \<Rightarrow> (Return f, es3))
                     | (Throw e, es3) \<Rightarrow> (Throw e, es3)
                     | (Blocked, es3) \<Rightarrow> (Blocked, es3))
                | (Throw e, es2) \<Rightarrow> (Throw e, es2)
                | (Blocked, es2) \<Rightarrow> (Blocked, es2)))
      | (Throw e, es1) \<Rightarrow> (Throw e, es1)
      | (Blocked, es1) \<Rightarrow> (Blocked, es1))"

section \<open>The incremental reader\<close>

definition kReadBudget :: nat where
  "kReadBudget = 65536"

definition kChunkSize :: nat where
  "kChunkSize = 8192"

definition kMaxBufferedFrame :: nat where
  "kMaxBufferedFrame = kHeaderSize + kMaxMetadata + kMaxPayload"

text \<open>
  The reading loop of \<open>read_available\<close>: it leaves the buffer and, when it throws, the
  exception. A non-blocking descriptor with no answer left would block.
\<close>

function fill_buffer ::
    "nat \<Rightarrow> byte list \<Rightarrow> read_event list \<Rightarrow> exn option \<times> byte list \<times> read_event list" where
  "fill_buffer done buf es =
     (if done \<ge> kReadBudget then (None, buf, es)
      else let requested = min kChunkSize (kReadBudget - done) in
        (case es of
            [] \<Rightarrow> (None, buf, [])
          | Chunk b bs # es' \<Rightarrow>
              (let got = take requested (b # bs); es'' = unread (drop requested (b # bs)) es' in
               if length got > kMaxBufferedFrame - min (length buf) kMaxBufferedFrame
               then (Some (FramingError ''worker frame exceeds bounded incremental buffer''), buf, es'')
               else fill_buffer (done + length got) (buf @ got) es'')
          | Eof # es' \<Rightarrow>
              (Some (if buf = [] then RuntimeError ''peer closed framed IPC''
                     else FramingError ''peer closed during partial framed IPC''), buf, es)
          | Interrupted # es' \<Rightarrow> fill_buffer done buf es'
          | WouldBlock # es' \<Rightarrow> (None, buf, es')
          | ReadError m # es' \<Rightarrow> (Some (RuntimeError (''IPC read failed: '' @ m)), buf, es')))"
  by pat_completeness auto
termination
proof (relation "measure (\<lambda>(n, buf, es). (kReadBudget - n) + length es)", goal_cases)
  case 1
  show ?case by simp
next
  case (2 n buf es r x es' b bs xa xb)
  then have "0 < length xa"
    by (simp add: kChunkSize_def)
  moreover have "length xb \<le> length es"
    using 2 by (simp add: unread_def split: list.splits)
  moreover have "n < kReadBudget"
    using 2 by simp
  ultimately show ?case
    by (simp only: in_measure split_conv)
next
  case 3
  then show ?case by simp
qed

declare fill_buffer.simps [simp del]

text \<open>What \<open>read_available\<close> does with the buffer once the reading loop has ended.\<close>

definition take_frame :: "byte list \<Rightarrow> Frame option result \<times> byte list" where
  "take_frame buf =
     (if length buf < kHeaderSize then (Inr None, buf)
      else case decode_header buf of
          Inl e \<Rightarrow> (Inl e, buf)
        | Inr h \<Rightarrow>
            (let mlen = unat (h_metadata_length h); plen = unat (h_payload_length h);
                 total = kHeaderSize + mlen + plen
             in if length buf < total then (Inr None, buf)
                else let body = drop kHeaderSize buf in
                  (case build_frame h (take mlen body) (take plen (drop mlen body)) of
                     Inl e \<Rightarrow> (Inl e, drop total buf)
                   | Inr f \<Rightarrow> (Inr (Some f), drop total buf))))"

definition read_available ::
    "byte list \<Rightarrow> read_event list \<Rightarrow> Frame option result \<times> byte list \<times> read_event list" where
  "read_available buf es =
     (case fill_buffer 0 buf es of
        (Some e, buf', es') \<Rightarrow> (Inl e, buf', es')
      | (None, buf', es') \<Rightarrow> (case take_frame buf' of (r, buf'') \<Rightarrow> (r, buf'', es')))"

section \<open>What a peer observes\<close>

text \<open>
  A frame value the C++ program can hold: its metadata is a \<open>std::map\<close>, and an \<open>Unnamed\<close>
  type is not the code of an enumerator.
\<close>

definition well_typed :: "MessageType \<Rightarrow> bool" where
  "well_typed t \<longleftrightarrow> (case t of Unnamed w \<Rightarrow> w \<notin> u16_of_type ` set named_types | _ \<Rightarrow> True)"

definition wf_frame :: "Frame \<Rightarrow> bool" where
  "wf_frame f \<longleftrightarrow> well_typed (frame_type f) \<and> ordered_keys (metadata f)"

text \<open>The script \<open>es\<close> delivers the bytes \<open>bs\<close>, cut into chunks and interrupted in any way.\<close>

fun event_bytes :: "read_event \<Rightarrow> byte list" where
  "event_bytes (Chunk b bs) = b # bs"
| "event_bytes _ = []"

fun is_data :: "read_event \<Rightarrow> bool" where
  "is_data (Chunk b bs) = True"
| "is_data Interrupted = True"
| "is_data _ = False"

definition delivers :: "read_event list \<Rightarrow> byte list \<Rightarrow> bool" where
  "delivers es bs \<longleftrightarrow> list_all is_data es \<and> concat (map event_bytes es) = bs"

text \<open>
  Successive calls of \<open>read_available\<close>, one per script, until one does not answer "no frame
  yet": the polling of \<open>WorkerProcess::execute\<close>.
\<close>

fun read_turns :: "byte list \<Rightarrow> read_event list list \<Rightarrow> Frame option result \<times> byte list" where
  "read_turns buf [] = (Inr None, buf)"
| "read_turns buf (es # ess) =
     (case read_available buf es of
        (Inr None, buf', _) \<Rightarrow> read_turns buf' ess
      | (r, buf', _) \<Rightarrow> (r, buf'))"

text \<open>The length of the metadata text.\<close>

fun metadata_size :: "metadata_map \<Rightarrow> nat" where
  "metadata_size [] = 0"
| "metadata_size ((k, v) # m) = length k + length v + 2 + metadata_size m"

text \<open>A small frame and its encoding, for concrete runs.\<close>

definition sample_frame :: Frame where
  "sample_frame = \<lparr>frame_type = Submit, correlation_id = 42,
     metadata = [(''effort'', ''HIGH''), (''work_type'', ''text'')], payload = [0, 255]\<rparr>"

definition sample_bytes :: "byte list" where
  "sample_bytes = [77, 65, 68, 82, 0, 1, 0, 10, 0, 0, 0, 0, 0, 0, 0, 42, 0, 0, 0, 27,
     0, 0, 0, 0, 0, 0, 0, 2] @ bytes_of_string (''effort=HIGH'' @ [CHR 0x0A] @ ''work_type=text'' @ [CHR 0x0A]) @ [0, 255]"

section \<open>Integers and headers\<close>

lemma low_byte: "8 \<le> LENGTH('a) \<Longrightarrow> ucast (ucast (x AND 255) :: byte) = take_bit 8 (x :: 'a::len word)"
proof (rule bit_word_eqI)
  fix n
  assume "8 \<le> LENGTH('a)"
  have m: "(255::'a word) = mask 8" by (simp add: mask_eq_exp_minus_1)
  show "bit (ucast (ucast (x AND 255) :: byte) :: 'a word) n \<longleftrightarrow> bit (take_bit 8 x) n" if "n < LENGTH('a)"
    using that unfolding m by (auto simp: bit_simps)
qed

lemma byte_step:
  fixes v :: "'a::len word"
  assumes "8 \<le> LENGTH('a)" and "j = 8 + k"
  shows "push_bit 8 (drop_bit j v) OR ucast (ucast (drop_bit k v AND 0xff) :: byte) = drop_bit k v"
  unfolding low_byte [OF assms(1)] assms(2)
  by (rule bit_word_eqI) (auto simp: bit_simps)

lemma byte_step0:
  fixes v :: "'a::len word"
  assumes "8 \<le> LENGTH('a)"
  shows "push_bit 8 (drop_bit 8 v) OR ucast (ucast (v AND 0xff) :: byte) = v"
  using byte_step [OF assms, of 8 0 v] by simp

lemma byte_top:
  fixes v :: "'a::len word"
  assumes "8 \<le> LENGTH('a)" and "LENGTH('a) = 8 + k"
  shows "ucast (ucast (drop_bit k v AND 0xff) :: byte) = drop_bit k v"
  unfolding low_byte [OF assms(1)] using assms(2)
  by (intro bit_word_eqI) (auto simp: bit_simps dest: bit_imp_le_length)

lemma put_u64_eq:
  "put_u64 v = [ucast (drop_bit 56 v AND 0xff), ucast (drop_bit 48 v AND 0xff),
     ucast (drop_bit 40 v AND 0xff), ucast (drop_bit 32 v AND 0xff),
     ucast (drop_bit 24 v AND 0xff), ucast (drop_bit 16 v AND 0xff),
     ucast (drop_bit 8 v AND 0xff), ucast (v AND 0xff)]"
  by (simp add: put_u64_def eval_nat_numeral)

lemma get_u16_put: "get_u16 (put_u16 v @ xs) = v"
  by (simp add: get_u16_def put_u16_def byte_top byte_step0)

lemma get_u32_put: "get_u32 (put_u32 v @ xs) = v"
proof -
  have "get_u32 (put_u32 v @ xs) =
      push_bit 8 (push_bit 8 (push_bit 8 (ucast (ucast (drop_bit 24 v AND 0xff) :: byte))
        OR ucast (ucast (drop_bit 16 v AND 0xff) :: byte))
        OR ucast (ucast (drop_bit 8 v AND 0xff) :: byte)) OR ucast (ucast (v AND 0xff) :: byte)"
    by (simp add: get_u32_def put_u32_def push_bit_or or.assoc)
  then show ?thesis
    by (simp add: byte_top byte_step byte_step0)
qed

lemma get_u64_put: "get_u64 (put_u64 v @ xs) = v"
proof -
  have "[0..<8] = [0, 1, 2, 3, 4, 5, 6, 7]" by (simp add: upt_rec)
  then show ?thesis
    by (simp add: get_u64_def put_u64_eq byte_top byte_step byte_step0)
qed

lemma length_put [simp]:
  "length (put_u16 a) = 2" "length (put_u32 b) = 4" "length (put_u64 c) = 8"
  by (simp_all add: put_u16_def put_u32_def put_u64_eq)

lemma length_kMagic [simp]: "length kMagic = 4"
  by (simp add: kMagic_def)

lemma length_header_bytes [simp]: "length (header_bytes t c m p) = kHeaderSize"
  by (simp add: header_bytes_def kHeaderSize_def)

lemma limits_fit:
  "m \<le> kMaxMetadata \<Longrightarrow> unat (of_nat m :: u32) = m"
  "p \<le> kMaxPayload \<Longrightarrow> unat (of_nat p :: u64) = p"
  by (simp_all add: kMaxMetadata_def kMaxPayload_def unat_of_nat take_bit_nat_eq_self)

lemma decode_header_bytes:
  assumes "m \<le> kMaxMetadata" and "p \<le> kMaxPayload"
  shows "decode_header (header_bytes t c m p @ xs) =
           Inr \<lparr>h_type = u16_of_type t, h_correlation = c, h_metadata_length = of_nat m,
                h_payload_length = of_nat p\<rparr>"
proof -
  let ?h = "header_bytes t c m p @ xs"
  have "drop 4 ?h = put_u16 kFramingVersion @ put_u16 (u16_of_type t) @ put_u64 c
          @ put_u32 (of_nat m) @ put_u64 (of_nat p) @ xs"
    and "drop 6 ?h = put_u16 (u16_of_type t) @ put_u64 c @ put_u32 (of_nat m)
          @ put_u64 (of_nat p) @ xs"
    and "drop 8 ?h = put_u64 c @ put_u32 (of_nat m) @ put_u64 (of_nat p) @ xs"
    and "drop 16 ?h = put_u32 (of_nat m) @ put_u64 (of_nat p) @ xs"
    and "drop 20 ?h = put_u64 (of_nat p) @ xs"
    and "take 4 ?h = kMagic"
    by (simp_all add: header_bytes_def)
  with assms show ?thesis
    by (simp add: decode_header_def get_u16_put get_u32_put get_u64_put limits_fit)
qed

lemma decode_header_limits:
  "decode_header h = Inr r \<Longrightarrow>
     unat (h_metadata_length r) \<le> kMaxMetadata \<and> unat (h_payload_length r) \<le> kMaxPayload"
  by (auto simp: decode_header_def Let_def split: if_splits)

lemma type_of_u16_of_type:
  "well_typed t \<Longrightarrow> type_of_u16 (u16_of_type t) = t"
  by (cases t) (auto simp: type_of_u16_def named_types_def well_typed_def)

lemma u16_of_type_of_u16: "u16_of_type (type_of_u16 w) = w"
  by (auto simp: type_of_u16_def find_Some_iff split: option.splits)

section \<open>Metadata\<close>

lemma decode_step:
  assumes "takeWhile (\<lambda>c. c \<noteq> CHR 0x0A) s = line" and "line \<noteq> []" and "CHR ''='' \<in> set line"
    and "hd line \<noteq> CHR ''=''" and "takeWhile (\<lambda>c. c \<noteq> CHR ''='') line = key"
  shows "decode_metadata_from s out =
    decode_metadata_from (drop (length line + 1) s) (map_emplace key (drop (length key + 1) line) out)"
  using assms by (subst decode_metadata_from.simps) auto

lemma decode_line:
  assumes "\<not> bad_key k" and "\<not> bad_value v"
  shows "decode_metadata_from (k @ ''='' @ v @ [CHR 0x0A] @ rest) out =
           decode_metadata_from rest (map_emplace k v out)"
proof -
  have nl: "CHR 0x0A \<notin> set (k @ CHR ''='' # v)" and eq: "CHR ''='' \<notin> set k" and ne: "k \<noteq> []"
    using assms by (auto simp: bad_key_def bad_value_def list_ex_iff)
  have "hd (k @ CHR ''='' # v) \<noteq> CHR ''=''"
    using eq ne by (cases k) auto
  from decode_step [OF takeWhile_neq_append [OF nl] _ _ this takeWhile_neq_append [OF eq], of rest out]
  show ?thesis
    by simp
qed

lemma decode_encode_from:
  "encode_metadata m = Inr s \<Longrightarrow> ordered_keys (out @ m) \<Longrightarrow> decode_metadata_from s out = Inr (out @ m)"
proof (induction m arbitrary: s out)
  case Nil
  then show ?case by (simp add: decode_metadata_from.simps)
next
  case (Cons kv m)
  obtain k v where kv: "kv = (k, v)" by (cases kv)
  with Cons.prems(1) obtain s' where good: "\<not> bad_key k" "\<not> bad_value v"
    and s': "encode_metadata m = Inr s'" and s: "s = k @ ''='' @ v @ [CHR 0x0A] @ s'"
    by (auto simp: bind_result_Inr_iff split: if_splits)
  have ord: "\<forall>j \<in> fst ` set out. j < k" "ordered_keys ((out @ [(k, v)]) @ m)"
    using Cons.prems(2) by (auto simp: kv ordered_keys_def sorted_wrt_append)
  have "decode_metadata_from s out = decode_metadata_from s' (out @ [(k, v)])"
    unfolding s using decode_line [OF good] map_emplace_append [OF ord(1)] by simp
  also have "\<dots> = Inr ((out @ [(k, v)]) @ m)"
    using s' ord(2) by (rule Cons.IH)
  finally show ?case by (simp add: kv)
qed

lemma decode_metadata_ordered_from:
  "decode_metadata_from s out = Inr m \<Longrightarrow> ordered_keys out \<Longrightarrow> ordered_keys m"
proof (induction s out rule: decode_metadata_from.induct)
  case (1 s out)
  let ?line = "takeWhile (\<lambda>c. c \<noteq> CHR 0x0A) s"
  show ?case
  proof (cases "s = [] \<or> ?line = []")
    case True
    with 1 show ?thesis
      by (auto simp: decode_metadata_from.simps [of s out] Let_def split: if_splits)
  next
    case False
    with 1 show ?thesis
      by (auto simp: decode_metadata_from.simps [of s out] Let_def ordered_map_emplace split: if_splits)
  qed
qed

lemma encode_metadata_iff:
  "(\<exists>s. encode_metadata m = Inr s) \<longleftrightarrow> (\<forall>(k, v) \<in> set m. \<not> bad_key k \<and> \<not> bad_value v)"
  by (induction m rule: encode_metadata.induct) (auto simp: bind_result_Inr_iff)

lemma encode_metadata_length: "encode_metadata m = Inr s \<Longrightarrow> length s = metadata_size m"
  by (induction m arbitrary: s rule: encode_metadata.induct)
     (auto simp: bind_result_Inr_iff split: if_splits)

section \<open>Byte streams and the blocking reader\<close>

lemma delivers_Nil [simp]: "delivers [] bs \<longleftrightarrow> bs = []"
  by (auto simp: delivers_def)

lemma delivers_Cons:
  "delivers (e # es) bs \<longleftrightarrow> is_data e \<and> (\<exists>cs. bs = event_bytes e @ cs \<and> delivers es cs)"
  by (auto simp: delivers_def)

lemma delivers_unread:
  "delivers es cs \<Longrightarrow> delivers (unread bs es) (bs @ cs)"
  by (auto simp: unread_def delivers_Cons split: list.splits)

lemma unread_append: "unread bs es @ ts = unread bs (es @ ts)"
  by (simp add: unread_def split: list.splits)

lemma read_exact_simps:
  "read_exact 0 es out = (Return out, es)"
  "0 < n \<Longrightarrow> read_exact n [] out = (Blocked, [])"
  "Suc (length bs) \<le> n \<Longrightarrow>
     read_exact n (Chunk b bs # es) out = read_exact (n - Suc (length bs)) es (out @ b # bs)"
  "0 < n \<Longrightarrow> n \<le> length bs \<Longrightarrow>
     read_exact n (Chunk b bs # es) out = (Return (out @ take n (b # bs)), unread (drop n (b # bs)) es)"
  "0 < n \<Longrightarrow> read_exact n (Interrupted # es) out = read_exact n es out"
  "0 < n \<Longrightarrow> read_exact n (Eof # es) out = (Throw (RuntimeError ''peer closed framed IPC''), Eof # es)"
  by (simp_all add: read_exact.simps [of 0] read_exact.simps [of n] unread_def)

lemma read_exact_delivers:
  "delivers es bs \<Longrightarrow> n \<le> length bs \<Longrightarrow>
     \<exists>es'. delivers es' (drop n bs) \<and>
       (\<forall>ts. read_exact n (es @ ts) out = (Return (out @ take n bs), es' @ ts))"
proof (induction es arbitrary: n bs out)
  case Nil
  then show ?case by (simp add: read_exact_simps)
next
  case (Cons e es)
  obtain cs where e: "is_data e" and bs: "bs = event_bytes e @ cs" and cs: "delivers es cs"
    using Cons.prems(1) by (auto simp: delivers_Cons)
  consider "n = 0" | "0 < n" "e = Interrupted" | (whole) b xs where "e = Chunk b xs" "Suc (length xs) \<le> n"
    | (part) b xs where "0 < n" "e = Chunk b xs" "n \<le> length xs"
    using e by (cases e) (auto, metis gr0I not_less_eq_eq)
  then show ?case
  proof cases
    case 1
    then show ?thesis
      using Cons.prems(1) by (intro exI [of _ "e # es"]) (simp add: read_exact_simps)
  next
    case 2
    then show ?thesis
      using Cons.IH [OF cs, of n out] Cons.prems(2) by (simp add: read_exact_simps bs)
  next
    case whole
    then show ?thesis
      using Cons.IH [OF cs, of "n - Suc (length xs)" "out @ b # xs"] Cons.prems(2)
      by (cases n) (simp_all add: read_exact_simps bs)
  next
    case part
    then show ?thesis
      using delivers_unread [OF cs, of "drop n (b # xs)"]
      by (intro exI [of _ "unread (drop n (b # xs)) es"], cases n)
         (simp_all add: read_exact_simps bs unread_append)
  qed
qed

lemma read_exact_short:
  "delivers es bs \<Longrightarrow> length bs < n \<Longrightarrow> fst (read_exact n es out) = Blocked"
proof (induction es arbitrary: n bs out)
  case Nil
  then show ?case by (simp add: read_exact_simps)
next
  case (Cons e es)
  then show ?case
    by (cases e) (auto simp: delivers_Cons read_exact_simps)
qed

lemma build_frame_encoded:
  assumes "wf_frame f" and "encode_metadata (metadata f) = Inr md"
  shows "build_frame \<lparr>h_type = u16_of_type (frame_type f), h_correlation = correlation_id f,
            h_metadata_length = m, h_payload_length = p\<rparr> (bytes_of_string md) (payload f) = Inr f"
  using assms decode_encode_from [OF assms(2), of "[]"] type_of_u16_of_type [of "frame_type f"]
  by (simp add: build_frame_def decode_metadata_def wf_frame_def)

text \<open>The bytes of an encoded frame: its header, its metadata text and its payload.\<close>

lemma encode_frame_parts:
  assumes "encode_frame f = Inr bs"
  obtains md where "encode_metadata (metadata f) = Inr md"
    and "length md \<le> kMaxMetadata" and "length (payload f) \<le> kMaxPayload"
    and "bs = header_bytes (frame_type f) (correlation_id f) (length md) (length (payload f))
                @ bytes_of_string md @ payload f"
  using assms by (auto simp: encode_frame_def bind_result_Inr_iff split: if_splits)

lemma take_frame_encoded:
  assumes "encode_frame f = Inr bs" and "wf_frame f"
  shows "take_frame (bs @ rest) = (Inr (Some f), rest)"
proof -
  obtain md where md: "encode_metadata (metadata f) = Inr md"
    and lim: "length md \<le> kMaxMetadata" "length (payload f) \<le> kMaxPayload"
    and bs: "bs = header_bytes (frame_type f) (correlation_id f) (length md) (length (payload f))
                @ bytes_of_string md @ payload f"
    using assms(1) by (rule encode_frame_parts)
  show ?thesis
    using build_frame_encoded [OF assms(2) md]
    by (simp add: take_frame_def bs decode_header_bytes lim limits_fit Let_def)
qed

lemma take_frame_prefix:
  assumes "encode_frame f = Inr bs" and "bs = buf @ missing" and "missing \<noteq> []"
  shows "take_frame buf = (Inr None, buf)"
proof (cases "length buf < kHeaderSize")
  case True
  then show ?thesis by (simp add: take_frame_def)
next
  case False
  obtain md where lim: "length md \<le> kMaxMetadata" "length (payload f) \<le> kMaxPayload"
    and bs: "bs = header_bytes (frame_type f) (correlation_id f) (length md) (length (payload f))
                @ bytes_of_string md @ payload f"
    using assms(1) by (rule encode_frame_parts)
  let ?h = "header_bytes (frame_type f) (correlation_id f) (length md) (length (payload f))"
  have "buf = ?h @ drop kHeaderSize buf"
    using False assms(2) bs by (metis append_eq_append_conv_if append_take_drop_id length_header_bytes not_less)
  then have "decode_header buf = decode_header (?h @ drop kHeaderSize buf)"
    by simp
  moreover have "length buf < kHeaderSize + length md + length (payload f)"
    using assms(2,3) bs by (metis add.assoc length_append length_bytes_of_string length_greater_0_conv
        length_header_bytes less_add_same_cancel1)
  ultimately show ?thesis
    using False by (simp add: take_frame_def decode_header_bytes lim limits_fit Let_def)
qed

lemma decode_header_take:
  "kHeaderSize \<le> length buf \<Longrightarrow> decode_header (take kHeaderSize buf) = decode_header buf"
  by (simp add: decode_header_def get_u16_def get_u32_def get_u64_def kHeaderSize_def
      min_def drop_take upt_rec Let_def)

lemma read_exact_stream:
  assumes "delivers es bs" and "n \<le> length bs"
  obtains es' where "delivers es' (drop n bs)"
    and "\<forall>ts. read_exact n (es @ ts) [] = (Return (take n bs), es' @ ts)"
  using read_exact_delivers [OF assms, of "[]"] by auto

lemma read_frame_incomplete:
  assumes "delivers es buf" and "decode_header buf = Inr h" and "kHeaderSize \<le> length buf"
    and short: "length buf < kHeaderSize + unat (h_metadata_length h) + unat (h_payload_length h)"
  shows "fst (read_frame es) = Blocked"
proof -
  let ?body = "drop kHeaderSize buf"
  let ?m = "unat (h_metadata_length h)" and ?p = "unat (h_payload_length h)"
  obtain es1 where es1: "delivers es1 ?body"
    and "\<forall>ts. read_exact kHeaderSize (es @ ts) [] = (Return (take kHeaderSize buf), es1 @ ts)"
    using assms(1,3) by (rule read_exact_stream)
  from this(2) [THEN spec, of "[]"] have r1: "read_exact kHeaderSize es [] = (Return (take kHeaderSize buf), es1)"
    by simp
  show ?thesis
  proof (cases "length ?body < ?m")
    case True
    then have "fst (read_exact ?m es1 []) = Blocked"
      using read_exact_short [OF es1] by simp
    with r1 assms(2,3) show ?thesis
      by (auto simp: read_frame_def decode_header_take split: prod.splits)
  next
    case False
    then obtain es2 where es2: "delivers es2 (drop ?m ?body)"
      and r2: "\<forall>ts. read_exact ?m (es1 @ ts) [] = (Return (take ?m ?body), es2 @ ts)"
      using es1 by (meson not_less read_exact_stream)
    have "length (drop ?m ?body) < ?p"
      using short False assms(3) by simp
    then obtain es3 where "read_exact ?p es2 [] = (Blocked, es3)"
      using read_exact_short [OF es2] by (metis prod.collapse)
    with r2 [THEN spec, of "[]"] show ?thesis
      using r1 assms(2,3) by (simp add: read_frame_def decode_header_take)
  qed
qed

lemma read_frame_complete:
  assumes "delivers es buf" and "decode_header buf = Inr h"
    and full: "kHeaderSize + unat (h_metadata_length h) + unat (h_payload_length h) \<le> length buf"
  obtains es' where
    "delivers es' (drop (kHeaderSize + unat (h_metadata_length h) + unat (h_payload_length h)) buf)"
    and "\<forall>ts. read_frame (es @ ts) =
       (case build_frame h (take (unat (h_metadata_length h)) (drop kHeaderSize buf))
               (take (unat (h_payload_length h))
                  (drop (unat (h_metadata_length h)) (drop kHeaderSize buf))) of
          Inl e \<Rightarrow> (Throw e, es' @ ts) | Inr f \<Rightarrow> (Return f, es' @ ts))"
proof -
  let ?body = "drop kHeaderSize buf"
  let ?m = "unat (h_metadata_length h)" and ?p = "unat (h_payload_length h)"
  have hd: "kHeaderSize \<le> length buf"
    using full by simp
  obtain es1 where es1: "delivers es1 ?body"
    and r1: "\<forall>ts. read_exact kHeaderSize (es @ ts) [] = (Return (take kHeaderSize buf), es1 @ ts)"
    using assms(1) hd by (rule read_exact_stream)
  have len: "?m \<le> length ?body" "?p \<le> length (drop ?m ?body)"
    using full by simp_all
  obtain es2 where es2: "delivers es2 (drop ?m ?body)"
    and r2: "\<forall>ts. read_exact ?m (es1 @ ts) [] = (Return (take ?m ?body), es2 @ ts)"
    using es1 len(1) by (rule read_exact_stream)
  obtain es3 where es3: "delivers es3 (drop ?p (drop ?m ?body))"
    and r3: "\<forall>ts. read_exact ?p (es2 @ ts) [] = (Return (take ?p (drop ?m ?body)), es3 @ ts)"
    using es2 len(2) by (rule read_exact_stream)
  show thesis
  proof (rule that [of es3])
    show "delivers es3 (drop (kHeaderSize + ?m + ?p) buf)"
      using es3 by (simp add: add.commute add.left_commute)
    show "\<forall>ts. read_frame (es @ ts) =
        (case build_frame h (take ?m ?body) (take ?p (drop ?m ?body)) of
           Inl e \<Rightarrow> (Throw e, es3 @ ts) | Inr f \<Rightarrow> (Return f, es3 @ ts))"
      using assms(2) hd r1 r2 r3 by (simp add: read_frame_def decode_header_take)
  qed
qed

text \<open>
  The incremental reader's view of a buffer and the blocking reader's view of a stream that
  delivers the same bytes, in whatever pieces, agree: on frames, on exceptions and on the need
  for more bytes.
\<close>

lemma read_frame_take_frame:
  assumes "delivers es buf"
  shows "case take_frame buf of
           (Inr (Some f), rest) \<Rightarrow> \<exists>es'. read_frame (es @ ts) = (Return f, es' @ ts) \<and> delivers es' rest
         | (Inr None, rest) \<Rightarrow> fst (read_frame es) = Blocked
         | (Inl e, rest) \<Rightarrow> fst (read_frame (es @ ts)) = Throw e"
proof (cases "length buf < kHeaderSize")
  case True
  then show ?thesis
    using read_exact_short [OF assms True, of "[]"]
    by (auto simp: take_frame_def read_frame_def split: prod.splits)
next
  case False
  then have hd: "kHeaderSize \<le> length buf"
    by simp
  show ?thesis
  proof (cases "decode_header buf")
    case (Inl e)
    obtain es1 where
      "\<forall>ts. read_exact kHeaderSize (es @ ts) [] = (Return (take kHeaderSize buf), es1 @ ts)"
      using assms hd by (rule read_exact_stream)
    with Inl False decode_header_take [OF hd] show ?thesis
      by (simp add: take_frame_def read_frame_def)
  next
    case (Inr h)
    let ?total = "kHeaderSize + unat (h_metadata_length h) + unat (h_payload_length h)"
    show ?thesis
    proof (cases "length buf < ?total")
      case True
      with read_frame_incomplete [OF assms Inr hd] False Inr show ?thesis
        by (simp add: take_frame_def Let_def)
    next
      case short: False
      then have "?total \<le> length buf"
        by simp
      with assms Inr obtain es' where "delivers es' (drop ?total buf)"
        and "\<forall>ts. read_frame (es @ ts) =
          (case build_frame h (take (unat (h_metadata_length h)) (drop kHeaderSize buf))
               (take (unat (h_payload_length h))
                  (drop (unat (h_metadata_length h)) (drop kHeaderSize buf))) of
             Inl e \<Rightarrow> (Throw e, es' @ ts) | Inr f \<Rightarrow> (Return f, es' @ ts))"
        by (rule read_frame_complete)
      with short False Inr show ?thesis
        by (auto simp: take_frame_def Let_def split: sum.splits)
    qed
  qed
qed

section \<open>The incremental reader and the writer\<close>

lemma fill_buffer_budget: "kReadBudget \<le> n \<Longrightarrow> fill_buffer n buf es = (None, buf, es)"
  by (subst fill_buffer.simps) simp

lemma fill_buffer_Chunk:
  assumes "\<not> kReadBudget \<le> n" and "r = min kChunkSize (kReadBudget - n)"
    and "g = take r (b # xs)" and "d = drop r (b # xs)"
  shows "fill_buffer n buf (Chunk b xs # es) =
    (if kMaxBufferedFrame - min (length buf) kMaxBufferedFrame < length g
     then (Some (FramingError ''worker frame exceeds bounded incremental buffer''), buf, unread d es)
     else fill_buffer (n + length g) (buf @ g) (unread d es))"
  by (subst fill_buffer.simps) (simp only: assms if_False list.case read_event.case Let_def)

lemma fill_buffer_data:
  "delivers es bs \<Longrightarrow> length buf + min (kReadBudget - n) (length bs) \<le> kMaxBufferedFrame \<Longrightarrow>
     \<exists>es'. fill_buffer n buf es = (None, buf @ take (kReadBudget - n) bs, es')
           \<and> delivers es' (drop (kReadBudget - n) bs)"
proof (induction n buf es arbitrary: bs rule: fill_buffer.induct)
  case (1 n buf es)
  show ?case
  proof (cases "kReadBudget \<le> n")
    case True
    with "1.prems" show ?thesis
      by (simp add: fill_buffer_budget)
  next
    case False
    let ?r = "min kChunkSize (kReadBudget - n)"
    show ?thesis
    proof (cases es)
      case Nil
      with False "1.prems" show ?thesis
        by (simp add: fill_buffer.simps [of n])
    next
      case (Cons e es1)
      obtain cs where e: "is_data e" and bs: "bs = event_bytes e @ cs" and cs: "delivers es1 cs"
        using "1.prems"(1) by (auto simp: Cons delivers_Cons)
      show ?thesis
      proof (cases e)
        case (Chunk b xs)
        define g where "g = take ?r (b # xs)"
        define d where "d = drop ?r (b # xs)"
        have bs': "bs = g @ d @ cs"
          by (simp add: bs Chunk g_def d_def flip: append_assoc)
        have g: "length g \<le> kReadBudget - n"
          by (simp add: g_def min_le_iff_disj)
        have lens: "length buf + length g + min (kReadBudget - (n + length g)) (length (d @ cs))
            \<le> kMaxBufferedFrame"
          using "1.prems"(2) g unfolding bs' length_append by arith
        then have fits: "\<not> kMaxBufferedFrame - min (length buf) kMaxBufferedFrame < length g"
          by linarith
        from lens have "length (buf @ g) + min (kReadBudget - (n + length g)) (length (d @ cs))
            \<le> kMaxBufferedFrame"
          by simp
        then obtain es' where
          "fill_buffer (n + length g) (buf @ g) (unread d es1) =
             (None, (buf @ g) @ take (kReadBudget - (n + length g)) (d @ cs), es')"
          "delivers es' (drop (kReadBudget - (n + length g)) (d @ cs))"
          using "1.IH"(1) [OF False refl Cons Chunk g_def refl, folded d_def, OF fits
              delivers_unread [OF cs]] by blast
        moreover have "fill_buffer n buf es = fill_buffer (n + length g) (buf @ g) (unread d es1)"
          using fits by (simp add: fill_buffer_Chunk [OF False refl g_def d_def] Cons Chunk)
        ultimately show ?thesis
          using g by (simp add: bs')
      next
        case Interrupted
        then show ?thesis
          using "1.IH"(2) [OF False refl Cons Interrupted, of bs] "1.prems" False
          by (simp add: fill_buffer.simps [of n] Cons delivers_Cons)
      qed (use e in simp_all)
    qed
  qed
qed

lemma fill_buffer_bound:
  "length buf \<le> kMaxBufferedFrame \<Longrightarrow> fill_buffer n buf es = (r, buf', es') \<Longrightarrow>
     length buf' \<le> kMaxBufferedFrame"
proof (induction n buf es rule: fill_buffer.induct)
  case (1 n buf es)
  show ?case
  proof (cases "kReadBudget \<le> n \<or> es = []")
    case True
    with "1.prems" show ?thesis
      by (auto simp: fill_buffer.simps [of n] Let_def split: if_splits)
  next
    case False
    then obtain e es1 where es: "es = e # es1" and n: "\<not> kReadBudget \<le> n"
      by (cases es) auto
    show ?thesis
    proof (cases e)
      case (Chunk b xs)
      let ?got = "take (min kChunkSize (kReadBudget - n)) (b # xs)"
      show ?thesis
      proof (cases "kMaxBufferedFrame - min (length buf) kMaxBufferedFrame < length ?got")
        case True
        with "1.prems" n show ?thesis
          by (auto simp: fill_buffer.simps [of n] es Chunk Let_def)
      next
        case False
        then have "length buf + length ?got \<le> kMaxBufferedFrame"
          using "1.prems"(1) by linarith
        then have "length (buf @ ?got) \<le> kMaxBufferedFrame"
          by simp
        with "1.IH"(1) [OF n refl es Chunk refl refl False] "1.prems"(2) n False show ?thesis
          by (auto simp: fill_buffer.simps [of n] es Chunk Let_def)
      qed
    next
      case Interrupted
      with "1.IH"(2) [OF n refl es Interrupted] "1.prems" n show ?thesis
        by (simp add: fill_buffer.simps [of n] es)
    qed (use "1.prems" n in \<open>auto simp: fill_buffer.simps [of n] es Let_def\<close>)
  qed
qed

lemma write_exact_prefix:
  "write_exact data es sent = (out, r) \<Longrightarrow>
     \<exists>k. out = sent @ take k data \<and> (r = Return () \<longrightarrow> take k data = data)"
proof (induction data es sent rule: write_exact.induct)
  case (1 data es sent)
  show ?case
  proof (cases "data = [] \<or> es = []")
    case True
    with "1.prems" show ?thesis
      by (auto simp: write_exact.simps [of data] split: if_splits)
  next
    case False
    then obtain e es1 where es: "es = e # es1" and data: "data \<noteq> []"
      by (cases es) auto
    show ?thesis
    proof (cases e)
      case (Accept n)
      show ?thesis
      proof (cases "n = 0")
        case True
        with "1.prems" data show ?thesis
          by (auto simp: write_exact.simps [of data] es Accept intro: exI [of _ 0])
      next
        case False
        then obtain k where "out = (sent @ take n data) @ take k (drop n data)"
            "r = Return () \<longrightarrow> take k (drop n data) = drop n data"
          using "1.IH"(1) [OF data es Accept False] "1.prems" data
          by (auto simp: write_exact.simps [of data] es Accept)
        then show ?thesis
          by (intro exI [of _ "n + k"]) (simp add: take_add)
      qed
    next
      case WriteInterrupted
      with "1.IH"(2) [OF data es WriteInterrupted] "1.prems" data show ?thesis
        by (simp add: write_exact.simps [of data] es)
    next
      case (WriteError m)
      with "1.prems" data show ?thesis
        by (auto simp: write_exact.simps [of data] es intro: exI [of _ 0])
    qed
  qed
qed

lemma fill_buffer_then:
  "delivers es bs \<Longrightarrow> n + length bs < kReadBudget \<Longrightarrow> length buf + length bs \<le> kMaxBufferedFrame \<Longrightarrow>
     fill_buffer n buf (es @ ts) = fill_buffer (n + length bs) (buf @ bs) ts"
proof (induction "length bs + length es" arbitrary: n buf es bs rule: less_induct)
  case less
  show ?case
  proof (cases es)
    case Nil
    with less.prems show ?thesis by simp
  next
    case (Cons e es1)
    obtain cs where e: "is_data e" and bs: "bs = event_bytes e @ cs" and cs: "delivers es1 cs"
      using less.prems(1) by (auto simp: Cons delivers_Cons)
    have n: "\<not> kReadBudget \<le> n"
      using less.prems(2) by simp
    show ?thesis
    proof (cases e)
      case (Chunk b xs)
      let ?r = "min kChunkSize (kReadBudget - n)"
      define g where "g = take ?r (b # xs)"
      define d where "d = drop ?r (b # xs)"
      have bs': "bs = g @ d @ cs"
        by (simp add: bs Chunk g_def d_def flip: append_assoc)
      have g: "0 < length g"
        using n by (simp add: g_def kChunkSize_def)
      have fits: "\<not> kMaxBufferedFrame - min (length buf) kMaxBufferedFrame < length g"
        using less.prems(3) by (simp add: bs')
      have "length (unread d es1) \<le> length es"
        by (simp add: unread_def Cons split: list.splits)
      with g have "length (d @ cs) + length (unread d es1) < length bs + length es"
        unfolding bs' length_append by linarith
      then have "fill_buffer (n + length g) (buf @ g) (unread d es1 @ ts) =
          fill_buffer (n + length g + length (d @ cs)) ((buf @ g) @ d @ cs) ts"
        using less.prems(2,3) delivers_unread [OF cs, of d]
        by (intro less.hyps) (simp_all add: bs')
      then show ?thesis
        using fits
        by (simp add: Cons Chunk fill_buffer_Chunk [OF n refl g_def d_def] bs' unread_append add.assoc)
    next
      case Interrupted
      then have "fill_buffer n buf (es1 @ ts) = fill_buffer (n + length bs) (buf @ bs) ts"
        using less.prems cs by (intro less.hyps) (simp_all add: bs Cons)
      with n show ?thesis
        by (simp add: fill_buffer.simps [of n] Cons Interrupted)
    qed (use e in simp_all)
  qed
qed

lemma read_available_data:
  assumes "delivers es bs" and "length bs \<le> kReadBudget"
    and "length buf + length bs \<le> kMaxBufferedFrame"
  shows "fst (read_available buf es) = fst (take_frame (buf @ bs))"
    and "fst (snd (read_available buf es)) = snd (take_frame (buf @ bs))"
  using fill_buffer_data [OF assms(1), of buf 0] assms(2,3)
  by (auto simp: read_available_def split: prod.splits)

lemma encode_frame_length: "encode_frame f = Inr bs \<Longrightarrow> length bs \<le> kMaxBufferedFrame"
  by (erule encode_frame_parts) (simp add: kMaxBufferedFrame_def)

lemma read_turns_encoded:
  assumes "encode_frame f = Inr bs" and "wf_frame f"
  shows "list_all2 delivers ess bss \<Longrightarrow> \<forall>xs \<in> set bss. length xs \<le> kReadBudget \<Longrightarrow>
     bs = buf @ concat bss \<Longrightarrow> bss \<noteq> [] \<Longrightarrow> read_turns buf ess = (Inr (Some f), [])"
proof (induction ess bss arbitrary: buf rule: list_all2_induct)
  case (Cons es ess xs bss)
  have len: "length buf + length xs \<le> kMaxBufferedFrame"
    using encode_frame_length [OF assms(1)] Cons.prems(2) by simp
  have xs: "length xs \<le> kReadBudget"
    using Cons.prems(1) by simp
  note ra = read_available_data [OF Cons.hyps(1) xs len]
  show ?case
  proof (cases "concat bss = []")
    case True
    with Cons.prems(2) have "bs = buf @ xs"
      by (simp only: concat.simps append_Nil2)
    then have "take_frame (buf @ xs) = (Inr (Some f), [])"
      using take_frame_encoded [OF assms, of "[]"] by simp
    with ra show ?thesis
      by (cases "read_available buf es") auto
  next
    case False
    then have "take_frame (buf @ xs) = (Inr None, buf @ xs)"
      using take_frame_prefix [OF assms(1), of "buf @ xs" "concat bss"] Cons.prems(2) by simp
    moreover have "read_turns (buf @ xs) ess = (Inr (Some f), [])"
      using Cons.IH [of "buf @ xs"] Cons.prems(1,2) False by (cases bss) auto
    ultimately show ?thesis
      using ra by (cases "read_available buf es") auto
  qed
qed simp

section \<open>A concrete exchange\<close>

lemmas frame_eval = encode_frame_def header_bytes_def kMaxMetadata_def kMaxPayload_def kMagic_def
  put_u16_def put_u32_def put_u64_eq kFramingVersion_def bad_key_def bad_value_def bytes_of_string_def byte_of_char_def

lemma sample_encode: "encode_frame sample_frame = Inr sample_bytes"
  by (simp add: frame_eval sample_frame_def sample_bytes_def)

lemma sample_wf: "wf_frame sample_frame"
  by (simp add: wf_frame_def sample_frame_def well_typed_def)

lemma sample_write: "write_frame sample_frame [Accept 3, WriteInterrupted, Accept 100] = (sample_bytes, Return ())"
  by (simp add: write_frame_def sample_encode write_exact.simps) (simp add: sample_bytes_def bytes_of_string_def)
lemma sample_deliver: "delivers (map (\<lambda>b. Chunk b []) sample_bytes) sample_bytes"
  by (simp add: delivers_def list_all_iff comp_def)

section \<open>Properties\<close>

text \<open>C16: a frame survives the wire. Whatever pieces the writer's system calls accept and the
  reader's system calls deliver, a frame that \<open>write_frame\<close> sent completely is the frame that
  \<open>read_frame\<close> returns, and nothing of it is left unread.\<close>

theorem frame_transport:
  assumes "wf_frame f" and "write_frame f ws = (out, Return ())" and "delivers es out"
  shows "\<exists>es'. read_frame (es @ ts) = (Return f, es' @ ts) \<and> delivers es' []"
proof -
  obtain bs where bs: "encode_frame f = Inr bs" and "write_exact bs ws [] = (out, Return ())"
    using assms(2) by (auto simp: write_frame_def split: sum.splits)
  from write_exact_prefix [OF this(2)] have "out = bs"
    by auto
  then have "take_frame out = (Inr (Some f), [])"
    using take_frame_encoded [OF bs assms(1), of "[]"] by simp
  with read_frame_take_frame [OF assms(3), of ts] show ?thesis
    by simp
qed

theorem frame_transport_witness:
  "\<exists>es'. read_frame (map (\<lambda>b. Chunk b []) sample_bytes @ [Eof]) = (Return sample_frame, es' @ [Eof])
     \<and> delivers es' []"
  by (rule frame_transport [OF sample_wf sample_write sample_deliver])





text \<open>The incremental reader never holds more than one maximal frame, whatever a worker
  sends.\<close>

lemma read_available_bounded:
  assumes "length buf \<le> kMaxBufferedFrame" and "read_available buf es = (r, buf', es')"
  shows "length buf' \<le> kMaxBufferedFrame"
proof -
  obtain x b e where fb: "fill_buffer 0 buf es = (x, b, e)"
    by (cases "fill_buffer 0 buf es")
  have "length b \<le> kMaxBufferedFrame"
    using assms(1) fb by (rule fill_buffer_bound)
  moreover have "length (snd (take_frame b)) \<le> length b"
    by (auto simp: take_frame_def Let_def split: sum.splits)
  ultimately show ?thesis
    using assms(2) fb by (auto simp: read_available_def split: option.splits prod.splits)
qed

text \<open>A header with a wrong magic, version or an announced length beyond the limits is
  rejected before any byte of the body is read.\<close>

lemma header_rejected_before_body:
  assumes "delivers es hb" and "length hb = kHeaderSize" and "decode_header hb = Inl e"
  shows "\<exists>es'. read_frame (es @ body) = (Throw e, es' @ body) \<and> delivers es' []"
proof -
  obtain es' where "delivers es' (drop kHeaderSize hb)"
    and "\<forall>ts. read_exact kHeaderSize (es @ ts) [] = (Return (take kHeaderSize hb), es' @ ts)"
    using assms(1,2) by (metis order_refl read_exact_stream)
  with assms(2,3) show ?thesis
    by (auto simp: read_frame_def)
qed

text \<open>\<open>encode_frame\<close> accepts exactly the frames whose metadata has no empty key, no
  separator in a key and no line break in a value, and whose metadata text and payload respect
  the limits.\<close>

lemma encode_frame_accepts:
  "(\<exists>bs. encode_frame f = Inr bs) \<longleftrightarrow>
     list_all (\<lambda>(k, v). \<not> bad_key k \<and> \<not> bad_value v) (metadata f)
     \<and> metadata_size (metadata f) \<le> kMaxMetadata \<and> length (payload f) \<le> kMaxPayload"
proof -
  have "(\<exists>bs. encode_frame f = Inr bs) \<longleftrightarrow>
      (\<exists>s. encode_metadata (metadata f) = Inr s \<and> length s \<le> kMaxMetadata) \<and> length (payload f) \<le> kMaxPayload"
    by (auto simp: encode_frame_def bind_result_Inr_iff not_less split: if_splits)
  then show ?thesis
    using encode_metadata_iff [of "metadata f"] encode_metadata_length [of "metadata f"]
    by (auto simp: list_all_iff)
qed

text \<open>C38: when a worker sends its complete answer and closes the pipe before the Kernel polls,
  the incremental reader reports a partial frame, although the buffered bytes are a complete
  frame that the blocking reader returns from the same stream.\<close>

theorem eof_hides_complete_frame:
  assumes "encode_frame f = Inr bs" and "wf_frame f" and "delivers es bs" and "length bs < kReadBudget"
  shows "fst (read_available [] (es @ [Eof])) =
           Inl (FramingError ''peer closed during partial framed IPC'')
         \<and> fst (read_frame (es @ [Eof])) = Return f"
proof -
  have ne: "bs \<noteq> []"
    using assms(1) by (auto elim!: encode_frame_parts simp: header_bytes_def kMagic_def)
  have "fill_buffer 0 [] (es @ [Eof]) = fill_buffer (0 + length bs) ([] @ bs) [Eof]"
    using assms encode_frame_length [OF assms(1)] by (intro fill_buffer_then) auto
  also have "\<dots> = (Some (FramingError ''peer closed during partial framed IPC''), bs, [Eof])"
    using assms(4) ne by (subst fill_buffer.simps) simp
  finally have "fst (read_available [] (es @ [Eof])) =
      Inl (FramingError ''peer closed during partial framed IPC'')"
    by (simp add: read_available_def)
  moreover have "fst (read_frame (es @ [Eof])) = Return f"
    using read_frame_take_frame [OF assms(3), of "[Eof]"] take_frame_encoded [OF assms(1,2), of "[]"]
    by auto
  ultimately show ?thesis ..
qed

theorem eof_hides_complete_frame_witness:
  "fst (read_available [] (map (\<lambda>b. Chunk b []) sample_bytes @ [Eof])) =
     Inl (FramingError ''peer closed during partial framed IPC'')
   \<and> fst (read_frame (map (\<lambda>b. Chunk b []) sample_bytes @ [Eof])) = Return sample_frame"
  by (rule eof_hides_complete_frame [OF sample_encode sample_wf sample_deliver])
     (simp add: sample_bytes_def kReadBudget_def)

end
