(* ===== verification/Engines.thy ===== *)
theory Engines
  imports Resources Protocol Store_Contract
begin

text \<open>
  Engine descriptors and engine selection of \<open>kernel/src/main.cpp\<close>: the comma-separated lists of
  constraints, the descriptor of a physical engine, the built-in inventory of the test engines,
  the metadata a descriptor is reported with, and \<open>select_engine\<close>.
\<close>

section \<open>Comma-separated lists\<close>

lemma dropWhile_Cons_shorter: "y # ys = dropWhile P xs \<Longrightarrow> length ys < length xs"
  by (metis Suc_le_lessD length_Cons length_dropWhile_le)

function split_csv :: "string \<Rightarrow> string list" where
  "split_csv csv =
     (let field = takeWhile (\<lambda>c. c \<noteq> CHR '','') csv;
          rest = dropWhile (\<lambda>c. c \<noteq> CHR '','') csv;
          values = (if field \<noteq> [] then [field] else [])
      in case rest of [] \<Rightarrow> values | comma # next \<Rightarrow> values @ split_csv next)"
  by auto
termination
  by (relation "measure length") (auto dest!: dropWhile_Cons_shorter)

declare split_csv.simps [simp del]

fun join_csv :: "string list \<Rightarrow> string" where
  "join_csv [] = []"
| "join_csv [v] = v"
| "join_csv (v # w # vs) = v @ '','' @ join_csv (w # vs)"

definition contains :: "string list \<Rightarrow> string \<Rightarrow> bool" where
  "contains values v \<longleftrightarrow> v \<in> set values"

definition contains_all :: "string list \<Rightarrow> string list \<Rightarrow> bool" where
  "contains_all available required \<longleftrightarrow> list_all (contains available) required"

section \<open>Descriptors\<close>

definition kMiB :: u64 where
  "kMiB = 1024 * 1024"

record EngineDescriptorFacts =
  engine_id :: string
  work_types :: "string list"
  capabilities :: "string list"
  model_ids :: "string list"
  supported_efforts :: "string list"
  placement :: string
  availability :: string
  engine_resources :: ResourceRequirement

definition fake_engine_inventory :: "EngineDescriptorFacts list" where
  "fake_engine_inventory =
     [\<lparr>engine_id = ''fake-standard'', work_types = [''text-generation/v1''],
       capabilities = [''basic-text''], model_ids = [''standard-v1'', ''shared-v1''],
       supported_efforts = [''STANDARD''], placement = ''LOCAL_WORKER_PROCESS'',
       availability = ''AVAILABLE'',
       engine_resources = \<lparr>req_cpu_slots = 1, req_ram_bytes = 64 * kMiB, req_gpu_id = [],
                           req_gpu_vram_bytes = 0\<rparr>\<rparr>,
      \<lparr>engine_id = ''fake-capable'', work_types = [''text-generation/v1''],
       capabilities = [''basic-text'', ''structured-output'', ''long-context''],
       model_ids = [''high-v1'', ''shared-v1''], supported_efforts = [''STANDARD'', ''HIGH''],
       placement = ''LOCAL_WORKER_PROCESS'', availability = ''AVAILABLE'',
       engine_resources = \<lparr>req_cpu_slots = 1, req_ram_bytes = 96 * kMiB,
                           req_gpu_id = ''fake-gpu-0'', req_gpu_vram_bytes = 64 * kMiB\<rparr>\<rparr>,
      \<lparr>engine_id = ''fake-vision'', work_types = [''text-generation/v1''],
       capabilities = [''basic-text'', ''image-input''], model_ids = [''vision-v1''],
       supported_efforts = [''HIGH''], placement = ''LOCAL_WORKER_PROCESS'',
       availability = ''AVAILABLE'',
       engine_resources = \<lparr>req_cpu_slots = 1, req_ram_bytes = 96 * kMiB,
                           req_gpu_id = ''fake-gpu-0'', req_gpu_vram_bytes = 96 * kMiB\<rparr>\<rparr>]"

definition descriptor_fields :: "EngineDescriptorFacts \<Rightarrow> bool \<Rightarrow> (string \<times> string) list" where
  "descriptor_fields d warm =
     [(''id'', engine_id d), (''work_types'', join_csv (work_types d)),
      (''capabilities'', join_csv (capabilities d)), (''model_ids'', join_csv (model_ids d)),
      (''supported_efforts'', join_csv (supported_efforts d)), (''placement'', placement d),
      (''availability'', availability d),
      (''required_cpu_slots'', string_of_int (req_cpu_slots (engine_resources d))),
      (''required_ram_bytes'', string_of_nat (unat (req_ram_bytes (engine_resources d)))),
      (''required_gpu_id'', req_gpu_id (engine_resources d)),
      (''required_gpu_vram_bytes'', string_of_nat (unat (req_gpu_vram_bytes (engine_resources d)))),
      (''warm'', if warm then ''true'' else ''false'')]"

definition add_engine_descriptor :: "Frame \<Rightarrow> string \<Rightarrow> EngineDescriptorFacts \<Rightarrow> bool \<Rightarrow> Frame" where
  "add_engine_descriptor f prefix d warm =
     f\<lparr>metadata := map_assign_all (map (\<lambda>(k, v). (prefix @ k, v)) (descriptor_fields d warm))
                      (metadata f)\<rparr>"

section \<open>Selection\<close>

text \<open>
  A \<open>SelectionResult\<close> is the failure text or the selected engine with the model. The
  candidates are narrowed step by step, and the first step that leaves none names the failure.
\<close>

definition select_engine ::
    "WorkRecord \<Rightarrow> EngineDescriptorFacts list \<Rightarrow> string + (EngineDescriptorFacts \<times> string)" where
  "select_engine w inventory =
     (let typed = filter (\<lambda>e. contains (work_types e) (work_type w)) inventory
      in if typed = []
         then Inl (''NO_ELIGIBLE_ENGINE: no engine supports Work type '' @ work_type w)
         else
      let required = split_csv (required_capabilities w);
          capable = filter (\<lambda>e. contains_all (capabilities e) required) typed
      in if capable = []
         then Inl ''NO_ELIGIBLE_ENGINE: required capabilities are not satisfied''
         else
      let allowlist = split_csv (eligible_engine_ids w);
          allowed = (if allowlist \<noteq> [] then filter (\<lambda>e. contains allowlist (engine_id e)) capable
                     else capable)
      in if allowed = []
         then Inl ''NO_ELIGIBLE_ENGINE: eligible engine allowlist excluded all compatible engines''
         else
      let exact_engine = (if exact_engine_id w \<noteq> []
                          then filter (\<lambda>e. engine_id e = exact_engine_id w) allowed else allowed);
          exact = (if exact_model_id w \<noteq> []
                   then filter (\<lambda>e. contains (model_ids e) (exact_model_id w)) exact_engine
                   else exact_engine)
      in if exact = []
         then Inl ''EXACT_SELECTION_UNSATISFIED: exact engine/model constraint did not match''
         else
      let able = filter (\<lambda>e. contains (supported_efforts e) (effort w)) exact
      in if able = []
         then Inl (''NO_ELIGIBLE_ENGINE: requested effort '' @ effort w @ '' is unsupported'')
         else
      let available = filter (\<lambda>e. availability e = ''AVAILABLE'') able
      in if available = []
         then Inl ''NO_ELIGIBLE_ENGINE: compatible engines are unavailable''
         else
      let selected = hd available;
          model = (if exact_model_id w \<noteq> [] then exact_model_id w
                   else if model_ids selected = [] then [] else hd (model_ids selected))
      in Inr (selected, model))"

section \<open>Lemmas\<close>

lemma split_csv_Nil [simp]: "split_csv [] = []"
  by (simp add: split_csv.simps)

lemma split_csv_last:
  assumes "CHR '','' \<notin> set v" and "v \<noteq> []"
  shows "split_csv v = [v]"
proof -
  have "dropWhile (\<lambda>c. c \<noteq> CHR '','') v = []"
    using assms(1) by (auto simp: dropWhile_eq_Nil_conv)
  with assms show ?thesis
    by (subst split_csv.simps) (simp only: Let_def takeWhile_neq_id list.case if_True not_False_eq_True)
qed

lemma dropWhile_neq_append [simp]:
  "x \<notin> set xs \<Longrightarrow> dropWhile (\<lambda>y. y \<noteq> x) (xs @ x # ys) = x # ys"
  by (induction xs) auto

lemma split_csv_more:
  "CHR '','' \<notin> set v \<Longrightarrow> v \<noteq> [] \<Longrightarrow> split_csv (v @ CHR '','' # rest) = v # split_csv rest"
  by (subst split_csv.simps) (simp add: Let_def)

lemma split_join:
  "\<forall>v \<in> set vs. v \<noteq> [] \<and> CHR '','' \<notin> set v \<Longrightarrow> split_csv (join_csv vs) = vs"
  by (induction vs rule: join_csv.induct) (simp_all add: split_csv_last split_csv_more)

lemma split_csv_fields: "v \<in> set (split_csv csv) \<Longrightarrow> v \<noteq> [] \<and> CHR '','' \<notin> set v"
proof (induction csv rule: split_csv.induct)
  case (1 csv)
  let ?field = "takeWhile (\<lambda>c. c \<noteq> CHR '','') csv"
  have field: "CHR '','' \<notin> set ?field"
    using set_takeWhileD by fastforce
  have "v = ?field \<and> ?field \<noteq> []
      \<or> (\<exists>comma nxt. dropWhile (\<lambda>c. c \<noteq> CHR '','') csv = comma # nxt \<and> v \<in> set (split_csv nxt))"
    using 1(2) by (subst (asm) split_csv.simps) (auto simp: Let_def split: list.splits if_splits)
  then show ?case
    using 1(1) [OF refl refl refl] field by metis
qed

text \<open>Which engines a Work accepts.\<close>

definition compatible :: "WorkRecord \<Rightarrow> EngineDescriptorFacts \<Rightarrow> bool" where
  "compatible w e \<longleftrightarrow>
     work_type w \<in> set (work_types e)
     \<and> set (split_csv (required_capabilities w)) \<subseteq> set (capabilities e)
     \<and> (split_csv (eligible_engine_ids w) \<noteq> [] \<longrightarrow> engine_id e \<in> set (split_csv (eligible_engine_ids w)))
     \<and> (exact_engine_id w \<noteq> [] \<longrightarrow> engine_id e = exact_engine_id w)
     \<and> (exact_model_id w \<noteq> [] \<longrightarrow> exact_model_id w \<in> set (model_ids e))
     \<and> effort w \<in> set (supported_efforts e) \<and> availability e = ''AVAILABLE''"

definition chosen_model :: "WorkRecord \<Rightarrow> EngineDescriptorFacts \<Rightarrow> string" where
  "chosen_model w e =
     (if exact_model_id w \<noteq> [] then exact_model_id w
      else case model_ids e of [] \<Rightarrow> [] | m # _ \<Rightarrow> m)"

lemma filter_hd_split:
  "filter P xs = y # ys \<Longrightarrow> \<exists>us vs. xs = us @ y # vs \<and> P y \<and> (\<forall>u \<in> set us. \<not> P u)"
  by (auto simp: filter_eq_Cons_iff)

lemma select_engine_first:
  "case filter (compatible w) inventory of
     [] \<Rightarrow> \<exists>m. select_engine w inventory = Inl m
   | e # _ \<Rightarrow> select_engine w inventory = Inr (e, chosen_model w e)"
proof -
  define typed where "typed = filter (\<lambda>e. contains (work_types e) (work_type w)) inventory"
  define capable where "capable =
    filter (\<lambda>e. contains_all (capabilities e) (split_csv (required_capabilities w))) typed"
  define allowed where "allowed = (if split_csv (eligible_engine_ids w) \<noteq> []
    then filter (\<lambda>e. contains (split_csv (eligible_engine_ids w)) (engine_id e)) capable else capable)"
  define exact_engine where "exact_engine = (if exact_engine_id w \<noteq> []
    then filter (\<lambda>e. engine_id e = exact_engine_id w) allowed else allowed)"
  define exact where "exact = (if exact_model_id w \<noteq> []
    then filter (\<lambda>e. contains (model_ids e) (exact_model_id w)) exact_engine else exact_engine)"
  define able where "able = filter (\<lambda>e. contains (supported_efforts e) (effort w)) exact"
  define available where "available = filter (\<lambda>e. availability e = ''AVAILABLE'') able"
  note stages = typed_def capable_def allowed_def exact_engine_def exact_def able_def available_def
  have allowed: "allowed = filter (\<lambda>e. split_csv (eligible_engine_ids w) \<noteq> [] \<longrightarrow>
      contains (split_csv (eligible_engine_ids w)) (engine_id e)) capable"
    and exact_engine: "exact_engine = filter (\<lambda>e. exact_engine_id w \<noteq> [] \<longrightarrow>
      engine_id e = exact_engine_id w) allowed"
    and exact: "exact = filter (\<lambda>e. exact_model_id w \<noteq> [] \<longrightarrow>
      contains (model_ids e) (exact_model_id w)) exact_engine"
    by (simp_all add: allowed_def exact_engine_def exact_def)
  have all: "available = filter (compatible w) inventory"
    unfolding available_def able_def exact exact_engine allowed capable_def typed_def filter_filter
    by (rule filter_cong [OF refl]) (auto simp: compatible_def contains_def contains_all_def list_all_iff)
  have empty: "typed = [] \<Longrightarrow> capable = []" "capable = [] \<Longrightarrow> allowed = []"
    "allowed = [] \<Longrightarrow> exact = []" "exact = [] \<Longrightarrow> able = []" "able = [] \<Longrightarrow> available = []"
    by (simp_all add: capable_def allowed_def exact_def exact_engine_def able_def available_def)
  have "select_engine w inventory =
    (if typed = [] then Inl (''NO_ELIGIBLE_ENGINE: no engine supports Work type '' @ work_type w)
     else if capable = [] then Inl ''NO_ELIGIBLE_ENGINE: required capabilities are not satisfied''
     else if allowed = [] then Inl ''NO_ELIGIBLE_ENGINE: eligible engine allowlist excluded all compatible engines''
     else if exact = [] then Inl ''EXACT_SELECTION_UNSATISFIED: exact engine/model constraint did not match''
     else if able = [] then Inl (''NO_ELIGIBLE_ENGINE: requested effort '' @ effort w @ '' is unsupported'')
     else if available = [] then Inl ''NO_ELIGIBLE_ENGINE: compatible engines are unavailable''
     else Inr (hd available, if exact_model_id w \<noteq> [] then exact_model_id w
       else if model_ids (hd available) = [] then [] else hd (model_ids (hd available))))"
    unfolding select_engine_def Let_def stages ..
  then show ?thesis
    using empty unfolding all [symmetric]
    by (auto simp: chosen_model_def split: list.split)
qed

lemma select_engine_member: "select_engine w inventory = Inr (e, model) \<Longrightarrow> e \<in> set inventory"
  using select_engine_first [of w inventory] filter_hd_split [of "compatible w" inventory e] by (auto split: list.splits)

text \<open>Reading a reported descriptor back.\<close>

lemma distinct_descriptor_fields: "distinct (map fst (descriptor_fields d warm))"
  by (simp add: descriptor_fields_def)

lemma descriptor_reported:
  assumes "ordered_keys (metadata f)" and "(k, v) \<in> set (descriptor_fields d warm)"
  shows "map_of (metadata (add_engine_descriptor f prefix d warm)) (prefix @ k) = Some v"
proof -
  let ?kvs = "map (\<lambda>(k, v). (prefix @ k, v)) (descriptor_fields d warm)"
  have "map fst ?kvs = map (\<lambda>k. prefix @ k) (map fst (descriptor_fields d warm))"
    by (simp add: comp_def case_prod_unfold)
  then have "distinct (map fst ?kvs)"
    using distinct_descriptor_fields by (simp only: distinct_map) (simp add: inj_on_def)
  moreover have "(prefix @ k, v) \<in> set ?kvs"
    using assms(2) by force
  ultimately show ?thesis
    using map_of_assign_all [OF assms(1)] by (simp add: add_engine_descriptor_def)
qed

lemma descriptor_ordered:
  "ordered_keys (metadata f) \<Longrightarrow> ordered_keys (metadata (add_engine_descriptor f prefix d warm))"
  by (simp add: add_engine_descriptor_def map_assign_all_ordered)

section \<open>Properties\<close>

text \<open>
  C17: Selection is sound, complete and deterministic: it fails exactly when no engine of the
  inventory meets the Work's type, capabilities, allowlist, exact engine and model, effort and
  availability constraints, and otherwise returns the first engine of the inventory that does,
  with the exact model asked for or else the engine's first model.
\<close>

theorem select_engine_correct:
  "(case select_engine w inventory of
      Inl failure \<Rightarrow> \<forall>e \<in> set inventory. \<not> compatible w e
    | Inr (e, m) \<Rightarrow>
        \<exists>us vs. inventory = us @ e # vs \<and> compatible w e \<and> list_all (\<lambda>u. \<not> compatible w u) us
          \<and> m = (if exact_model_id w \<noteq> [] then exact_model_id w
                 else case model_ids e of [] \<Rightarrow> [] | m1 # _ \<Rightarrow> m1))"
proof (cases "filter (compatible w) inventory")
  case Nil
  then obtain m where "select_engine w inventory = Inl m"
    using select_engine_first [of w inventory] by auto
  then show ?thesis
    using Nil by (auto simp: filter_empty_conv)
next
  case (Cons e es)
  then have "select_engine w inventory = Inr (e, chosen_model w e)"
    using select_engine_first [of w inventory] by simp
  then show ?thesis
    using filter_hd_split [OF Cons] by (auto simp: chosen_model_def list_all_iff)
qed

theorem select_engine_correct_witness:
  "\<exists>us vs e. fake_engine_inventory = us @ e # vs \<and> engine_id e = ''fake-capable''
     \<and> list_all (\<lambda>u. \<not> compatible (sample_work\<lparr>effort := ''HIGH''\<rparr>) u) us"
proof -
  let ?w = "sample_work\<lparr>effort := ''HIGH''\<rparr>"
  have "select_engine ?w fake_engine_inventory = Inr (fake_engine_inventory ! 1, ''high-v1'')"
    by (simp add: select_engine_def fake_engine_inventory_def contains_def contains_all_def
        sample_work_def Let_def)
  with select_engine_correct [where w = ?w and inventory = fake_engine_inventory]
  obtain us vs where "fake_engine_inventory = us @ fake_engine_inventory ! 1 # vs"
    "list_all (\<lambda>u. \<not> compatible ?w u) us"
    by auto
  moreover have "engine_id (fake_engine_inventory ! 1) = ''fake-capable''"
    by (simp add: fake_engine_inventory_def)
  ultimately show ?thesis by blast
qed

text \<open>
  A list of names written with \<open>join_csv\<close> and read with \<open>split_csv\<close> is the same list, and
  reading any text gives names that survive being written and read again.
\<close>

lemma csv_round_trip:
  "(list_all (\<lambda>v. v \<noteq> [] \<and> CHR '','' \<notin> set v) vs \<longleftrightarrow> split_csv (join_csv vs) = vs)
   \<and> split_csv (join_csv (split_csv csv)) = split_csv csv"
proof (intro conjI iffI)
  assume "split_csv (join_csv vs) = vs"
  then show "list_all (\<lambda>v. v \<noteq> [] \<and> CHR '','' \<notin> set v) vs"
    using split_csv_fields [of _ "join_csv vs"] by (auto simp: list_all_iff)
next
  show "split_csv (join_csv (split_csv csv)) = split_csv csv"
    by (rule split_join) (use split_csv_fields in blast)
qed (simp add: split_join list_all_iff)

text \<open>
  Every fact of an engine descriptor can be read back from the metadata it was added to,
  under the prefix it was added with, and the lists among them can be parsed back.
\<close>

lemma engine_descriptor_readable:
  assumes "ordered_keys (metadata f)"
    and "list_all (\<lambda>v. v \<noteq> [] \<and> CHR '','' \<notin> set v) (model_ids d)"
  shows "let out = metadata (add_engine_descriptor f prefix d warm)
         in map_of out (prefix @ ''id'') = Some (engine_id d)
            \<and> map_option split_csv (map_of out (prefix @ ''model_ids'')) = Some (model_ids d)
            \<and> map_of out (prefix @ ''required_ram_bytes'')
                = Some (string_of_nat (unat (req_ram_bytes (engine_resources d))))
            \<and> map_of out (prefix @ ''warm'') = Some (if warm then ''true'' else ''false'')
            \<and> ordered_keys out"
  using assms
  by (simp add: Let_def descriptor_reported descriptor_fields_def descriptor_ordered split_join
      list_all_iff)

end
