(* ===== verification/Workers.thy ===== *)
theory Workers
  imports Protocol
begin

text \<open>
  Worker processes and their pool, \<open>WorkerPool\<close> of \<open>kernel/src/worker_runtime.cpp\<close> (the POSIX
  branches).

  A \<open>shared_ptr<WorkerProcess>\<close> is an index into \<open>processes\<close>, the worker objects ever made;
  \<open>workers_\<close> is a list of such references, and a lease holds one. Every method of the pool
  holds its mutex, so it is one step. The operating system is a parameter: the answer of
  \<open>waitpid(pid, WNOHANG)\<close> for each object, the status \<open>waitpid\<close> reports after a kill, and the
  outcome of creating a process.
\<close>

section \<open>Objects\<close>

record WorkerLaunchSpec =
  executable :: string
  arguments :: "string list"

record WorkerProcess =
  worker_engine_id :: string
  response_reader :: "byte list"
  pid :: int
  last_wait_status :: "int option"
  fds_open :: bool
  busy :: bool
  last_used_ms :: i64

record WorkerPool =
  launch_specs :: "(string, WorkerLaunchSpec) std_assoc"
  idle_timeout_ms :: i64
  workers :: "nat list"
  processes :: "WorkerProcess list"

datatype wait_result =
    Running              \<comment> \<open>0\<close>
  | Exited int           \<comment> \<open>the process identity, with the wait status\<close>
  | NoChild              \<comment> \<open>\<open>ECHILD\<close>\<close>
  | WaitError            \<comment> \<open>any other error\<close>

type_synonym wait_env = "nat \<Rightarrow> wait_result"

section \<open>WorkerProcess\<close>

text \<open>
  \<open>make_process\<close> is the constructor: the environment \<open>spawn\<close> creates the process from the
  executable and its argument vector and answers with the process identity or the exception of
  the failed step.
\<close>

definition make_process ::
    "(string \<Rightarrow> string list \<Rightarrow> int result) \<Rightarrow> WorkerLaunchSpec \<Rightarrow> string \<Rightarrow> i64 \<Rightarrow> WorkerProcess result" where
  "make_process spawn launch eid now =
     bind_result (spawn (executable launch) (executable launch # arguments launch)) (\<lambda>child.
       Inr \<lparr>worker_engine_id = eid, response_reader = [], pid = child, last_wait_status = None,
            fds_open = True, busy = False, last_used_ms = now\<rparr>)"

definition process_alive :: "wait_result \<Rightarrow> WorkerProcess \<Rightarrow> bool \<times> WorkerProcess" where
  "process_alive answer w =
     (if pid w < 0 then (False, w)
      else case answer of
             Running \<Rightarrow> (True, w)
           | Exited status \<Rightarrow> (False, w\<lparr>last_wait_status := Some status, pid := - 1, fds_open := False\<rparr>)
           | NoChild \<Rightarrow> (False, w\<lparr>pid := - 1, fds_open := False\<rparr>)
           | WaitError \<Rightarrow> (True, w))"

definition terminate_process :: "int \<Rightarrow> WorkerProcess \<Rightarrow> WorkerProcess" where
  "terminate_process status w =
     (if pid w \<ge> 0 then w\<lparr>last_wait_status := Some status, pid := - 1, fds_open := False\<rparr>
      else w\<lparr>fds_open := False\<rparr>)"

section \<open>WorkerPool\<close>

definition new_pool :: "(string, WorkerLaunchSpec) std_assoc \<Rightarrow> i64 \<Rightarrow> WorkerPool result" where
  "new_pool specs idle =
     (if idle < 0 then Inl (InvalidArgument ''worker idle timeout must be nonnegative'')
      else if list_ex (\<lambda>(eid, launch). eid = [] \<or> executable launch = []) specs
      then Inl (InvalidArgument
        ''worker launch configuration requires engine identity and executable'')
      else Inr \<lparr>launch_specs = specs, idle_timeout_ms = idle, workers = [], processes = []\<rparr>)"

text \<open>The loop of \<open>acquire\<close>: the worker found, the references kept, the objects.\<close>

fun acquire_scan ::
    "wait_env \<Rightarrow> string \<Rightarrow> nat list \<Rightarrow> WorkerProcess list \<Rightarrow> nat option \<times> nat list \<times> WorkerProcess list" where
  "acquire_scan env eid [] ps = (None, [], ps)"
| "acquire_scan env eid (r # rs) ps =
     (if busy (ps ! r)
      then (case acquire_scan env eid rs ps of (found, ks, ps') \<Rightarrow> (found, r # ks, ps'))
      else case process_alive (env r) (ps ! r) of
             (False, w) \<Rightarrow> acquire_scan env eid rs (ps[r := w])
           | (True, w) \<Rightarrow>
               if worker_engine_id w = eid then (Some r, r # rs, ps[r := w\<lparr>busy := True\<rparr>])
               else (case acquire_scan env eid rs (ps[r := w]) of
                       (found, ks, ps') \<Rightarrow> (found, r # ks, ps')))"

definition pool_acquire ::
    "wait_env \<Rightarrow> (string \<Rightarrow> string list \<Rightarrow> int result) \<Rightarrow> i64 \<Rightarrow> string \<Rightarrow> WorkerPool \<Rightarrow>
     nat result \<times> WorkerPool" where
  "pool_acquire env spawn now eid p =
     (case acquire_scan env eid (workers p) (processes p) of
        (Some r, ks, ps) \<Rightarrow> (Inr r, p\<lparr>workers := ks, processes := ps\<rparr>)
      | (None, ks, ps) \<Rightarrow>
          (let p1 = p\<lparr>workers := ks, processes := ps\<rparr>
           in case map_of (launch_specs p) eid of
                None \<Rightarrow> (Inl (RuntimeError (''no worker launch configuration for engine '' @ eid)), p1)
              | Some launch \<Rightarrow>
                  (case make_process spawn launch eid now of
                     Inl e \<Rightarrow> (Inl e, p1)
                   | Inr w \<Rightarrow>
                       (Inr (length ps),
                        p1\<lparr>workers := ks @ [length ps], processes := ps @ [w\<lparr>busy := True\<rparr>]\<rparr>))))"

fun warm_scan ::
    "wait_env \<Rightarrow> string \<Rightarrow> nat list \<Rightarrow> WorkerProcess list \<Rightarrow> bool \<times> nat list \<times> WorkerProcess list" where
  "warm_scan env eid [] ps = (False, [], ps)"
| "warm_scan env eid (r # rs) ps =
     (case process_alive (env r) (ps ! r) of
        (False, w) \<Rightarrow> warm_scan env eid rs (ps[r := w])
      | (True, w) \<Rightarrow>
          if worker_engine_id w = eid then (True, r # rs, ps[r := w])
          else (case warm_scan env eid rs (ps[r := w]) of (b, ks, ps') \<Rightarrow> (b, r # ks, ps')))"

definition pool_is_warm :: "wait_env \<Rightarrow> string \<Rightarrow> WorkerPool \<Rightarrow> bool \<times> WorkerPool" where
  "pool_is_warm env eid p =
     (case warm_scan env eid (workers p) (processes p) of
        (b, ks, ps) \<Rightarrow> (b, p\<lparr>workers := ks, processes := ps\<rparr>))"

fun reap_scan ::
    "wait_env \<Rightarrow> (nat \<Rightarrow> int) \<Rightarrow> i64 \<Rightarrow> i64 \<Rightarrow> nat list \<Rightarrow> WorkerProcess list \<Rightarrow> nat list \<times> WorkerProcess list" where
  "reap_scan env killed now idle [] ps = ([], ps)"
| "reap_scan env killed now idle (r # rs) ps =
     (case process_alive (env r) (ps ! r) of
        (False, w) \<Rightarrow> reap_scan env killed now idle rs (ps[r := w])
      | (True, w) \<Rightarrow>
          if \<not> busy w \<and> sub_i64 now (last_used_ms w) \<ge> idle
          then reap_scan env killed now idle rs (ps[r := terminate_process (killed r) w])
          else (case reap_scan env killed now idle rs (ps[r := w]) of (ks, ps') \<Rightarrow> (r # ks, ps')))"

definition pool_reap_idle :: "wait_env \<Rightarrow> (nat \<Rightarrow> int) \<Rightarrow> i64 \<Rightarrow> WorkerPool \<Rightarrow> WorkerPool" where
  "pool_reap_idle env killed now p =
     (case reap_scan env killed now (idle_timeout_ms p) (workers p) (processes p) of
        (ks, ps) \<Rightarrow> p\<lparr>workers := ks, processes := ps\<rparr>)"

definition pool_shutdown :: "(nat \<Rightarrow> int) \<Rightarrow> WorkerPool \<Rightarrow> WorkerPool" where
  "pool_shutdown killed p =
     p\<lparr>workers := [],
       processes := fold (\<lambda>r ps. ps[r := terminate_process (killed r) (ps ! r)]) (workers p) (processes p)\<rparr>"

definition pool_release :: "wait_env \<Rightarrow> i64 \<Rightarrow> nat \<Rightarrow> WorkerPool \<Rightarrow> WorkerPool" where
  "pool_release env now r p =
     (if r \<notin> set (workers p) then p
      else
        let w = (processes p ! r)\<lparr>busy := False, last_used_ms := now\<rparr>
        in case process_alive (env r) w of
             (True, w') \<Rightarrow> p\<lparr>processes := (processes p)[r := w']\<rparr>
           | (False, w') \<Rightarrow> p\<lparr>workers := remove1 r (workers p), processes := (processes p)[r := w']\<rparr>)"

text \<open>
  A lease that is reset or destroyed releases its worker when it still has one; a moved-from
  lease has none.
\<close>

definition worker_lease_reset :: "wait_env \<Rightarrow> i64 \<Rightarrow> nat option \<Rightarrow> WorkerPool \<Rightarrow> nat option \<times> WorkerPool" where
  "worker_lease_reset env now lease p =
     (None, case lease of None \<Rightarrow> p | Some r \<Rightarrow> pool_release env now r p)"

section \<open>Leases and steps\<close>

text \<open>
  The pool with the references that leases hold. Between two steps of the pool, the holder of a
  lease may run its worker: it changes the object of the worker it holds, except for the columns
  the pool owns.
\<close>

record PoolUse =
  pool :: WorkerPool
  held :: "nat list"

inductive pool_step :: "PoolUse \<Rightarrow> PoolUse \<Rightarrow> bool" where
  acquired: "pool_acquire env spawn now eid (pool u) = (Inr r, p) \<Longrightarrow>
     pool_step u \<lparr>pool = p, held = r # held u\<rparr>"
| not_acquired: "pool_acquire env spawn now eid (pool u) = (Inl e, p) \<Longrightarrow>
     pool_step u (u\<lparr>pool := p\<rparr>)"
| warm: "pool_is_warm env eid (pool u) = (b, p) \<Longrightarrow> pool_step u (u\<lparr>pool := p\<rparr>)"
| reaped: "pool_step u (u\<lparr>pool := pool_reap_idle env killed now (pool u)\<rparr>)"
| released: "r \<in> set (held u) \<Longrightarrow>
     pool_step u \<lparr>pool = pool_release env now r (pool u), held = remove1 r (held u)\<rparr>"
| used: "r \<in> set (held u) \<Longrightarrow> busy w = busy (processes (pool u) ! r) \<Longrightarrow>
     worker_engine_id w = worker_engine_id (processes (pool u) ! r) \<Longrightarrow>
     pool_step u (u\<lparr>pool := (pool u)\<lparr>processes := (processes (pool u))[r := w]\<rparr>\<rparr>)"
| shut: "pool_step u (u\<lparr>pool := pool_shutdown killed (pool u)\<rparr>)"

definition pool_start :: "WorkerPool \<Rightarrow> PoolUse" where
  "pool_start p = \<lparr>pool = p, held = []\<rparr>"

definition pool_reachable :: "WorkerPool \<Rightarrow> PoolUse \<Rightarrow> bool" where
  "pool_reachable p u \<longleftrightarrow> pool_step\<^sup>*\<^sup>* (pool_start p) u"

definition pool_inv :: "PoolUse \<Rightarrow> bool" where
  "pool_inv u \<longleftrightarrow>
     distinct (workers (pool u)) \<and> (\<forall>r \<in> set (workers (pool u)). r < length (processes (pool u)))
     \<and> distinct (held u) \<and> (\<forall>r \<in> set (held u). r < length (processes (pool u)))
     \<and> (\<forall>r \<in> set (workers (pool u)). busy (processes (pool u) ! r) \<longleftrightarrow> r \<in> set (held u))"

section \<open>Lemmas\<close>

lemma process_alive_columns:
  assumes "process_alive a w = (b, w')"
  shows "busy w' = busy w" "worker_engine_id w' = worker_engine_id w" "last_used_ms w' = last_used_ms w"
    and "b \<Longrightarrow> w' = w \<and> 0 \<le> pid w" and "\<not> b \<Longrightarrow> pid w' < 0"
  using assms by (auto simp: process_alive_def split: if_splits wait_result.splits)

lemma terminate_columns [simp]:
  "busy (terminate_process st w) = busy w"
  "worker_engine_id (terminate_process st w) = worker_engine_id w"
  "\<not> fds_open (terminate_process st w)" "pid (terminate_process st w) < 0"
  by (auto simp: terminate_process_def)

text \<open>What a scan over the references \<open>rs\<close> leaves of the objects.\<close>

definition scan_ok :: "nat list \<Rightarrow> WorkerProcess list \<Rightarrow> nat list \<Rightarrow> WorkerProcess list \<Rightarrow> nat option \<Rightarrow> bool" where
  "scan_ok rs ps ks ps' found \<longleftrightarrow>
     length ps' = length ps \<and> set ks \<subseteq> set rs \<and> distinct ks
     \<and> (\<forall>i. i \<notin> set rs \<longrightarrow> ps' ! i = ps ! i)
     \<and> (\<forall>i. worker_engine_id (ps' ! i) = worker_engine_id (ps ! i))
     \<and> (\<forall>i < length ps. busy (ps' ! i) \<longleftrightarrow> busy (ps ! i) \<or> found = Some i)"

lemma scan_ok_Nil: "scan_ok [] ps [] ps None"
  by (simp add: scan_ok_def)

lemma scan_ok_keep:
  assumes "scan_ok rs (ps[r := w]) ks ps' found" and "r \<notin> set rs" and "r < length ps"
    and "busy w = busy (ps ! r)" and "worker_engine_id w = worker_engine_id (ps ! r)"
  shows "scan_ok (r # rs) ps (r # ks) ps' found" "scan_ok (r # rs) ps ks ps' found"
  using assms by (auto simp: scan_ok_def nth_list_update split: if_splits)

lemma scan_ok_here:
  assumes "distinct (r # rs)" and "r < length ps"
    and "worker_engine_id w = worker_engine_id (ps ! r)"
    and "busy w \<longleftrightarrow> busy (ps ! r) \<or> found = Some r" and "found = None \<or> found = Some r"
  shows "scan_ok (r # rs) ps (r # rs) (ps[r := w]) found"
  using assms by (auto simp: scan_ok_def nth_list_update)

lemma acquire_scan_ok:
  assumes "acquire_scan env eid rs ps = (found, ks, ps')" and "distinct rs"
    and "\<forall>r \<in> set rs. r < length ps"
  shows "scan_ok rs ps ks ps' found
    \<and> (\<forall>r. found = Some r \<longrightarrow> r \<in> set ks \<and> \<not> busy (ps ! r) \<and> worker_engine_id (ps ! r) = eid
         \<and> 0 \<le> pid (ps' ! r))"
  using assms
proof (induction env eid rs ps arbitrary: found ks ps' rule: acquire_scan.induct)
  case (1 env eid ps)
  then show ?case by (simp add: scan_ok_Nil)
next
  case (2 env eid r rs ps)
  show ?case
  proof (cases "busy (ps ! r)")
    case True
    then obtain ks1 where scan: "acquire_scan env eid rs ps = (found, ks1, ps')" "ks = r # ks1"
      using 2(4) by (auto split: prod.splits)
    have ih: "scan_ok rs (ps[r := ps ! r]) ks1 ps' found" and found: "\<And>q. found = Some q \<Longrightarrow>
        q \<in> set ks1 \<and> \<not> busy (ps ! q) \<and> worker_engine_id (ps ! q) = eid \<and> 0 \<le> pid (ps' ! q)"
      using 2(1) [OF True scan(1)] 2(5,6) by auto
    have "scan_ok (r # rs) ps (r # ks1) ps' found"
      using 2(5,6) by (intro scan_ok_keep(1) [OF ih]) auto
    then show ?thesis
      using found scan(2) by auto
  next
    case False
    obtain b w where alive: "process_alive (env r) (ps ! r) = (b, w)"
      by fastforce
    note cols = process_alive_columns [OF alive]
    have rest: "distinct rs" "r \<notin> set rs" "r < length ps" "\<forall>q \<in> set rs. q < length (ps[r := w])"
      using 2(5,6) by auto
    consider (dead) "\<not> b" | (mine) "b" "worker_engine_id w = eid" | (other) "b" "worker_engine_id w \<noteq> eid"
      by blast
    then show ?thesis
    proof cases
      case dead
      then have scan: "acquire_scan env eid rs (ps[r := w]) = (found, ks, ps')"
        using 2(4) False alive by simp
      have ih: "scan_ok rs (ps[r := w]) ks ps' found" and found: "\<And>q. found = Some q \<Longrightarrow>
          q \<in> set ks \<and> \<not> busy (ps[r := w] ! q) \<and> worker_engine_id (ps[r := w] ! q) = eid \<and> 0 \<le> pid (ps' ! q)"
        using 2(3) [OF False alive [symmetric] _ scan rest(1,4)] dead by auto
      have same: "ps[r := w] ! q = ps ! q" if "q \<in> set ks" for q
        using ih that rest(2) by (intro nth_list_update_neq) (auto simp: scan_ok_def)
      show ?thesis
        using scan_ok_keep(2) [OF ih rest(2,3)] cols(1,2) found same by metis
    next
      case mine
      then have eqs: "found = Some r" "ks = r # rs" "ps' = ps[r := w\<lparr>busy := True\<rparr>]"
        using 2(4) False alive by auto
      have "scan_ok (r # rs) ps (r # rs) (ps[r := w\<lparr>busy := True\<rparr>]) (Some r)"
        using rest 2(5) cols(2) by (intro scan_ok_here) auto
      then show ?thesis
        using eqs mine cols False rest(3) by auto
    next
      case other
      then obtain ks1 where scan: "acquire_scan env eid rs (ps[r := w]) = (found, ks1, ps')" "ks = r # ks1"
        using 2(4) False alive by (auto split: prod.splits)
      have ih: "scan_ok rs (ps[r := w]) ks1 ps' found" and found: "\<And>q. found = Some q \<Longrightarrow>
          q \<in> set ks1 \<and> \<not> busy (ps[r := w] ! q) \<and> worker_engine_id (ps[r := w] ! q) = eid \<and> 0 \<le> pid (ps' ! q)"
        using 2(2) [OF False alive [symmetric] _ other(2) scan(1) rest(1,4)] other(1) by auto
      have same: "ps[r := w] ! q = ps ! q" if "q \<in> set ks1" for q
        using ih that rest(2) by (intro nth_list_update_neq) (auto simp: scan_ok_def)
      show ?thesis
        using scan_ok_keep(1) [OF ih rest(2,3)] cols(1,2) found same scan(2) by (metis list.set_intros(2))
    qed
  qed
qed

lemma warm_scan_ok:
  assumes "warm_scan env eid rs ps = (b, ks, ps')" and "distinct rs" and "\<forall>r \<in> set rs. r < length ps"
  shows "scan_ok rs ps ks ps' None
    \<and> (b \<longrightarrow> (\<exists>r \<in> set ks. worker_engine_id (ps' ! r) = eid \<and> 0 \<le> pid (ps' ! r)))"
  using assms
proof (induction env eid rs ps arbitrary: b ks ps' rule: warm_scan.induct)
  case (1 env eid ps)
  then show ?case by (simp add: scan_ok_Nil)
next
  case (2 env eid r rs ps)
  obtain a w where alive: "process_alive (env r) (ps ! r) = (a, w)"
    by fastforce
  note cols = process_alive_columns [OF alive]
  have rest: "distinct rs" "r \<notin> set rs" "r < length ps" "\<forall>q \<in> set rs. q < length (ps[r := w])"
    using 2(4,5) by auto
  consider (dead) "\<not> a" | (mine) "a" "worker_engine_id w = eid" | (other) "a" "worker_engine_id w \<noteq> eid"
    by blast
  then show ?case
  proof cases
    case dead
    then have scan: "warm_scan env eid rs (ps[r := w]) = (b, ks, ps')"
      using 2(3) alive by simp
    from 2(2) [OF alive [symmetric] _ scan rest(1,4)] dead show ?thesis
      using scan_ok_keep(2) [OF _ rest(2,3) cols(1,2)] by blast
  next
    case mine
    then have "b" "ks = r # rs" "ps' = ps[r := w]"
      using 2(3) alive by auto
    moreover have "scan_ok (r # rs) ps (r # rs) (ps[r := w]) None"
      using rest 2(4) cols(1,2) by (intro scan_ok_here) auto
    ultimately show ?thesis
      using mine cols rest(3) by auto
  next
    case other
    then obtain ks1 where scan: "warm_scan env eid rs (ps[r := w]) = (b, ks1, ps')" "ks = r # ks1"
      using 2(3) alive by (auto split: prod.splits)
    from 2(1) [OF alive [symmetric] _ other(2) scan(1) rest(1,4)] other show ?thesis
      using scan_ok_keep(1) [OF _ rest(2,3) cols(1,2)] scan(2) by auto
  qed
qed

lemma reap_scan_ok:
  assumes "reap_scan env killed now idle rs ps = (ks, ps')" and "distinct rs" and "\<forall>r \<in> set rs. r < length ps"
  shows "scan_ok rs ps ks ps' None
    \<and> (\<forall>r \<in> set rs. r \<in> set ks \<longleftrightarrow>
         fst (process_alive (env r) (ps ! r))
         \<and> (busy (ps ! r) \<or> sub_i64 now (last_used_ms (ps ! r)) < idle))
    \<and> (\<forall>r \<in> set rs. r \<in> set ks \<longrightarrow> ps' ! r = ps ! r)
    \<and> (\<forall>r \<in> set rs. r \<notin> set ks \<longrightarrow> pid (ps' ! r) < 0)"
  using assms
proof (induction env killed now idle rs ps arbitrary: ks ps' rule: reap_scan.induct)
  case (1 env killed now idle ps)
  then show ?case by (simp add: scan_ok_Nil)
next
  case (2 env killed now idle r rs ps)
  obtain a w where alive: "process_alive (env r) (ps ! r) = (a, w)"
    by fastforce
  note cols = process_alive_columns [OF alive]
  let ?expired = "\<not> busy w \<and> sub_i64 now (last_used_ms w) \<ge> idle"
  have rest: "distinct rs" "r \<notin> set rs" "r < length ps"
    "\<And>v. \<forall>q \<in> set rs. q < length (ps[r := v])"
    using 2(5,6) by auto
  have other: "q \<noteq> r" if "q \<in> set rs" for q
    using that rest(2) by auto
  have finish: ?case
    if sc: "scan_ok rs (ps[r := v]) ks1 ps' None" and v: "busy v = busy (ps ! r)"
      "worker_engine_id v = worker_engine_id (ps ! r)"
      and props: "\<forall>q \<in> set rs. q \<in> set ks1 \<longleftrightarrow> fst (process_alive (env q) (ps[r := v] ! q))
         \<and> (busy (ps[r := v] ! q) \<or> sub_i64 now (last_used_ms (ps[r := v] ! q)) < idle)"
        "\<forall>q \<in> set rs. q \<in> set ks1 \<longrightarrow> ps' ! q = ps[r := v] ! q"
        "\<forall>q \<in> set rs. q \<notin> set ks1 \<longrightarrow> pid (ps' ! q) < 0"
      and here: "ks = r # ks1 \<and> a \<and> \<not> ?expired \<and> v = ps ! r
         \<or> ks = ks1 \<and> (\<not> a \<or> ?expired) \<and> pid v < 0" for v ks1
  proof -
    have r: "ps' ! r = v" "r \<notin> set ks1"
      using sc rest(2,3) by (auto simp: scan_ok_def)
    have "scan_ok (r # rs) ps ks ps' None"
      using here scan_ok_keep [OF sc rest(2,3) v] by auto
    moreover have same: "ps[r := v] ! q = ps ! q" if "q \<in> set rs" for q
      using other [OF that] by simp
    moreover have "r \<in> set ks \<longleftrightarrow> fst (process_alive (env r) (ps ! r))
        \<and> (busy (ps ! r) \<or> sub_i64 now (last_used_ms (ps ! r)) < idle)"
      using here r(2) alive cols(1,3) by auto
    moreover have "r \<in> set ks \<longrightarrow> ps' ! r = ps ! r" "r \<notin> set ks \<longrightarrow> pid (ps' ! r) < 0"
      using here r by auto
    moreover have "q \<in> set ks \<longleftrightarrow> q \<in> set ks1" if "q \<in> set rs" for q
      using here other [OF that] by auto
    ultimately show ?thesis
      using props by simp
  qed
  consider (dead) "\<not> a" | (idle) "a" ?expired | (kept) "a" "\<not> ?expired"
    by blast
  then show ?case
  proof cases
    case dead
    then have scan: "reap_scan env killed now idle rs (ps[r := w]) = (ks, ps')"
      using 2(4) alive by simp
    show ?thesis
      using 2(3) [OF alive [symmetric] _ scan rest(1,4)] dead cols
      by (intro finish [of w ks]) auto
  next
    case idle
    let ?v = "terminate_process (killed r) w"
    have scan: "reap_scan env killed now idle rs (ps[r := ?v]) = (ks, ps')"
      using 2(4) alive idle by simp
    show ?thesis
      using 2(1) [OF alive [symmetric] _ idle(2) scan rest(1,4)] idle cols
      by (intro finish [of ?v ks]) auto
  next
    case kept
    then obtain ks1 where scan: "reap_scan env killed now idle rs (ps[r := w]) = (ks1, ps')" "ks = r # ks1"
      using 2(4) alive by (auto split: prod.splits)
    show ?thesis
      using 2(2) [OF alive [symmetric] _ kept(2) scan(1) rest(1,4)] kept cols scan(2)
      by (intro finish [of w ks1]) auto
  qed
qed

section \<open>The pool invariant\<close>

lemma scan_ok_inv:
  assumes "pool_inv u" and "scan_ok (workers (pool u)) (processes (pool u)) ks ps' None"
  shows "pool_inv (u\<lparr>pool := (pool u)\<lparr>workers := ks, processes := ps'\<rparr>\<rparr>)"
  using assms by (auto simp: pool_inv_def scan_ok_def subset_iff)

lemma pool_acquire_inv:
  assumes inv: "pool_inv u" and acq: "pool_acquire env spawn now eid (pool u) = (res, p)"
  shows "case res of
      Inl e \<Rightarrow> pool_inv (u\<lparr>pool := p\<rparr>)
    | Inr r \<Rightarrow> pool_inv \<lparr>pool = p, held = r # held u\<rparr> \<and> r \<notin> set (held u)
        \<and> r \<in> set (workers p) \<and> worker_engine_id (processes p ! r) = eid \<and> busy (processes p ! r)"
proof -
  let ?rs = "workers (pool u)" and ?ps = "processes (pool u)"
  obtain found ks ps where scan: "acquire_scan env eid ?rs ?ps = (found, ks, ps)"
    by (metis prod_cases3)
  have d: "distinct ?rs" "\<forall>r \<in> set ?rs. r < length ?ps"
    using inv by (simp_all add: pool_inv_def)
  note ok = acquire_scan_ok [OF scan d]
  show ?thesis
  proof (cases found)
    case None
    define u1 where "u1 = u\<lparr>pool := (pool u)\<lparr>workers := ks, processes := ps\<rparr>\<rparr>"
    have inv1: "pool_inv u1"
      using scan_ok_inv [OF inv] ok None by (simp add: u1_def)
    have held1: "held u1 = held u" "processes (pool u1) = ps" "workers (pool u1) = ks"
      by (simp_all add: u1_def)
    consider (fail) e where "res = Inl e" "p = pool u1"
      | (fresh) w launch where "res = Inr (length ps)" "make_process spawn launch eid now = Inr w"
          "p = (pool u1)\<lparr>workers := ks @ [length ps], processes := ps @ [w\<lparr>busy := True\<rparr>]\<rparr>"
      using acq scan None
      by (auto simp: pool_acquire_def u1_def Let_def split: option.splits sum.splits)
    then show ?thesis
    proof cases
      case fail
      then show ?thesis using inv1 by (simp add: u1_def)
    next
      case fresh
      have eid: "worker_engine_id w = eid"
        using fresh(2) by (auto simp: make_process_def bind_result_Inr_iff)
      have "length ps \<notin> set ks" "length ps \<notin> set (held u)"
        using inv1 unfolding pool_inv_def held1 by blast+
      then show ?thesis
        using inv1 fresh eid unfolding pool_inv_def held1
        by (auto simp: nth_append less_Suc_eq)
    qed
  next
    case (Some r)
    then have eqs: "res = Inr r" "p = (pool u)\<lparr>workers := ks, processes := ps\<rparr>"
      using acq scan by (simp_all add: pool_acquire_def)
    have r: "r \<in> set ks" "\<not> busy (?ps ! r)" "worker_engine_id (?ps ! r) = eid" "r \<in> set ?rs"
      using ok Some by (auto simp: scan_ok_def)
    then have "r \<notin> set (held u)"
      using inv by (auto simp: pool_inv_def)
    then show ?thesis
      using inv ok Some r by (auto simp: eqs pool_inv_def scan_ok_def subset_iff)
  qed
qed

lemma shutdown_processes:
  "length (fold (\<lambda>r ps. ps[r := terminate_process (killed r) (ps ! r)]) rs ps) = length ps"
  by (induction rs arbitrary: ps) simp_all

lemma pool_release_inv:
  assumes inv: "pool_inv u" and r: "r \<in> set (held u)"
  shows "pool_inv \<lparr>pool = pool_release env now r (pool u), held = remove1 r (held u)\<rparr>"
proof -
  let ?w = "(processes (pool u) ! r)\<lparr>busy := False, last_used_ms := now\<rparr>"
  obtain b w where alive: "process_alive (env r) ?w = (b, w)"
    by fastforce
  have "\<not> busy w"
    using process_alive_columns(1) [OF alive] by simp
  then show ?thesis
    using inv r alive
    by (cases b) (auto simp: pool_release_def pool_inv_def nth_list_update dest: notin_set_remove1)
qed

lemma pool_step_inv: "pool_step u u' \<Longrightarrow> pool_inv u \<Longrightarrow> pool_inv u'"
proof (induction rule: pool_step.induct)
  case (acquired env spawn now eid u r p)
  then show ?case using pool_acquire_inv [of u env spawn now eid "Inr r" p] by simp
next
  case (not_acquired env spawn now eid u e p)
  then show ?case using pool_acquire_inv [of u env spawn now eid "Inl e" p] by simp
next
  case (warm env eid u b p)
  then show ?case
    using warm_scan_ok [of env eid "workers (pool u)" "processes (pool u)"] scan_ok_inv [of u]
    by (auto simp: pool_is_warm_def pool_inv_def [of u] split: prod.splits)
next
  case (reaped u env killed now)
  then show ?case
    using reap_scan_ok [of env killed now "idle_timeout_ms (pool u)" "workers (pool u)" "processes (pool u)"]
      scan_ok_inv [of u]
    by (auto simp: pool_reap_idle_def pool_inv_def [of u] split: prod.splits)
next
  case (released r u env now)
  then show ?case by (simp add: pool_release_inv)
next
  case (used r u w)
  then show ?case by (auto simp: pool_inv_def nth_list_update)
next
  case (shut u killed)
  then show ?case by (simp add: pool_inv_def pool_shutdown_def shutdown_processes)
qed

interpretation pool_uses: step_system pool_step "\<lambda>u. \<exists>specs idle p. new_pool specs idle = Inr p \<and> u = pool_start p" pool_inv
proof
  show "pool_inv u" if "\<exists>specs idle p. new_pool specs idle = Inr p \<and> u = pool_start p" for u
    using that by (auto simp: new_pool_def pool_start_def pool_inv_def split: if_splits)
qed (rule pool_step_inv)

lemma pool_reachable_inv:
  assumes "new_pool specs idle = Inr p" and "pool_reachable p u"
  shows "pool_inv u"
  using assms pool_uses.reachable_invar [of "pool_start p" u] by (auto simp: pool_reachable_def)

lemma acquire_scan_reuses:
  assumes "r \<in> set rs" and "distinct rs" and "\<forall>q \<in> set rs. q < length ps" and "\<not> busy (ps ! r)"
    and "worker_engine_id (ps ! r) = eid" and "fst (process_alive (env r) (ps ! r))"
  shows "fst (acquire_scan env eid rs ps) \<noteq> None"
  using assms
proof (induction env eid rs ps rule: acquire_scan.induct)
  case (2 env eid q rs ps)
  obtain b w where alive: "process_alive (env q) (ps ! q) = (b, w)"
    by fastforce
  note cols = process_alive_columns [OF alive]
  show ?case
  proof (cases "r = q")
    case True
    then show ?thesis using alive cols 2 by auto
  next
    case False
    then have "r \<in> set rs" "distinct rs" and ps: "ps[q := w] ! r = ps ! r"
      "\<forall>q' \<in> set rs. q' < length (ps[q := w])"
      using 2 by auto
    then show ?thesis
      using 2 False alive
      by (cases b) (auto split: prod.splits)
  qed
qed simp

lemma shutdown_terminates:
  "r \<in> set rs \<Longrightarrow> r < length ps \<Longrightarrow>
     pid (fold (\<lambda>r ps. ps[r := terminate_process (killed r) (ps ! r)]) rs ps ! r) < 0
     \<and> \<not> fds_open (fold (\<lambda>r ps. ps[r := terminate_process (killed r) (ps ! r)]) rs ps ! r)"
proof (induction rs arbitrary: ps rule: rev_induct)
  case (snoc q rs)
  then show ?case
    by (cases "q = r") (auto simp: shutdown_processes)
qed simp

section \<open>Properties\<close>

text \<open>A pool that may launch one engine, and an environment that answers.\<close>

definition sample_launches :: "(string, WorkerLaunchSpec) std_assoc" where
  "sample_launches = [(''e'', \<lparr>executable = ''/bin/worker'', arguments = [''--fast'']\<rparr>)]"

definition sample_pool :: WorkerPool where
  "sample_pool = \<lparr>launch_specs = sample_launches, idle_timeout_ms = 100, workers = [], processes = []\<rparr>"

definition sample_spawn :: "string \<Rightarrow> string list \<Rightarrow> int result" where
  "sample_spawn exe argv = Inr 4711"

definition sample_worker :: WorkerProcess where
  "sample_worker = \<lparr>worker_engine_id = ''e'', response_reader = [], pid = 4711, last_wait_status = None,
     fds_open = True, busy = True, last_used_ms = 10\<rparr>"

lemma sample_pool_new: "new_pool sample_launches 100 = Inr sample_pool"
  by (simp add: new_pool_def sample_launches_def sample_pool_def)

lemma sample_acquire:
  "pool_acquire (\<lambda>_. Running) sample_spawn 10 ''e'' sample_pool =
     (Inr 0, sample_pool\<lparr>workers := [0], processes := [sample_worker]\<rparr>)"
  by (simp add: pool_acquire_def sample_pool_def sample_launches_def make_process_def sample_spawn_def
      sample_worker_def Let_def)

definition sample_use :: PoolUse where
  "sample_use = \<lparr>pool = sample_pool\<lparr>workers := [0], processes := [sample_worker]\<rparr>, held = [0]\<rparr>"

lemma sample_use_reachable: "pool_reachable sample_pool sample_use"
  using pool_step.acquired [of "\<lambda>_. Running" sample_spawn 10 "''e''" "pool_start sample_pool" 0]
    sample_acquire
  by (simp add: pool_reachable_def pool_start_def sample_use_def)

text \<open>
  C14: No worker process serves two attempts: whatever happened to the pool, an acquired worker is
  held by no other lease, runs the engine that was asked for, is marked busy and is in the pool;
  the leases in use hold pairwise different workers.
\<close>

theorem worker_leased_exclusively:
  assumes "new_pool specs idle = Inr p" and "pool_reachable p u"
    and "pool_acquire env spawn now eid (pool u) = (Inr r, p')"
  shows "r \<notin> set (held u) \<and> distinct (r # held u) \<and> r \<in> set (workers p')
    \<and> worker_engine_id (processes p' ! r) = eid \<and> busy (processes p' ! r)"
  using pool_acquire_inv [OF pool_reachable_inv [OF assms(1,2)] assms(3)]
  by (simp add: pool_inv_def)

theorem worker_leased_exclusively_witness:
  "\<exists>r p'. pool_acquire (\<lambda>_. Running) sample_spawn 20 ''e'' (pool sample_use) = (Inr r, p') \<and> r \<noteq> 0"
proof -
  obtain r p' where acq: "pool_acquire (\<lambda>_. Running) sample_spawn 20 ''e'' (pool sample_use) = (Inr r, p')"
    by (simp add: sample_use_def pool_acquire_def sample_pool_def sample_launches_def make_process_def
        sample_spawn_def sample_worker_def Let_def)
  from worker_leased_exclusively [OF sample_pool_new sample_use_reachable acq]
  have "r \<noteq> 0" by (simp add: sample_use_def)
  with acq show ?thesis by blast
qed

text \<open>
  C33: The idle sweep keeps exactly the workers whose process lives and which are busy or were used
  within the idle timeout, keeps their objects as they are, and what it drops has no process and
  no reference in the pool; it never ends a worker that an attempt holds.
\<close>

theorem reap_idle_exact:
  assumes "new_pool specs idle = Inr p" and "pool_reachable p u" and "r \<in> set (workers (pool u))"
  shows "let w = processes (pool u) ! r; p' = pool_reap_idle env killed now (pool u)
    in (r \<in> set (workers p') \<longleftrightarrow>
          fst (process_alive (env r) w)
          \<and> (r \<in> set (held u) \<or> sub_i64 now (last_used_ms w) < idle_timeout_ms (pool u)))
       \<and> (if r \<in> set (workers p') then processes p' ! r = w else pid (processes p' ! r) < 0)"
proof -
  have inv: "pool_inv u"
    by (rule pool_reachable_inv [OF assms(1,2)])
  obtain ks ps where scan: "reap_scan env killed now (idle_timeout_ms (pool u)) (workers (pool u))
      (processes (pool u)) = (ks, ps)"
    by fastforce
  have "busy (processes (pool u) ! r) \<longleftrightarrow> r \<in> set (held u)"
    using inv assms(3) by (simp add: pool_inv_def)
  then show ?thesis
    using reap_scan_ok [OF scan] inv assms(3)
    by (simp add: pool_reap_idle_def scan Let_def pool_inv_def)
qed

theorem reap_idle_exact_witness:
  "0 \<in> set (workers (pool_reap_idle (\<lambda>_. Running) (\<lambda>_. 9) 100000 (pool sample_use)))"
  using reap_idle_exact [OF sample_pool_new sample_use_reachable, of 0 "\<lambda>_. Running" "\<lambda>_. 9" 100000]
  by (simp add: sample_use_def sample_worker_def process_alive_def Let_def)

text \<open>
  A warm worker is reused: while the pool has a live idle worker of an engine, acquiring that
  engine starts no process.
\<close>

lemma acquire_reuses_warm_worker:
  assumes "new_pool specs idle = Inr p" and "pool_reachable p u" and "r \<in> set (workers (pool u))"
    and "r \<notin> set (held u)" and "worker_engine_id (processes (pool u) ! r) = eid"
    and "fst (process_alive (env r) (processes (pool u) ! r))"
  shows "\<exists>q p'. pool_acquire env spawn now eid (pool u) = (Inr q, p')
    \<and> length (processes p') = length (processes (pool u)) \<and> q \<in> set (workers (pool u))"
proof -
  have inv: "pool_inv u"
    by (rule pool_reachable_inv [OF assms(1,2)])
  obtain found ks ps where scan: "acquire_scan env eid (workers (pool u)) (processes (pool u)) = (found, ks, ps)"
    by (metis prod_cases3)
  have "found \<noteq> None"
    using acquire_scan_reuses [of r "workers (pool u)" "processes (pool u)" eid env] inv assms(3-6) scan
    by (simp add: pool_inv_def)
  then show ?thesis
    using acquire_scan_ok [OF scan] inv scan
    by (auto simp: pool_acquire_def pool_inv_def scan_ok_def)
qed

text \<open>
  After a shutdown the pool is empty and every worker it had is ended, its descriptors closed,
  whether it was idle or busy.
\<close>

lemma shutdown_ends_all:
  assumes "new_pool specs idle = Inr p" and "pool_reachable p u" and "r \<in> set (workers (pool u))"
  shows "let p' = pool_shutdown killed (pool u)
    in workers p' = [] \<and> pid (processes p' ! r) < 0 \<and> \<not> fds_open (processes p' ! r)"
  using shutdown_terminates [OF assms(3), of "processes (pool u)" killed]
    pool_reachable_inv [OF assms(1,2)] assms(3)
  by (simp add: pool_shutdown_def pool_inv_def Let_def)

end
