(* ===== verification/Worker_Execute.thy ===== *)
theory Worker_Execute
  imports Workers
begin

text \<open>
  One attempt on a worker process: \<open>WorkerProcess::execute\<close> of
  \<open>kernel/src/worker_runtime.cpp\<close> (the POSIX branches).

  Each round of the writing loop and of the reading loop asks its environment several questions:
  is the Kernel stopping, is the Work cancelled (a query of the store, which may throw), what
  time is it, does the process live, what does the system call answer. A turn is a record of the
  answers of one round. The loops recurse over the list of turns; a list that ends before the
  loop does gives \<open>Blocked\<close>, the call that has not returned yet.
\<close>

section \<open>Outcomes\<close>

datatype WorkerOutcomeKind =
  Succeeded | TechnicalFailure | Crashed | Cancelled | TimedOut | Stopped

record WorkerOutcome =
  outcome_kind :: WorkerOutcomeKind
  outcome_payload :: "byte list"
  technical_failure_text :: string

definition outcome :: "WorkerOutcomeKind \<Rightarrow> string \<Rightarrow> WorkerOutcome" where
  "outcome k m = \<lparr>outcome_kind = k, outcome_payload = [], technical_failure_text = m\<rparr>"

text \<open>The wait status as the macros \<open>WIFEXITED\<close>, \<open>WIFSIGNALED\<close> of the C library read it.\<close>

definition wait_status_description :: "int \<Rightarrow> string" where
  "wait_status_description status =
     (if status mod 128 = 0 then ''exit code '' @ string_of_int (status div 256 mod 256)
      else if status mod 128 \<noteq> 127 then ''signal '' @ string_of_int (status mod 128)
      else ''unknown process termination'')"

definition exit_description :: "WorkerProcess \<Rightarrow> string" where
  "exit_description w =
     (case last_wait_status w of
        Some status \<Rightarrow> wait_status_description status
      | None \<Rightarrow> ''worker process exited'')"

definition crash_outcome :: "WorkerProcess \<Rightarrow> WorkerOutcome" where
  "crash_outcome w = outcome Crashed (''WORKER_CRASH: '' @ exit_description w)"

section \<open>The call and its environment\<close>

record exec_call =
  call_correlation :: u64
  call_stop_at :: "i64 option"
  call_timeout_wins :: bool
  call_kill_status :: int

datatype write_answer = Wrote nat | WriteRetry | WriteFailed string

record write_turn =
  wt_stopping :: bool
  wt_cancelled :: "bool result"
  wt_now :: i64
  wt_wait :: wait_result
  wt_write :: write_answer
  wt_wait_failed :: wait_result
  wt_poll_error :: "string option"

record read_turn =
  rt_arrived :: "read_event list"
  rt_wait_failed :: wait_result
  rt_stopping :: bool
  rt_cancelled :: "bool result"
  rt_now :: i64
  rt_late :: "read_event list"
  rt_wait_late :: wait_result
  rt_wait :: wait_result
  rt_poll_error :: "string option"

definition end_process :: "exec_call \<Rightarrow> WorkerProcess \<Rightarrow> WorkerProcess" where
  "end_process call w = terminate_process (call_kill_status call) w"

definition stop_reached :: "exec_call \<Rightarrow> i64 \<Rightarrow> bool" where
  "stop_reached call now = (case call_stop_at call of None \<Rightarrow> False | Some t \<Rightarrow> now \<ge> t)"

definition timeout_outcome :: "exec_call \<Rightarrow> WorkerOutcome" where
  "timeout_outcome call =
     outcome TimedOut
       (if call_timeout_wins call then ''ATTEMPT_TIMEOUT: per-attempt timeout expired''
        else ''DEADLINE_EXPIRED: Work deadline expired during attempt'')"

section \<open>Writing the request\<close>

text \<open>The result \<open>Return None\<close> means that the whole request is written.\<close>

fun write_loop ::
    "exec_call \<Rightarrow> byte list \<Rightarrow> write_turn list \<Rightarrow> WorkerProcess \<Rightarrow>
     WorkerOutcome option io \<times> WorkerProcess \<times> byte list" where
  "write_loop call [] ts w = (Return None, w, [])"
| "write_loop call (b # bs) [] w = (Blocked, w, [])"
| "write_loop call (b # bs) (t # ts) w =
     (if wt_stopping t then (Return (Some (outcome Stopped [])), end_process call w, [])
      else case wt_cancelled t of
        Inl e \<Rightarrow> (Throw e, w, [])
      | Inr True \<Rightarrow> (Return (Some (outcome Cancelled ''cancelled'')), end_process call w, [])
      | Inr False \<Rightarrow>
          if stop_reached call (wt_now t)
          then (Return (Some (timeout_outcome call)), end_process call w, [])
          else case process_alive (wt_wait t) w of
            (False, w1) \<Rightarrow> (Return (Some (crash_outcome w1)), w1, [])
          | (True, w1) \<Rightarrow>
              (let poll = (case wt_poll_error t of
                     Some m \<Rightarrow> (Return (Some (outcome Crashed
                         (''WORKER_IPC_FAILURE: request poll failed: '' @ m))), end_process call w1, [])
                   | None \<Rightarrow> write_loop call (b # bs) ts w1)
               in case wt_write t of
                    Wrote n \<Rightarrow>
                      if n > 0
                      then (case write_loop call (drop n (b # bs)) ts w1 of
                              (r, w2, sent) \<Rightarrow> (r, w2, take n (b # bs) @ sent))
                      else poll
                  | WriteRetry \<Rightarrow> poll
                  | WriteFailed m \<Rightarrow>
                      (case process_alive (wt_wait_failed t) w1 of
                         (False, w2) \<Rightarrow> (Return (Some (crash_outcome w2)), w2, [])
                       | (True, w2) \<Rightarrow>
                           (Return (Some (outcome Crashed
                              (''WORKER_IPC_FAILURE: request write failed: '' @ m))), end_process call w2, []))))"

section \<open>Reading the answer\<close>

definition finish_response :: "exec_call \<Rightarrow> Frame \<Rightarrow> WorkerProcess \<Rightarrow> WorkerOutcome \<times> WorkerProcess" where
  "finish_response call f w =
     (if correlation_id f \<noteq> call_correlation call
      then (outcome TechnicalFailure ''WORKER_PROTOCOL_FAILURE: correlation id mismatch'', end_process call w)
      else if frame_type f = WorkerResult
      then (\<lparr>outcome_kind = Succeeded, outcome_payload = payload f, technical_failure_text = []\<rparr>, w)
      else if frame_type f = WorkerFailure
      then (outcome TechnicalFailure
              (case map_of (metadata f) ''technical_failure'' of
                 None \<Rightarrow> ''WORKER_PROTOCOL_FAILURE: missing technical failure''
               | Some m \<Rightarrow> m), w)
      else (outcome TechnicalFailure ''WORKER_PROTOCOL_FAILURE: unexpected worker response'',
            end_process call w))"

text \<open>One call of \<open>read_available\<close> with the handling of its exception, as at each of its three sites.\<close>

definition poll_response ::
    "exec_call \<Rightarrow> wait_result \<Rightarrow> read_event list \<Rightarrow> WorkerProcess \<Rightarrow>
     WorkerOutcome option \<times> WorkerProcess \<times> read_event list" where
  "poll_response call wait pipe w =
     (case read_available (response_reader w) pipe of
        (Inl e, buf, rest) \<Rightarrow>
          (case process_alive wait (w\<lparr>response_reader := buf\<rparr>) of
             (False, w1) \<Rightarrow> (Some (crash_outcome w1), w1, rest)
           | (True, w1) \<Rightarrow>
               (Some (outcome TechnicalFailure (''WORKER_PROTOCOL_FAILURE: '' @ what e)),
                end_process call w1, rest))
      | (Inr None, buf, rest) \<Rightarrow> (None, w\<lparr>response_reader := buf\<rparr>, rest)
      | (Inr (Some f), buf, rest) \<Rightarrow>
          (case finish_response call f (w\<lparr>response_reader := buf\<rparr>) of
             (out, w1) \<Rightarrow> (Some out, w1, rest)))"

text \<open>\<open>pipe\<close> is what the worker has written and the Kernel has not read yet.\<close>

fun read_loop ::
    "exec_call \<Rightarrow> read_event list \<Rightarrow> read_turn list \<Rightarrow> WorkerProcess \<Rightarrow>
     WorkerOutcome io \<times> WorkerProcess \<times> read_event list" where
  "read_loop call pipe [] w = (Blocked, w, pipe)"
| "read_loop call pipe (t # ts) w =
     (case poll_response call (rt_wait_failed t) (pipe @ rt_arrived t) w of
        (Some out, w1, rest) \<Rightarrow> (Return out, w1, rest)
      | (None, w1, rest) \<Rightarrow>
          if rt_stopping t then (Return (outcome Stopped []), end_process call w1, rest)
          else case rt_cancelled t of
            Inl e \<Rightarrow> (Throw e, w1, rest)
          | Inr True \<Rightarrow>
              (case poll_response call (rt_wait_late t) (rest @ rt_late t) w1 of
                 (Some out, w2, rest2) \<Rightarrow> (Return out, w2, rest2)
               | (None, w2, rest2) \<Rightarrow> (Return (outcome Cancelled ''cancelled''), end_process call w2, rest2))
          | Inr False \<Rightarrow>
              if stop_reached call (rt_now t) then
                (case poll_response call (rt_wait_late t) (rest @ rt_late t) w1 of
                   (Some out, w2, rest2) \<Rightarrow> (Return out, w2, rest2)
                 | (None, w2, rest2) \<Rightarrow> (Return (timeout_outcome call), end_process call w2, rest2))
              else case process_alive (rt_wait t) w1 of
                (False, w2) \<Rightarrow> (Return (crash_outcome w2), w2, rest)
              | (True, w2) \<Rightarrow>
                  (case rt_poll_error t of
                     Some m \<Rightarrow> (Return (outcome Crashed (''WORKER_IPC_FAILURE: poll failed: '' @ m)),
                                end_process call w2, rest)
                   | None \<Rightarrow> read_loop call rest ts w2))"

section \<open>The whole attempt\<close>

definition execute_request :: "WorkerProcess \<Rightarrow> u64 \<Rightarrow> i64 \<Rightarrow> byte list \<Rightarrow> Frame" where
  "execute_request w correlation started payload_bytes =
     \<lparr>frame_type = WorkerExecute, correlation_id = correlation,
      metadata = map_assign_all [(''engine_id'', worker_engine_id w),
                                 (''attempt_started_at_ms'', string_of_int started)] [],
      payload = payload_bytes\<rparr>"

record exec_env =
  env_wait :: wait_result
  env_writes :: "write_turn list"
  env_pipe :: "read_event list"
  env_reads :: "read_turn list"

definition process_execute ::
    "exec_call \<Rightarrow> exec_env \<Rightarrow> byte list \<Rightarrow> i64 \<Rightarrow> WorkerProcess \<Rightarrow>
     WorkerOutcome io \<times> WorkerProcess \<times> byte list" where
  "process_execute call env payload_bytes started w =
     (case process_alive (env_wait env) w of
        (False, w1) \<Rightarrow> (Return (crash_outcome w1), w1, [])
      | (True, w1) \<Rightarrow>
          (case encode_frame (execute_request w1 (call_correlation call) started payload_bytes) of
             Inl e \<Rightarrow> (Return (outcome TechnicalFailure (''WORKER_PROTOCOL_FAILURE: '' @ what e)),
                       end_process call w1, [])
           | Inr request \<Rightarrow>
               (case write_loop call request (env_writes env) w1 of
                  (Return (Some out), w2, sent) \<Rightarrow> (Return out, w2, sent)
                | (Throw e, w2, sent) \<Rightarrow> (Throw e, w2, sent)
                | (Blocked, w2, sent) \<Rightarrow> (Blocked, w2, sent)
                | (Return None, w2, sent) \<Rightarrow>
                    (case read_loop call (env_pipe env) (env_reads env) w2 of
                       (r, w3, _) \<Rightarrow> (r, w3, sent)))))"

text \<open>\<open>Lease::execute\<close>: a moved-from lease has no worker.\<close>

definition lease_execute ::
    "exec_call \<Rightarrow> exec_env \<Rightarrow> byte list \<Rightarrow> i64 \<Rightarrow> nat option \<Rightarrow> WorkerPool \<Rightarrow>
     WorkerOutcome io \<times> WorkerPool" where
  "lease_execute call env payload_bytes started lease p =
     (case lease of
        None \<Rightarrow> (Throw (RuntimeError ''worker lease is empty''), p)
      | Some r \<Rightarrow>
          (case process_execute call env payload_bytes started (processes p ! r) of
             (out, w, _) \<Rightarrow> (out, p\<lparr>processes := (processes p)[r := w]\<rparr>)))"

section \<open>What an ended attempt leaves\<close>

definition answers :: "exec_call \<Rightarrow> Frame \<Rightarrow> WorkerOutcome \<Rightarrow> bool" where
  "answers call f out \<longleftrightarrow> correlation_id f = call_correlation call
     \<and> (frame_type f = WorkerResult
          \<and> out = \<lparr>outcome_kind = Succeeded, outcome_payload = payload f, technical_failure_text = []\<rparr>
        \<or> frame_type f = WorkerFailure \<and> outcome_kind out = TechnicalFailure)"

text \<open>A worker that still lives, and a success, come with an answer read to its last byte.\<close>

definition justified :: "exec_call \<Rightarrow> WorkerOutcome \<Rightarrow> WorkerProcess \<Rightarrow> bool" where
  "justified call out w \<longleftrightarrow>
     (0 \<le> pid w \<or> outcome_kind out = Succeeded \<longrightarrow>
      (\<exists>buf f. take_frame buf = (Inr (Some f), response_reader w) \<and> answers call f out))"

lemma end_process_pid [simp]: "pid (end_process call w) < 0" "\<not> 0 \<le> pid (end_process call w)"
  using terminate_columns(4) [of "call_kill_status call" w] by (auto simp: end_process_def simp del: terminate_columns)

text \<open>The columns of a worker object that belong to the pool; an attempt keeps them.\<close>

definition pool_columns :: "WorkerProcess \<Rightarrow> bool \<times> string" where
  "pool_columns w = (busy w, worker_engine_id w)"

lemma alive_pool_columns: "process_alive a w = (b, w') \<Longrightarrow> pool_columns w' = pool_columns w"
  using process_alive_columns(1,2) by (simp add: pool_columns_def)

lemma pool_columns_simps [simp]:
  "pool_columns (end_process call w) = pool_columns w"
  "pool_columns (w\<lparr>response_reader := buf\<rparr>) = pool_columns w"
  by (simp_all add: pool_columns_def end_process_def)

lemma outcome_kind_outcome [simp]: "outcome_kind (outcome k m) = k"
  by (simp add: outcome_def)

lemma crash_kind [simp]: "outcome_kind (crash_outcome w) = Crashed"
  by (simp add: crash_outcome_def)

lemma timeout_kind [simp]: "outcome_kind (timeout_outcome call) = TimedOut"
  by (simp add: timeout_outcome_def)

lemma justified_ended: "pid w < 0 \<Longrightarrow> outcome_kind out \<noteq> Succeeded \<Longrightarrow> justified call out w"
  by (simp add: justified_def)

lemma process_alive_dead: "process_alive a w = (False, w') \<Longrightarrow> pid w' < 0"
  by (auto simp: process_alive_def split: if_splits wait_result.splits)

lemma read_available_frame:
  "read_available buf es = (Inr (Some f), buf', rest) \<Longrightarrow> \<exists>b. take_frame b = (Inr (Some f), buf')"
  by (auto simp: read_available_def split: prod.splits option.splits)

lemma finish_response_justified:
  assumes frame: "take_frame buf = (Inr (Some f), response_reader w)"
    and fin: "finish_response call f w = (out, w')"
  shows "justified call out w'"
proof (cases "correlation_id f = call_correlation call
    \<and> (frame_type f = WorkerResult \<or> frame_type f = WorkerFailure)")
  case True
  then have "w' = w" and "answers call f out"
    using fin by (auto simp: finish_response_def answers_def split: if_splits)
  then show ?thesis
    using frame by (auto simp: justified_def)
next
  case False
  then show ?thesis
    using fin by (intro justified_ended) (auto simp: finish_response_def split: if_splits)
qed

lemma poll_response_justified:
  assumes "poll_response call wait pipe w = (Some out, w', rest)"
  shows "justified call out w' \<and> outcome_kind out \<noteq> TimedOut \<and> outcome_kind out \<noteq> Stopped"
proof (cases "read_available (response_reader w) pipe")
  case (fields r buf rest')
  show ?thesis
  proof (cases r)
    case (Inl e)
    then show ?thesis
      using assms fields
      by (auto simp: poll_response_def intro!: justified_ended dest: process_alive_dead
          split: prod.splits bool.splits)
  next
    case (Inr fo)
    then obtain f where f: "fo = Some f"
      using assms fields by (cases fo) (auto simp: poll_response_def)
    then obtain b where b: "take_frame b = (Inr (Some f), response_reader (w\<lparr>response_reader := buf\<rparr>))"
      using read_available_frame fields Inr by fastforce
    have fin: "finish_response call f (w\<lparr>response_reader := buf\<rparr>) = (out, w')"
      using assms fields Inr f by (auto simp: poll_response_def split: prod.splits)
    moreover have "outcome_kind out \<noteq> TimedOut \<and> outcome_kind out \<noteq> Stopped"
      using fin by (auto simp: finish_response_def split: if_splits)
    ultimately show ?thesis
      using finish_response_justified [OF b fin] by simp
  qed
qed

lemma write_loop_round:
  obtains (ended) out w' where "write_loop call (b # bs) (t # ts) w = (Return (Some out), w', [])"
      "pid w' < 0" "outcome_kind out \<noteq> Succeeded"
      "pool_columns (fst (snd (write_loop call (b # bs) (t # ts) w))) = pool_columns w"
      "outcome_kind out = TimedOut \<Longrightarrow> out = timeout_outcome call \<and> stop_reached call (wt_now t)"
      "outcome_kind out = Stopped \<Longrightarrow> wt_stopping t"
  | (thrown) e where "write_loop call (b # bs) (t # ts) w = (Throw e, w, [])"
  | (waited) w1 where "write_loop call (b # bs) (t # ts) w = write_loop call (b # bs) ts w1"
      "pool_columns w1 = pool_columns w"
      "\<not> stop_reached call (wt_now t)"
  | (wrote) n w1 where "n > 0" "\<not> stop_reached call (wt_now t)" "pool_columns w1 = pool_columns w"
      "write_loop call (b # bs) (t # ts) w =
        (case write_loop call (drop n (b # bs)) ts w1 of (r, w2, sent) \<Rightarrow> (r, w2, take n (b # bs) @ sent))"
proof (cases "wt_stopping t")
  case True
  then show ?thesis by (intro ended) auto
next
  case run: False
  show ?thesis
  proof (cases "wt_cancelled t")
    case (Inl e)
    with run show ?thesis by (intro thrown) auto
  next
    case (Inr c)
    show ?thesis
    proof (cases "c \<or> stop_reached call (wt_now t)")
      case True
      then show ?thesis
        using run Inr by (cases c; intro ended) auto
    next
      case go: False
      obtain a w1 where alive: "process_alive (wt_wait t) w = (a, w1)"
        by fastforce
      note cols = alive_pool_columns [OF alive]
      show ?thesis
      proof (cases a)
        case False
        with run Inr go alive cols process_alive_dead [of "wt_wait t" w w1] show ?thesis
          by (intro ended) auto
      next
        case True
        have poll: thesis if "wt_write t = Wrote 0 \<or> wt_write t = WriteRetry"
        proof (cases "wt_poll_error t")
          case None
          with that run Inr go alive cols True show ?thesis
            by (intro waited [of w1]) auto
        next
          case (Some m)
          with that run Inr go alive cols True show ?thesis
            by (intro ended) auto
        qed
        show ?thesis
        proof (cases "wt_write t")
          case (Wrote n)
          then show ?thesis
            using poll run Inr go alive cols True by (cases "n = 0") (auto intro!: wrote [of n w1])
        next
          case WriteRetry
          then show ?thesis using poll by simp
        next
          case (WriteFailed m)
          obtain a2 w2 where alive2: "process_alive (wt_wait_failed t) w1 = (a2, w2)"
            by fastforce
          then show ?thesis
            using run Inr go alive cols True WriteFailed process_alive_dead [of "wt_wait_failed t" w1 w2]
              alive_pool_columns [OF alive2]
            by (cases a2; intro ended) auto
        qed
      qed
    qed
  qed
qed

lemma write_loop_Nil: "write_loop call [] ts w = (Return None, w, [])"
  "write_loop call (b # bs) [] w = (Blocked, w, [])"
  by simp_all

declare write_loop.simps [simp del] write_loop_Nil [simp]

lemma write_loop_ended:
  "write_loop call bs ts w = (Return (Some out), w', sent) \<Longrightarrow>
     pid w' < 0 \<and> outcome_kind out \<noteq> Succeeded
     \<and> (outcome_kind out = TimedOut \<longrightarrow> out = timeout_outcome call
          \<and> (\<exists>t \<in> set ts. stop_reached call (wt_now t)))"
proof (induction ts arbitrary: bs w out w' sent)
  case Nil
  then show ?case by (cases bs) auto
next
  case (Cons t ts)
  show ?case
  proof (cases bs)
    case bs: (Cons b bs')
    show ?thesis
    proof (cases rule: write_loop_round [where call = call and b = b and bs = bs' and t = t and ts = ts and w = w])
      case (wrote n w1)
      obtain sent1 where "write_loop call (drop n bs) ts w1 = (Return (Some out), w', sent1)"
        using Cons.prems wrote(4) unfolding bs by (auto split: prod.splits)
      then show ?thesis
        using Cons.IH [of "drop n bs" w1] by auto
    next
      case (waited w1)
      then show ?thesis
        using Cons.IH [of bs w1 out w' sent] Cons.prems by (auto simp: bs)
    qed (use Cons.prems bs in auto)
  qed (use Cons.prems in simp)
qed

lemma write_loop_sends:
  "write_loop call bs ts w = (r, w', sent) \<Longrightarrow>
     (\<exists>rest. bs = sent @ rest) \<and> (r = Return None \<longrightarrow> sent = bs)"
proof (induction ts arbitrary: bs w r w' sent)
  case Nil
  then show ?case by (cases bs) auto
next
  case (Cons t ts)
  show ?case
  proof (cases bs)
    case bs: (Cons b bs')
    show ?thesis
    proof (cases rule: write_loop_round [where call = call and b = b and bs = bs' and t = t and ts = ts and w = w])
      case (wrote n w1)
      obtain sent1 where rest: "write_loop call (drop n bs) ts w1 = (r, w', sent1)" "sent = take n bs @ sent1"
        using Cons.prems wrote(4) unfolding bs by (auto split: prod.splits)
      then show ?thesis
        using Cons.IH [OF rest(1)] by (metis append_take_drop_id append_assoc)
    next
      case (waited w1)
      then show ?thesis
        using Cons.IH [of bs w1 r w' sent] Cons.prems by (simp add: bs)
    qed (use Cons.prems bs in auto)
  qed (use Cons.prems in simp)
qed

lemma write_loop_stops:
  "\<exists>t \<in> set ts. stop_reached call (wt_now t) \<Longrightarrow> fst (write_loop call bs ts w) \<noteq> Blocked"
proof (induction ts arbitrary: bs w)
  case (Cons t ts)
  show ?case
  proof (cases bs)
    case bs: (Cons b bs')
    show ?thesis
      unfolding bs using Cons
      by (cases rule: write_loop_round [where call = call and b = b and bs = bs' and t = t and ts = ts and w = w])
         (auto simp: case_prod_unfold)
  qed simp
qed simp

lemma poll_response_pool_columns:
  assumes "poll_response call wait pipe w = (out, w', rest)"
  shows "pool_columns w' = pool_columns w"
proof -
  obtain r buf rest1 where read: "read_available (response_reader w) pipe = (r, buf, rest1)"
    by (metis prod_cases3)
  obtain a w1 where alive: "process_alive wait (w\<lparr>response_reader := buf\<rparr>) = (a, w1)"
    by fastforce
  have "pool_columns (snd (finish_response call f w2)) = pool_columns w2" for f w2
    by (simp add: finish_response_def)
  then show ?thesis
    using assms read alive alive_pool_columns [OF alive]
    by (auto simp: poll_response_def split: sum.splits option.splits bool.splits prod.splits) (metis snd_conv pool_columns_simps(2))
qed

lemma read_loop_round:
  obtains (ended) out w' rest where "read_loop call pipe (t # ts) w = (Return out, w', rest)"
      "justified call out w'" "pool_columns (fst (snd (read_loop call pipe (t # ts) w))) = pool_columns w"
      "outcome_kind out = TimedOut \<Longrightarrow> out = timeout_outcome call \<and> stop_reached call (rt_now t)"
      "outcome_kind out = Stopped \<Longrightarrow> rt_stopping t"
  | (thrown) e w1 rest where "read_loop call pipe (t # ts) w = (Throw e, w1, rest)"
      "pool_columns (fst (snd (read_loop call pipe (t # ts) w))) = pool_columns w"
  | (waited) w2 rest where "read_loop call pipe (t # ts) w = read_loop call rest ts w2"
      "pool_columns w2 = pool_columns w"
      "\<not> stop_reached call (rt_now t)"
proof (cases "poll_response call (rt_wait_failed t) (pipe @ rt_arrived t) w")
  case (fields o1 w1 rest)
  note cols = poll_response_pool_columns [OF fields]
  show ?thesis
  proof (cases o1)
    case (Some out)
    with fields cols poll_response_justified [of call "rt_wait_failed t" "pipe @ rt_arrived t" w out w1 rest]
    show ?thesis by (intro ended [of out w1 rest]) auto
  next
    case none: None
    obtain o2 w2 rest2 where late: "poll_response call (rt_wait_late t) (rest @ rt_late t) w1 = (o2, w2, rest2)"
      by (metis prod_cases3)
    note late_cols = poll_response_pool_columns [OF late]
    have last: "outcome_kind out \<noteq> TimedOut \<and> outcome_kind out \<noteq> Stopped \<and> justified call out w2" if "o2 = Some out" for out
      using poll_response_justified late that by blast
    consider (stopping) "rt_stopping t" | (broken) e where "\<not> rt_stopping t" "rt_cancelled t = Inl e"
      | (cancelled) "\<not> rt_stopping t" "rt_cancelled t = Inr True"
      | (timeout) "\<not> rt_stopping t" "rt_cancelled t = Inr False" "stop_reached call (rt_now t)"
      | (go) "\<not> rt_stopping t" "rt_cancelled t = Inr False" "\<not> stop_reached call (rt_now t)"
      by (metis sum.exhaust)
    then show ?thesis
    proof cases
      case stopping
      then show ?thesis
        using fields cols none by (intro ended [OF _ justified_ended]) auto
    next
      case (broken e)
      then show ?thesis
        using fields cols none by (intro thrown) auto
    next
      case cancelled
      show ?thesis
      proof (cases o2)
        case None
        then show ?thesis
          using fields cols late_cols none late cancelled by (intro ended [OF _ justified_ended]) auto
      next
        case (Some out)
        then show ?thesis
          using fields cols late_cols none late cancelled last by (intro ended [of out]) auto
      qed
    next
      case timeout
      show ?thesis
      proof (cases o2)
        case None
        then show ?thesis
          using fields cols late_cols none late timeout by (intro ended [OF _ justified_ended]) auto
      next
        case (Some out)
        then show ?thesis
          using fields cols late_cols none late timeout last by (intro ended [of out]) auto
      qed
    next
      case go
      obtain a w3 where alive: "process_alive (rt_wait t) w1 = (a, w3)"
        by fastforce
      note alive_cols = alive_pool_columns [OF alive]
      show ?thesis
      proof (cases a)
        case False
        then show ?thesis
          using fields cols alive_cols none go alive process_alive_dead [of "rt_wait t" w1 w3]
          by (intro ended [OF _ justified_ended]) auto
      next
        case lives: True
        show ?thesis
        proof (cases "rt_poll_error t")
          case None
          then show ?thesis
            using fields cols alive_cols none go alive lives by (intro waited [of rest w3]) auto
        next
          case (Some m)
          then show ?thesis
            using fields cols alive_cols none go alive lives by (intro ended [OF _ justified_ended]) auto
        qed
      qed
    qed
  qed
qed

declare read_loop.simps(2) [simp del]

lemma read_loop_returns:
  "read_loop call pipe ts w = (Return out, w', rest) \<Longrightarrow>
     justified call out w'
     \<and> (outcome_kind out = TimedOut \<longrightarrow> out = timeout_outcome call
          \<and> (\<exists>t \<in> set ts. stop_reached call (rt_now t)))"
proof (induction ts arbitrary: pipe w)
  case (Cons t ts)
  then show ?case
    by (cases rule: read_loop_round [where call = call and pipe = pipe and t = t and ts = ts and w = w])
       auto
qed simp

lemma write_loop_pool_columns:
  "write_loop call bs ts w = (r, w', sent) \<Longrightarrow> pool_columns w' = pool_columns w"
proof (induction ts arbitrary: bs w r w' sent)
  case Nil
  then show ?case by (cases bs) simp_all
next
  case (Cons t ts)
  show ?case
  proof (cases bs)
    case Nil
    then show ?thesis using Cons.prems by (simp add: write_loop_Nil)
  next
    case (Cons b bs')
    show ?thesis
    proof (cases rule: write_loop_round [where call = call and b = b and bs = bs' and t = t and ts = ts and w = w])
      case (wrote n w1)
      then show ?thesis
        using Cons.IH Cons.prems Cons by (auto split: prod.splits)
    qed (use Cons.IH Cons.prems Cons in auto)
  qed
qed

lemma read_loop_pool_columns:
  "read_loop call pipe ts w = (r, w', rest) \<Longrightarrow> pool_columns w' = pool_columns w"
proof (induction ts arbitrary: pipe w)
  case (Cons t ts)
  then show ?case
    by (cases rule: read_loop_round [where call = call and pipe = pipe and t = t and ts = ts and w = w])
       auto
qed simp

lemma write_loop_stopped:
  "write_loop call bs ts w = (Return (Some out), w', sent) \<Longrightarrow> outcome_kind out = Stopped \<Longrightarrow>
     \<exists>t \<in> set ts. wt_stopping t"
proof (induction ts arbitrary: bs w w' sent)
  case Nil
  then show ?case by (cases bs) auto
next
  case (Cons t ts)
  show ?case
  proof (cases bs)
    case bs: (Cons b bs')
    show ?thesis
    proof (cases rule: write_loop_round [where call = call and b = b and bs = bs' and t = t and ts = ts and w = w])
      case (wrote n w1)
      obtain sent1 where "write_loop call (drop n bs) ts w1 = (Return (Some out), w', sent1)"
        using Cons.prems(1) wrote(4) unfolding bs by (auto split: prod.splits)
      then show ?thesis
        using Cons.IH Cons.prems(2) by auto
    next
      case (waited w1)
      then show ?thesis
        using Cons.IH [of bs w1 w' sent] Cons.prems by (auto simp: bs)
    qed (use Cons.prems bs in auto)
  qed (use Cons.prems in simp)
qed

lemma read_loop_stopped:
  "read_loop call pipe ts w = (Return out, w', rest) \<Longrightarrow> outcome_kind out = Stopped \<Longrightarrow>
     \<exists>t \<in> set ts. rt_stopping t"
proof (induction ts arbitrary: pipe w)
  case (Cons t ts)
  then show ?case
    by (cases rule: read_loop_round [where call = call and pipe = pipe and t = t and ts = ts and w = w])
       auto
qed simp

lemma process_execute_stopped:
  assumes "process_execute call env data started w = (Return out, w', sent)" and "outcome_kind out = Stopped"
  shows "(\<exists>t \<in> set (env_writes env). wt_stopping t) \<or> (\<exists>t \<in> set (env_reads env). rt_stopping t)"
proof -
  obtain a w1 where alive: "process_alive (env_wait env) w = (a, w1)"
    by fastforce
  then have a
    using assms by (cases a) (auto simp: process_execute_def)
  then obtain request where "encode_frame (execute_request w1 (call_correlation call) started data) = Inr request"
    using assms alive by (auto simp: process_execute_def split: sum.splits)
  then consider (writing) w2 sent' where "write_loop call request (env_writes env) w1 = (Return (Some out), w2, sent')"
    | (reading) w2 w3 rest where "read_loop call (env_pipe env) (env_reads env) w2 = (Return out, w3, rest)"
    using assms(1) alive \<open>a\<close> by (auto simp: process_execute_def split: prod.splits io.splits option.splits)
  then show ?thesis
    using write_loop_stopped read_loop_stopped assms(2) by cases blast+
qed

lemma process_execute_pool_columns:
  assumes "process_execute call env data started w = (r, w', sent)"
  shows "pool_columns w' = pool_columns w"
proof -
  obtain a w1 where alive: "process_alive (env_wait env) w = (a, w1)"
    by fastforce
  show ?thesis
    using assms alive alive_pool_columns [OF alive] write_loop_pool_columns read_loop_pool_columns
    by (cases a) (fastforce simp: process_execute_def split: sum.splits prod.splits io.splits option.splits)+
qed

lemma read_loop_stops:
  "\<exists>t \<in> set ts. stop_reached call (rt_now t) \<Longrightarrow> fst (read_loop call pipe ts w) \<noteq> Blocked"
proof (induction ts arbitrary: pipe w)
  case (Cons t ts)
  then show ?case
    by (cases rule: read_loop_round [where call = call and pipe = pipe and t = t and ts = ts and w = w])
       auto
qed simp

section \<open>Properties\<close>

text \<open>A call, a request that fits one write, and an environment in which the worker answers.\<close>

definition sample_call :: exec_call where
  "sample_call = \<lparr>call_correlation = 7, call_stop_at = Some 1000, call_timeout_wins = True,
     call_kill_status = 9\<rparr>"

definition sample_write_turn :: write_turn where
  "sample_write_turn = \<lparr>wt_stopping = False, wt_cancelled = Inr False, wt_now = 20, wt_wait = Running,
     wt_write = Wrote 100000, wt_wait_failed = Running, wt_poll_error = None\<rparr>"

definition sample_read_turn :: "i64 \<Rightarrow> read_event list \<Rightarrow> read_turn" where
  "sample_read_turn now es = \<lparr>rt_arrived = es, rt_wait_failed = Running, rt_stopping = False,
     rt_cancelled = Inr False, rt_now = now, rt_late = [], rt_wait_late = Running, rt_wait = Running,
     rt_poll_error = None\<rparr>"

definition sample_env :: "read_turn list \<Rightarrow> exec_env" where
  "sample_env ts = \<lparr>env_wait = Running, env_writes = [sample_write_turn], env_pipe = [], env_reads = ts\<rparr>"


text \<open>
  C32: An attempt does not outlive its stop time: once a round of the writing loop and a round of
  the reading loop see a clock at or past the stop time, the call has returned or thrown; and it
  reports a timeout only if some round did see such a clock, with the cause (attempt timeout or
  Work deadline) the caller named.
\<close>

theorem attempt_stops_in_time:
  assumes "process_execute call env payload_bytes started w = (r, w', sent)"
  shows "((\<exists>t \<in> set (env_writes env). stop_reached call (wt_now t)) \<and>
          (\<exists>t \<in> set (env_reads env). stop_reached call (rt_now t)) \<longrightarrow> r \<noteq> Blocked)
    \<and> (\<forall>out. r = Return out \<and> outcome_kind out = TimedOut \<longrightarrow>
         technical_failure_text out = (if call_timeout_wins call
           then ''ATTEMPT_TIMEOUT: per-attempt timeout expired''
           else ''DEADLINE_EXPIRED: Work deadline expired during attempt'')
         \<and> ((\<exists>t \<in> set (env_writes env). stop_reached call (wt_now t))
            \<or> (\<exists>t \<in> set (env_reads env). stop_reached call (rt_now t))))"
proof -
  obtain a w1 where alive: "process_alive (env_wait env) w = (a, w1)"
    by fastforce
  let ?enc = "encode_frame (execute_request w1 (call_correlation call) started payload_bytes)"
  consider (early) out where "r = Return out" "outcome_kind out \<noteq> TimedOut"
    | (request) bs where "a" "?enc = Inr bs"
    using assms alive by (cases a; cases ?enc) (auto simp: process_execute_def)
  then show ?thesis
  proof cases
    case (request bs)
    obtain r2 w2 sent1 where wr: "write_loop call bs (env_writes env) w1 = (r2, w2, sent1)"
      by (metis prod_cases3)
    obtain r3 w3 rest where rd: "read_loop call (env_pipe env) (env_reads env) w2 = (r3, w3, rest)"
      by (metis prod_cases3)
    have r: "r = (case r2 of Return None \<Rightarrow> r3 | Return (Some out) \<Rightarrow> Return out | Throw e \<Rightarrow> Throw e
        | Blocked \<Rightarrow> Blocked)"
      using assms alive request wr rd
      by (auto simp: process_execute_def split: io.splits option.splits)
    show ?thesis
      using write_loop_stops [of "env_writes env" call bs w1] write_loop_ended [of call bs "env_writes env" w1]
        read_loop_stops [of "env_reads env" call "env_pipe env" w2] read_loop_returns [of call "env_pipe env" "env_reads env" w2]
      unfolding r wr rd
      by (auto simp: timeout_outcome_def outcome_def split: io.splits option.splits)
  qed auto
qed

lemma sample_request_encodes:
  "\<exists>bs. encode_frame (execute_request sample_worker 7 10 [1, 2]) = Inr bs \<and> bs \<noteq> [] \<and> length bs \<le> 100000"
  by (simp add: frame_eval execute_request_def sample_worker_def map_assign_all_def string_of_int_def
      string_of_nat.simps digit_char_def char_of_def)

lemma sample_written:
  "process_execute sample_call (sample_env ts) [1, 2] 10 sample_worker =
     (case read_loop sample_call [] ts sample_worker of
        (r, w, _) \<Rightarrow> (r, w, case encode_frame (execute_request sample_worker 7 10 [1, 2]) of
                             Inr bs \<Rightarrow> bs | Inl _ \<Rightarrow> []))"
proof -
  obtain b bs where enc: "encode_frame (execute_request sample_worker 7 10 [1, 2]) = Inr (b # bs)"
    and len: "length (b # bs) \<le> 100000"
    using sample_request_encodes by (metis list.exhaust)
  have "write_loop sample_call (b # bs) [sample_write_turn] sample_worker = (Return None, sample_worker, b # bs)"
    using len by (simp add: write_loop.simps(3) sample_write_turn_def stop_reached_def sample_call_def
        process_alive_def sample_worker_def)
  then show ?thesis
    using enc by (simp add: process_execute_def sample_env_def process_alive_def sample_call_def
        sample_worker_def split: prod.split)
qed

lemma read_available_nothing: "read_available [] [] = (Inr None, [], [])"
  by (simp add: read_available_def fill_buffer.simps take_frame_def kHeaderSize_def)

lemma sample_timeout:
  "\<exists>sent. process_execute sample_call (sample_env [sample_read_turn 500 [], sample_read_turn 1000 []])
     [1, 2] 10 sample_worker = (Return (timeout_outcome sample_call), end_process sample_call sample_worker, sent)"
proof -
  have "read_loop sample_call [] [sample_read_turn 500 [], sample_read_turn 1000 []] sample_worker
      = (Return (timeout_outcome sample_call), end_process sample_call sample_worker, [])"
    by (simp add: read_loop.simps(2) poll_response_def sample_read_turn_def read_available_nothing
        stop_reached_def process_alive_def sample_worker_def sample_call_def)
  then show ?thesis
    by (simp add: sample_written)
qed

theorem attempt_stops_in_time_witness:
  "\<exists>out w' sent. process_execute sample_call (sample_env [sample_read_turn 500 [], sample_read_turn 1000 []])
     [1, 2] 10 sample_worker = (Return out, w', sent)
     \<and> technical_failure_text out = ''ATTEMPT_TIMEOUT: per-attempt timeout expired''"
proof -
  let ?env = "sample_env [sample_read_turn 500 [], sample_read_turn 1000 []]"
  obtain sent where run: "process_execute sample_call ?env [1, 2] 10 sample_worker
      = (Return (timeout_outcome sample_call), end_process sample_call sample_worker, sent)"
    using sample_timeout by blast
  from attempt_stops_in_time [OF run] run show ?thesis
    by (auto simp: sample_call_def)
qed

definition sample_answer :: Frame where
  "sample_answer = \<lparr>frame_type = WorkerResult, correlation_id = 7, metadata = [], payload = [5]\<rparr>"

definition sample_answer_bytes :: "byte list" where
  "sample_answer_bytes = [77, 65, 68, 82, 0, 1, 0, 201, 0, 0, 0, 0, 0, 0, 0, 7, 0, 0, 0, 0,
     0, 0, 0, 0, 0, 0, 0, 1, 5]"

lemma sample_answer_encodes: "encode_frame sample_answer = Inr sample_answer_bytes"
  by (simp add: frame_eval sample_answer_def sample_answer_bytes_def)

lemma sample_answer_read:
  "fst (read_available [] [Chunk 77 (drop 1 sample_answer_bytes)]) = Inr (Some sample_answer)
   \<and> fst (snd (read_available [] [Chunk 77 (drop 1 sample_answer_bytes)])) = []"
proof -
  have "delivers [Chunk 77 (drop 1 sample_answer_bytes)] sample_answer_bytes"
    by (simp add: delivers_def sample_answer_bytes_def)
  moreover have "length sample_answer_bytes \<le> kReadBudget"
    "length ([] :: byte list) + length sample_answer_bytes \<le> kMaxBufferedFrame"
    by (simp_all add: sample_answer_bytes_def kReadBudget_def kMaxBufferedFrame_def kHeaderSize_def
        kMaxMetadata_def)
  moreover have "wf_frame sample_answer"
    by (simp add: wf_frame_def sample_answer_def well_typed_def)
  ultimately show ?thesis
    using read_available_data [of "[Chunk 77 (drop 1 sample_answer_bytes)]" sample_answer_bytes "[]"]
      take_frame_encoded [OF sample_answer_encodes, of "[]"] by simp
qed


end
