(* ===== verification/Kernel.thy ===== *)
theory Kernel
  imports Engines Worker_Execute
begin

text \<open>
  The Kernel of \<open>kernel/src/main.cpp\<close>: payload files, request parsing, the request handlers, the
  connection loop's body, one round of the scheduler and the steps of one attempt.

  The state is one record: the store, the payload files (a path that exists maps to its
  content), the engine inventory, the resource manager, the worker pool, the correlation counter
  and the attempts in progress. What the Kernel asks of its surroundings (clock, random numbers,
  SQLite, file system, operating system) is an argument.
\<close>

section \<open>Payload files\<close>

type_synonym file_system = "string \<Rightarrow> byte list option"

datatype write_fault =
    NoWriteFault
  | DirectoryFault string   \<comment> \<open>\<open>create_directories\<close> throws\<close>
  | OpenFault
  | ShortWrite nat          \<comment> \<open>the number of bytes that reach the temporary file\<close>
  | RenameFault string

datatype read_fault = NoReadFault | SizeFault | OpenReadFault | ShortRead

definition require_c1_payload_size :: "nat \<Rightarrow> string \<Rightarrow> unit result" where
  "require_c1_payload_size n description =
     (if n > kMaxPayload
      then Inl (RuntimeError (description @ '' exceeds the C1 1 MiB bounded text-generation/v1 payload limit''))
      else Inr ())"

definition write_binary_atomic ::
    "write_fault \<Rightarrow> string \<Rightarrow> byte list \<Rightarrow> file_system \<Rightarrow> unit result \<times> file_system" where
  "write_binary_atomic fault path data fs =
     (case require_c1_payload_size (length data) ''C1 file-backed payload'' of
        Inl e \<Rightarrow> (Inl e, fs)
      | Inr _ \<Rightarrow>
          (let temporary = path @ ''.tmp''
           in case fault of
                DirectoryFault m \<Rightarrow> (Inl (RuntimeError m), fs)
              | OpenFault \<Rightarrow> (Inl (RuntimeError (''open payload file for write: '' @ temporary)), fs)
              | ShortWrite n \<Rightarrow>
                  (Inl (RuntimeError (''write payload file: '' @ temporary)),
                   fs(temporary := Some (take n data)))
              | RenameFault m \<Rightarrow> (Inl (RuntimeError m), fs(temporary := Some data))
              | NoWriteFault \<Rightarrow> (Inr (), fs(temporary := None, path := Some data))))"

definition read_binary_bounded :: "read_fault \<Rightarrow> string \<Rightarrow> file_system \<Rightarrow> byte list result" where
  "read_binary_bounded fault path fs =
     (case fs path of
        None \<Rightarrow> Inl (RuntimeError (''inspect payload file size: '' @ path))
      | Some data \<Rightarrow>
          if fault = SizeFault then Inl (RuntimeError (''inspect payload file size: '' @ path))
          else bind_result (require_c1_payload_size (length data) ''C1 file-backed payload'') (\<lambda>_.
            if fault = OpenReadFault then Inl (RuntimeError (''open payload file for read: '' @ path))
            else if fault = ShortRead \<and> data \<noteq> [] then Inl (RuntimeError (''read payload file: '' @ path))
            else Inr data))"

text \<open>\<open>fs::remove\<close> with an error code: a file that cannot be removed stays.\<close>

definition remove_file :: "bool \<Rightarrow> string \<Rightarrow> file_system \<Rightarrow> file_system" where
  "remove_file ok path fs = (if ok then fs(path := None) else fs)"

text \<open>\<open>a / b\<close> for a relative \<open>b\<close>.\<close>

definition path_append :: "string \<Rightarrow> string \<Rightarrow> string" where
  "path_append a b = (if a = [] \<or> last a = CHR ''/'' then a @ b else a @ ''/'' @ b)"

definition work_dir :: "string \<Rightarrow> string \<Rightarrow> string" where
  "work_dir data_dir key = path_append (path_append data_dir ''work'') key"

definition make_work_id :: "u64 \<Rightarrow> u64 \<Rightarrow> string" where
  "make_work_id a b = hex_fixed 16 (unat a) @ hex_fixed 16 (unat b)"

section \<open>Frames and fields\<close>

definition kMinKernelProtocolVersion :: int where
  "kMinKernelProtocolVersion = 2"

definition kMaxKernelProtocolVersion :: int where
  "kMaxKernelProtocolVersion = 2"

definition response :: "MessageType \<Rightarrow> Frame \<Rightarrow> Frame" where
  "response t request =
     \<lparr>frame_type = t, correlation_id = correlation_id request, metadata = [], payload = []\<rparr>"

definition error_response :: "Frame \<Rightarrow> string \<Rightarrow> string \<Rightarrow> Frame" where
  "error_response request code msg =
     \<lparr>frame_type = Error, correlation_id = correlation_id request,
      metadata = map_emplace ''message'' msg (map_emplace ''code'' code []), payload = []\<rparr>"

definition set_field :: "string \<Rightarrow> string \<Rightarrow> Frame \<Rightarrow> Frame" where
  "set_field k v f = f\<lparr>metadata := map_assign k v (metadata f)\<rparr>"

definition optional_metadata :: "Frame \<Rightarrow> string \<Rightarrow> string" where
  "optional_metadata f key = (case map_of (metadata f) key of None \<Rightarrow> [] | Some v \<Rightarrow> v)"

definition parse_i64 :: "string \<Rightarrow> string \<Rightarrow> i64 result" where
  "parse_i64 v field =
     (case stoll v of
        Inr (parsed, used) \<Rightarrow>
          if used \<noteq> length v then Inl (RuntimeError (''invalid integer metadata field: '' @ field))
          else Inr parsed
      | Inl e \<Rightarrow> Inl (RuntimeError (''invalid integer metadata field: '' @ field)))"

definition optional_nonnegative_i64 :: "Frame \<Rightarrow> string \<Rightarrow> i64 option result" where
  "optional_nonnegative_i64 f key =
     (let v = optional_metadata f key
      in if v = [] then Inr None
         else bind_result (parse_i64 v key) (\<lambda>parsed.
           if parsed < 0 then Inl (RuntimeError (key @ '' must be >= 0'')) else Inr (Some parsed)))"

definition parse_positive_int :: "Frame \<Rightarrow> string \<Rightarrow> int result" where
  "parse_positive_int f key =
     bind_result (metadata_value f key) (\<lambda>v.
       bind_result (parse_i64 v key) (\<lambda>parsed.
         if parsed < 1 \<or> parsed > i32_max
         then Inl (RuntimeError (key @ '' must be >= 1 and fit the physical integer representation''))
         else Inr parsed))"

definition validate_choice :: "string \<Rightarrow> string \<Rightarrow> string \<Rightarrow> string \<Rightarrow> unit result" where
  "validate_choice v a b field =
     (if v \<noteq> a \<and> v \<noteq> b then Inl (RuntimeError (''invalid '' @ field)) else Inr ())"

definition validate_urgency :: "string \<Rightarrow> unit result" where
  "validate_urgency v =
     (if v \<noteq> ''INTERACTIVE'' \<and> v \<noteq> ''NORMAL'' \<and> v \<noteq> ''BACKGROUND''
      then Inl (RuntimeError ''invalid urgency'') else Inr ())"

section \<open>State\<close>

record attempt_task =
  task_work :: WorkRecord
  task_number :: int
  task_started_at :: i64
  task_worker :: nat
  task_requirement :: ResourceRequirement

record Kernel =
  data_dir :: string
  store :: Db
  files :: file_system
  engine_inventory :: "EngineDescriptorFacts list"
  resources :: ResourceManager
  worker_pool :: WorkerPool
  next_worker_correlation :: u64

text \<open>The surroundings of one request.\<close>

record request_env =
  req_now :: i64
  req_random :: "u64 \<times> u64"
  req_fault :: sqlite_fault
  req_second_fault :: sqlite_fault
  req_write_fault :: write_fault
  req_read_fault :: read_fault
  req_size_fault :: "string option"  \<comment> \<open>\<open>fs::file_size\<close> throws\<close>
  req_removed :: "bool \<times> bool"       \<comment> \<open>whether \<open>fs::remove\<close> deletes the input and the result file\<close>
  req_wait :: "nat \<Rightarrow> wait_env"

section \<open>Request handlers\<close>

definition hello :: "Frame \<Rightarrow> Frame result" where
  "hello request =
     bind_result (metadata_value request ''min_kernel_protocol_version'') (\<lambda>min_text.
     bind_result (stoi min_text) (\<lambda>client_min.
     bind_result (metadata_value request ''max_kernel_protocol_version'') (\<lambda>max_text.
     bind_result (stoi max_text) (\<lambda>client_max.
       let overlap_min = max client_min kMinKernelProtocolVersion;
           overlap_max = min client_max kMaxKernelProtocolVersion
       in if client_min > client_max \<or> overlap_min > overlap_max
          then Inr (error_response request ''VERSION_MISMATCH'' ''no compatible Kernel protocol/API version'')
          else Inr (set_field ''kernel_protocol_version'' (string_of_int overlap_max)
                      (response HelloResponse request))))))"

text \<open>The checks of \<open>submit\<close> in their order, and the record it stores.\<close>

definition parse_submission :: "i64 \<Rightarrow> string \<Rightarrow> string \<Rightarrow> Frame \<Rightarrow> WorkRecord result" where
  "parse_submission submitted_at dir key request =
     bind_result (metadata_value request ''work_type'') (\<lambda>wt.
     bind_result (metadata_value request ''effort'') (\<lambda>eff.
     bind_result (metadata_value request ''urgency'') (\<lambda>urg.
     bind_result (validate_choice eff ''STANDARD'' ''HIGH'' ''effort'') (\<lambda>_.
     bind_result (validate_urgency urg) (\<lambda>_.
     bind_result (parse_positive_int request ''max_attempts'') (\<lambda>attempts_limit.
     bind_result (metadata_value request ''retry_delay_ms'') (\<lambda>delay_text.
     bind_result (parse_i64 delay_text ''retry_delay_ms'') (\<lambda>delay.
     bind_result (if delay < 0 then Inl (RuntimeError ''retry_delay_ms must be >= 0'') else Inr ()) (\<lambda>_.
     bind_result (optional_nonnegative_i64 request ''eligible_at_ms'') (\<lambda>eligible.
     bind_result (optional_nonnegative_i64 request ''deadline_ms'') (\<lambda>deadline.
     bind_result (optional_nonnegative_i64 request ''timeout_ms'') (\<lambda>timeout.
       let eligible_at = (case eligible of None \<Rightarrow> submitted_at | Some t \<Rightarrow> t)
       in Inr \<lparr>work_id = key, work_type = wt, state = ''QUEUED'', effort = eff, urgency = urg,
               required_capabilities = optional_metadata request ''required_capabilities'',
               eligible_engine_ids = optional_metadata request ''eligible_engine_ids'',
               exact_engine_id = optional_metadata request ''exact_engine_id'',
               exact_model_id = optional_metadata request ''exact_model_id'',
               created_at_ms = submitted_at, eligible_at_ms = eligible_at,
               next_attempt_at_ms = eligible_at, deadline_ms = deadline, timeout_ms = timeout,
               max_attempts = attempts_limit, retry_delay_ms = delay, attempt_count = 0,
               input_path = path_append dir ''input.bin'', result_path = path_append dir ''result.bin'',
               acknowledged = False, cancel_requested = False, selected_engine_id = [],
               selected_model_id = [], technical_failure = []\<rparr>))))))))))))"

definition handle_submit :: "request_env \<Rightarrow> Frame \<Rightarrow> Kernel \<Rightarrow> Frame result \<times> Kernel" where
  "handle_submit env request k =
     (if length (payload request) > kMaxPayload
      then (Inr (error_response request ''PAYLOAD_TOO_LARGE''
        ''C1 text-generation/v1 input exceeds the 1 MiB bounded payload limit; streaming/spooling is deferred''), k)
      else
        let key = make_work_id (fst (req_random env)) (snd (req_random env));
            dir = work_dir (data_dir k) key
        in case parse_submission (req_now env) dir key request of
             Inl e \<Rightarrow> (Inl e, k)
           | Inr w \<Rightarrow>
               (case write_binary_atomic (req_write_fault env) (input_path w) (payload request) (files k) of
                  (Inl e, fs) \<Rightarrow> (Inl e, k\<lparr>files := fs\<rparr>)
                | (Inr _, fs) \<Rightarrow>
                    (case store_submit (req_fault env) w (store k) of
                       (Inl e, db) \<Rightarrow> (Inl e, k\<lparr>files := fs, store := db\<rparr>)
                     | (Inr _, db) \<Rightarrow>
                         (Inr (set_field ''work_id'' key (response SubmitResponse request)),
                          k\<lparr>files := fs, store := db\<rparr>))))"

definition handle_status :: "request_env \<Rightarrow> Frame \<Rightarrow> Kernel \<Rightarrow> Frame result" where
  "handle_status env request k =
     bind_result (metadata_value request ''work_id'') (\<lambda>key.
     bind_result (store_find (req_fault env) key (store k)) (\<lambda>found.
       case found of
         None \<Rightarrow> Inr (error_response request ''WORK_NOT_FOUND'' ''unknown WorkId'')
       | Some w \<Rightarrow>
           let out = set_field ''state'' (state w) (response StatusResponse request)
           in Inr (if technical_failure w \<noteq> []
                   then set_field ''technical_failure'' (technical_failure w) out else out)))"

text \<open>The reply for a Work that is known.\<close>

definition result_reply :: "request_env \<Rightarrow> Frame \<Rightarrow> WorkRecord \<Rightarrow> file_system \<Rightarrow> Frame result" where
  "result_reply env request w fs =
     (let out = (\<lambda>available. set_field ''available'' (if available then ''true'' else ''false'')
                   (set_field ''state'' (state w) (response ResultResponse request)))
      in if \<not> (state w = ''SUCCEEDED'' \<and> \<not> acknowledged w \<and> fs (result_path w) \<noteq> None) then Inr (out False)
         else case req_size_fault env of
           Some m \<Rightarrow> Inl (RuntimeError m)
         | None \<Rightarrow>
             if length (the (fs (result_path w))) > kMaxPayload
             then Inr (error_response request ''PAYLOAD_TOO_LARGE''
               ''C1 text-generation/v1 result exceeds the 1 MiB bounded payload limit; streaming/spooling is deferred'')
             else bind_result (read_binary_bounded (req_read_fault env) (result_path w) fs) (\<lambda>data.
               Inr ((out True)\<lparr>payload := data\<rparr>)))"

definition handle_result :: "request_env \<Rightarrow> Frame \<Rightarrow> Kernel \<Rightarrow> Frame result" where
  "handle_result env request k =
     bind_result (metadata_value request ''work_id'') (\<lambda>key.
     bind_result (store_find (req_fault env) key (store k)) (\<lambda>found.
       case found of
         None \<Rightarrow> Inr (error_response request ''WORK_NOT_FOUND'' ''unknown WorkId'')
       | Some w \<Rightarrow> result_reply env request w (files k)))"

definition handle_acknowledge :: "request_env \<Rightarrow> Frame \<Rightarrow> Kernel \<Rightarrow> Frame result \<times> Kernel" where
  "handle_acknowledge env request k =
     (case metadata_value request ''work_id'' of
        Inl e \<Rightarrow> (Inl e, k)
      | Inr key \<Rightarrow>
          (case store_find (req_fault env) key (store k) of
             Inl e \<Rightarrow> (Inl e, k)
           | Inr None \<Rightarrow> (Inr (error_response request ''WORK_NOT_FOUND'' ''unknown WorkId''), k)
           | Inr (Some w) \<Rightarrow>
               (case store_acknowledge (req_second_fault env) key (store k) of
                  (Inl e, db) \<Rightarrow> (Inl e, k\<lparr>store := db\<rparr>)
                | (Inr False, db) \<Rightarrow>
                    (Inr (error_response request ''RESULT_NOT_ACKNOWLEDGEABLE''
                       ''result is not available for acknowledgement''), k\<lparr>store := db\<rparr>)
                | (Inr True, db) \<Rightarrow>
                    (Inr (set_field ''acknowledged'' ''true'' (response AcknowledgeResponse request)),
                     k\<lparr>store := db,
                       files := remove_file (snd (req_removed env)) (result_path w)
                         (remove_file (fst (req_removed env)) (input_path w) (files k))\<rparr>))))"

definition handle_cancel :: "request_env \<Rightarrow> Frame \<Rightarrow> Kernel \<Rightarrow> Frame result \<times> Kernel" where
  "handle_cancel env request k =
     (case metadata_value request ''work_id'' of
        Inl e \<Rightarrow> (Inl e, k)
      | Inr key \<Rightarrow>
          (case store_cancel (req_fault env) key (store k) of
             (Inl e, db) \<Rightarrow> (Inl e, k\<lparr>store := db\<rparr>)
           | (Inr st, db) \<Rightarrow>
               (if st = [] then Inr (error_response request ''WORK_NOT_FOUND'' ''unknown WorkId'')
                else Inr (set_field ''state'' st (response CancelResponse request)),
                k\<lparr>store := db\<rparr>)))"

text \<open>The loop of \<open>list_engines\<close>, from index \<open>i\<close>; each round asks the pool, which may drop dead workers.\<close>

fun list_engines_from ::
    "(nat \<Rightarrow> wait_env) \<Rightarrow> nat \<Rightarrow> EngineDescriptorFacts list \<Rightarrow> Frame \<Rightarrow> WorkerPool \<Rightarrow> Frame \<times> WorkerPool" where
  "list_engines_from env i [] out p = (out, p)"
| "list_engines_from env i (d # ds) out p =
     (case pool_is_warm (env i) (engine_id d) p of
        (warm, p1) \<Rightarrow>
          list_engines_from env (Suc i) ds
            (add_engine_descriptor out (''engine.'' @ string_of_nat i @ ''.'') d warm) p1)"

definition handle_list_engines :: "request_env \<Rightarrow> Frame \<Rightarrow> Kernel \<Rightarrow> Frame result \<times> Kernel" where
  "handle_list_engines env request k =
     (case list_engines_from (req_wait env) 0 (engine_inventory k)
             (set_field ''count'' (string_of_nat (length (engine_inventory k)))
                (response ListEnginesResponse request)) (worker_pool k) of
        (out, p) \<Rightarrow> (Inr out, k\<lparr>worker_pool := p\<rparr>))"

definition handle_engine_status :: "request_env \<Rightarrow> Frame \<Rightarrow> Kernel \<Rightarrow> Frame result \<times> Kernel" where
  "handle_engine_status env request k =
     (case metadata_value request ''engine_id'' of
        Inl e \<Rightarrow> (Inl e, k)
      | Inr key \<Rightarrow>
          (case List.find (\<lambda>d. engine_id d = key) (engine_inventory k) of
             None \<Rightarrow> (Inr (error_response request ''ENGINE_NOT_FOUND'' ''unknown physical engine''), k)
           | Some d \<Rightarrow>
               (case pool_is_warm (req_wait env 0) (engine_id d) (worker_pool k) of
                  (warm, p) \<Rightarrow>
                    (Inr (add_engine_descriptor (response EngineStatusResponse request) [] d warm),
                     k\<lparr>worker_pool := p\<rparr>))))"

definition handle :: "request_env \<Rightarrow> Frame \<Rightarrow> Kernel \<Rightarrow> Frame result \<times> Kernel" where
  "handle env request k =
     (case frame_type request of
        Submit \<Rightarrow> handle_submit env request k
      | Status \<Rightarrow> (handle_status env request k, k)
      | Result \<Rightarrow> (handle_result env request k, k)
      | Acknowledge \<Rightarrow> handle_acknowledge env request k
      | Cancel \<Rightarrow> handle_cancel env request k
      | ListEngines \<Rightarrow> handle_list_engines env request k
      | EngineStatus \<Rightarrow> handle_engine_status env request k
      | _ \<Rightarrow> (Inr (error_response request ''UNKNOWN_MESSAGE'' ''unsupported Kernel command''), k))"

text \<open>
  The same request as steps, one for each call on shared state, so that the scheduler and the
  attempts may come between them. The phases hold the request and the local variables that are
  still needed; \<open>Replied\<close> is the end, with the reply or the exception.
\<close>

datatype request_phase =
    Waiting
  | Received Frame
  | Storing Frame string WorkRecord
  | ReadingResult Frame WorkRecord
  | Acknowledging Frame string WorkRecord
  | RemovingInput Frame WorkRecord
  | RemovingResult Frame WorkRecord
  | Listing nat "EngineDescriptorFacts list" Frame
  | Replied "Frame result"

definition submit_received :: "request_env \<Rightarrow> Frame \<Rightarrow> Kernel \<Rightarrow> request_phase \<times> Kernel" where
  "submit_received env request k =
     (if length (payload request) > kMaxPayload
      then (Replied (Inr (error_response request ''PAYLOAD_TOO_LARGE''
        ''C1 text-generation/v1 input exceeds the 1 MiB bounded payload limit; streaming/spooling is deferred'')), k)
      else
        let key = make_work_id (fst (req_random env)) (snd (req_random env));
            dir = work_dir (data_dir k) key
        in case parse_submission (req_now env) dir key request of
             Inl e \<Rightarrow> (Replied (Inl e), k)
           | Inr w \<Rightarrow>
               (case write_binary_atomic (req_write_fault env) (input_path w) (payload request) (files k) of
                  (Inl e, fs) \<Rightarrow> (Replied (Inl e), k\<lparr>files := fs\<rparr>)
                | (Inr _, fs) \<Rightarrow> (Storing request key w, k\<lparr>files := fs\<rparr>)))"

definition find_received ::
    "request_env \<Rightarrow> Frame \<Rightarrow> (string \<Rightarrow> WorkRecord \<Rightarrow> request_phase) \<Rightarrow> Kernel \<Rightarrow> request_phase \<times> Kernel" where
  "find_received env request found k =
     (case metadata_value request ''work_id'' of
        Inl e \<Rightarrow> (Replied (Inl e), k)
      | Inr key \<Rightarrow>
          (case store_find (req_fault env) key (store k) of
             Inl e \<Rightarrow> (Replied (Inl e), k)
           | Inr None \<Rightarrow> (Replied (Inr (error_response request ''WORK_NOT_FOUND'' ''unknown WorkId'')), k)
           | Inr (Some w) \<Rightarrow> (found key w, k)))"

definition request_received :: "request_env \<Rightarrow> Frame \<Rightarrow> Kernel \<Rightarrow> request_phase \<times> Kernel" where
  "request_received env request k =
     (case frame_type request of
        Submit \<Rightarrow> submit_received env request k
      | Status \<Rightarrow> (Replied (handle_status env request k), k)
      | Result \<Rightarrow> find_received env request (\<lambda>key. ReadingResult request) k
      | Acknowledge \<Rightarrow> find_received env request (Acknowledging request) k
      | Cancel \<Rightarrow> (case handle_cancel env request k of (r, k1) \<Rightarrow> (Replied r, k1))
      | ListEngines \<Rightarrow>
          (Listing 0 (engine_inventory k)
             (set_field ''count'' (string_of_nat (length (engine_inventory k))) (response ListEnginesResponse request)), k)
      | EngineStatus \<Rightarrow> (case handle_engine_status env request k of (r, k1) \<Rightarrow> (Replied r, k1))
      | _ \<Rightarrow> (Replied (Inr (error_response request ''UNKNOWN_MESSAGE'' ''unsupported Kernel command'')), k))"

fun request_step :: "request_env \<Rightarrow> request_phase \<Rightarrow> Kernel \<Rightarrow> request_phase \<times> Kernel" where
  "request_step env Waiting k = (Waiting, k)"
| "request_step env (Received request) k = request_received env request k"
| "request_step env (Storing request key w) k =
     (case store_submit (req_fault env) w (store k) of
        (Inl e, db) \<Rightarrow> (Replied (Inl e), k\<lparr>store := db\<rparr>)
      | (Inr _, db) \<Rightarrow>
          (Replied (Inr (set_field ''work_id'' key (response SubmitResponse request))), k\<lparr>store := db\<rparr>))"
| "request_step env (ReadingResult request w) k = (Replied (result_reply env request w (files k)), k)"
| "request_step env (Acknowledging request key w) k =
     (case store_acknowledge (req_second_fault env) key (store k) of
        (Inl e, db) \<Rightarrow> (Replied (Inl e), k\<lparr>store := db\<rparr>)
      | (Inr False, db) \<Rightarrow>
          (Replied (Inr (error_response request ''RESULT_NOT_ACKNOWLEDGEABLE''
             ''result is not available for acknowledgement'')), k\<lparr>store := db\<rparr>)
      | (Inr True, db) \<Rightarrow> (RemovingInput request w, k\<lparr>store := db\<rparr>))"
| "request_step env (RemovingInput request w) k =
     (RemovingResult request w, k\<lparr>files := remove_file (fst (req_removed env)) (input_path w) (files k)\<rparr>)"
| "request_step env (RemovingResult request w) k =
     (Replied (Inr (set_field ''acknowledged'' ''true'' (response AcknowledgeResponse request))),
      k\<lparr>files := remove_file (snd (req_removed env)) (result_path w) (files k)\<rparr>)"
| "request_step env (Listing i [] out) k = (Replied (Inr out), k)"
| "request_step env (Listing i (d # ds) out) k =
     (case pool_is_warm (req_wait env i) (engine_id d) (worker_pool k) of
        (warm, p) \<Rightarrow>
          (Listing (Suc i) ds (add_engine_descriptor out (''engine.'' @ string_of_nat i @ ''.'') d warm),
           k\<lparr>worker_pool := p\<rparr>))"
| "request_step env (Replied r) k = (Waiting, k)"

text \<open>The steps of one request without interruption.\<close>

fun request_steps :: "nat \<Rightarrow> request_env \<Rightarrow> request_phase \<Rightarrow> Kernel \<Rightarrow> request_phase \<times> Kernel" where
  "request_steps n env (Replied r) k = (Replied r, k)"
| "request_steps 0 env ph k = (ph, k)"
| "request_steps (Suc n) env ph k = (case request_step env ph k of (ph1, k1) \<Rightarrow> request_steps n env ph1 k1)"

section \<open>One connection\<close>

text \<open>
  A connection's surroundings: what the client sends, how the system calls of the up to three
  \<open>write_frame\<close> calls answer, and the surroundings of the request. The result is the bytes sent
  and whether the connection is served to its end.
\<close>

record connection_env =
  con_reads :: "read_event list"
  con_hello_writes :: "write_event list"
  con_reply_writes :: "write_event list"
  con_error_writes :: "write_event list"
  con_request :: request_env

definition empty_frame :: Frame where
  "empty_frame = \<lparr>frame_type = Unnamed 0, correlation_id = 0, metadata = [], payload = []\<rparr>"

text \<open>The two catch clauses; what the error reply itself throws is dropped.\<close>

definition error_code :: "exn \<Rightarrow> string" where
  "error_code e = (case e of FramingError _ \<Rightarrow> ''FRAMING_ERROR'' | _ \<Rightarrow> ''PROTOCOL_OR_REQUEST_ERROR'')"

definition catch_reply :: "connection_env \<Rightarrow> Frame \<Rightarrow> exn \<Rightarrow> byte list \<times> bool" where
  "catch_reply env hello_request e =
     (case write_frame (error_response hello_request (error_code e) (what e)) (con_error_writes env) of
        (sent, Blocked) \<Rightarrow> (sent, False)
      | (sent, _) \<Rightarrow> (sent, True))"

definition write_or_catch ::
    "connection_env \<Rightarrow> Frame \<Rightarrow> Frame \<Rightarrow> write_event list \<Rightarrow> (byte list \<Rightarrow> (byte list \<times> bool) \<times> Kernel) \<Rightarrow>
     Kernel \<Rightarrow> (byte list \<times> bool) \<times> Kernel" where
  "write_or_catch env hello_request out writes next k =
     (case write_frame out writes of
        (sent, Return _) \<Rightarrow> next sent
      | (sent, Throw e) \<Rightarrow>
          (case catch_reply env hello_request e of (more_sent, fin) \<Rightarrow> ((sent @ more_sent, fin), k))
      | (sent, Blocked) \<Rightarrow> ((sent, False), k))"

definition serve_request ::
    "connection_env \<Rightarrow> Frame \<Rightarrow> read_event list \<Rightarrow> byte list \<Rightarrow> Kernel \<Rightarrow> (byte list \<times> bool) \<times> Kernel" where
  "serve_request env hello_request reads sent k =
     (case read_frame reads of
        (Throw e, _) \<Rightarrow>
          (case catch_reply env hello_request e of (more_sent, fin) \<Rightarrow> ((sent @ more_sent, fin), k))
      | (Blocked, _) \<Rightarrow> ((sent, False), k)
      | (Return request, _) \<Rightarrow>
          (case handle (con_request env) request k of
             (Inl e, k1) \<Rightarrow>
               (case catch_reply env hello_request e of (more_sent, fin) \<Rightarrow> ((sent @ more_sent, fin), k1))
           | (Inr out, k1) \<Rightarrow>
               write_or_catch env hello_request out (con_reply_writes env)
                 (\<lambda>reply. ((sent @ reply, True), k1)) k1))"

definition serve_connection :: "connection_env \<Rightarrow> Kernel \<Rightarrow> (byte list \<times> bool) \<times> Kernel" where
  "serve_connection env k =
     (case read_frame (con_reads env) of
        (Throw e, _) \<Rightarrow> (catch_reply env empty_frame e, k)
      | (Blocked, _) \<Rightarrow> (([], False), k)
      | (Return hello_request, reads) \<Rightarrow>
          if frame_type hello_request \<noteq> Hello
          then write_or_catch env hello_request
                 (error_response hello_request ''HELLO_REQUIRED'' ''HELLO must be the first frame'')
                 (con_hello_writes env) (\<lambda>sent. ((sent, True), k)) k
          else case hello hello_request of
            Inl e \<Rightarrow> (catch_reply env hello_request e, k)
          | Inr hello_response \<Rightarrow>
              write_or_catch env hello_request hello_response (con_hello_writes env)
                (\<lambda>sent. if frame_type hello_response = Error then ((sent, True), k)
                        else serve_request env hello_request reads sent k) k)"

section \<open>One round of the scheduler\<close>

record scheduler_env =
  sch_now :: i64
  sch_started_at :: i64
  sch_failed_at :: i64
  sch_expire_fault :: sqlite_fault
  sch_next_fault :: sqlite_fault
  sch_fail_fault :: sqlite_fault
  sch_begin_fault :: sqlite_fault
  sch_finish_fault :: sqlite_fault
  sch_reap_wait :: wait_env
  sch_reap_status :: "nat \<Rightarrow> int"
  sch_acquire_wait :: wait_env
  sch_spawn :: "string \<Rightarrow> string list \<Rightarrow> int result"
  sch_spawned_at :: i64

text \<open>
  \<open>Terminated\<close>: an exception leaves the scheduler thread, which ends the process.
\<close>

datatype round_result =
    Idle
  | Refused string
  | NoCapacity
  | NotBegun
  | NotLaunched
  | Begun attempt_task
  | Terminated exn

definition deadline_reached :: "WorkRecord \<Rightarrow> i64 \<Rightarrow> bool" where
  "deadline_reached w now = (case deadline_ms w of None \<Rightarrow> False | Some d \<Rightarrow> now \<ge> d)"

text \<open>\<open>store_.fail_queued\<close> and \<open>continue\<close>.\<close>

definition refuse :: "scheduler_env \<Rightarrow> WorkRecord \<Rightarrow> string \<Rightarrow> Kernel \<Rightarrow> round_result \<times> Kernel" where
  "refuse env w failure k =
     (case store_fail_queued (sch_fail_fault env) (work_id w) failure (store k) of
        (Inl e, db) \<Rightarrow> (Terminated e, k\<lparr>store := db\<rparr>)
      | (Inr _, db) \<Rightarrow> (Refused failure, k\<lparr>store := db\<rparr>))"

definition give_back :: "ResourceRequirement \<Rightarrow> Kernel \<Rightarrow> Kernel" where
  "give_back r k = k\<lparr>resources := release_resources r (resources k)\<rparr>"

text \<open>From the granted reservation to the attempt; every early end destroys the reservation.\<close>

definition dispatch ::
    "scheduler_env \<Rightarrow> WorkRecord \<Rightarrow> EngineDescriptorFacts \<Rightarrow> string \<Rightarrow> Kernel \<Rightarrow> round_result \<times> Kernel" where
  "dispatch env w engine model k =
     (let r = engine_resources engine
      in if deadline_reached w (sch_started_at env)
         then (case refuse env w deadline_expired_text k of (res, k1) \<Rightarrow> (res, give_back r k1))
         else
           case store_begin_attempt (sch_begin_fault env) (work_id w) (engine_id engine) model
                  (sch_started_at env) (store k) of
             (Inl e, db) \<Rightarrow> (Terminated e, give_back r (k\<lparr>store := db\<rparr>))
           | (Inr n, db) \<Rightarrow>
               if n = 0 then (NotBegun, give_back r (k\<lparr>store := db\<rparr>))
               else
                 (case pool_acquire (sch_acquire_wait env) (sch_spawn env) (sch_spawned_at env)
                         (engine_id engine) (worker_pool k) of
                    (Inr worker, p) \<Rightarrow>
                      (Begun \<lparr>task_work = w, task_number = n, task_started_at = sch_started_at env,
                              task_worker = worker, task_requirement = r\<rparr>,
                       k\<lparr>store := db, worker_pool := p\<rparr>)
                  | (Inl e, p) \<Rightarrow>
                      (case store_finish_retryable_failure (sch_finish_fault env) (work_id w) n ''FAILED''
                              (''WORKER_LAUNCH_FAILURE: '' @ what e) (sch_failed_at env) db of
                         (Inl e2, db2) \<Rightarrow>
                           (Terminated e2, give_back r (k\<lparr>store := db2, worker_pool := p\<rparr>))
                       | (Inr _, db2) \<Rightarrow>
                           (NotLaunched, give_back r (k\<lparr>store := db2, worker_pool := p\<rparr>)))))"

definition schedule_work :: "scheduler_env \<Rightarrow> WorkRecord \<Rightarrow> Kernel \<Rightarrow> round_result \<times> Kernel" where
  "schedule_work env w k =
     (if deadline_reached w (sch_now env) then refuse env w deadline_expired_text k
      else case select_engine w (engine_inventory k) of
        Inl failure \<Rightarrow> refuse env w failure k
      | Inr (engine, model) \<Rightarrow>
          (case can_ever_reserve (engine_resources engine) (resources k) of
             Inl e \<Rightarrow> (Terminated e, k)
           | Inr False \<Rightarrow>
               refuse env w
                 ''INSUFFICIENT_CAPACITY: selected engine requirements exceed configured Kernel capacity'' k
           | Inr True \<Rightarrow>
               (case try_reserve (engine_resources engine) (resources k) of
                  (Inl e, m) \<Rightarrow> (Terminated e, k\<lparr>resources := m\<rparr>)
                | (Inr False, m) \<Rightarrow> (NoCapacity, k\<lparr>resources := m\<rparr>)
                | (Inr True, m) \<Rightarrow> dispatch env w engine model (k\<lparr>resources := m\<rparr>))))"

definition scheduler_round :: "scheduler_env \<Rightarrow> Kernel \<Rightarrow> round_result \<times> Kernel" where
  "scheduler_round env k =
     (let k1 = k\<lparr>worker_pool := pool_reap_idle (sch_reap_wait env) (sch_reap_status env) (sch_now env)
                                  (worker_pool k)\<rparr>
      in case store_expire_queued_deadlines (sch_expire_fault env) (sch_now env) (store k1) of
           (Inl e, db) \<Rightarrow> (Terminated e, k1\<lparr>store := db\<rparr>)
         | (Inr _, db) \<Rightarrow>
             (let k2 = k1\<lparr>store := db\<rparr>
              in case store_next_eligible (sch_next_fault env) (sch_now env) db of
                   Inl e \<Rightarrow> (Terminated e, k2)
                 | Inr None \<Rightarrow> (Idle, k2)
                 | Inr (Some w) \<Rightarrow> schedule_work env w k2))"

text \<open>
  The same round as steps, one for each call on shared state, so that requests and attempts may
  come between them; a phase says which call comes next and holds the local variables that are
  still needed. \<open>Refusing\<close> may own a reservation, which the end of the round destroys.
\<close>

datatype scheduler_phase =
    Reaping
  | Expiring i64
  | Choosing i64
  | Refusing WorkRecord string "ResourceRequirement option"
  | Judging WorkRecord EngineDescriptorFacts string
  | Reserving WorkRecord EngineDescriptorFacts string
  | Beginning WorkRecord EngineDescriptorFacts string
  | Acquiring WorkRecord EngineDescriptorFacts int i64
  | LaunchFailed WorkRecord EngineDescriptorFacts int i64 exn
  | Releasing ResourceRequirement round_result
  | Over round_result

definition judge_work :: "i64 \<Rightarrow> EngineDescriptorFacts list \<Rightarrow> WorkRecord \<Rightarrow> scheduler_phase" where
  "judge_work now inventory w =
     (if deadline_reached w now then Refusing w deadline_expired_text None
      else case select_engine w inventory of
        Inl failure \<Rightarrow> Refusing w failure None
      | Inr (engine, model) \<Rightarrow> Judging w engine model)"

fun scheduler_step :: "scheduler_env \<Rightarrow> scheduler_phase \<Rightarrow> Kernel \<Rightarrow> scheduler_phase \<times> Kernel" where
  "scheduler_step env Reaping k =
     (Expiring (sch_now env),
      k\<lparr>worker_pool := pool_reap_idle (sch_reap_wait env) (sch_reap_status env) (sch_now env) (worker_pool k)\<rparr>)"
| "scheduler_step env (Expiring now) k =
     (case store_expire_queued_deadlines (sch_expire_fault env) now (store k) of
        (Inl e, db) \<Rightarrow> (Over (Terminated e), k\<lparr>store := db\<rparr>)
      | (Inr _, db) \<Rightarrow> (Choosing now, k\<lparr>store := db\<rparr>))"
| "scheduler_step env (Choosing now) k =
     (case store_next_eligible (sch_next_fault env) now (store k) of
        Inl e \<Rightarrow> (Over (Terminated e), k)
      | Inr None \<Rightarrow> (Over Idle, k)
      | Inr (Some w) \<Rightarrow> (judge_work now (engine_inventory k) w, k))"
| "scheduler_step env (Refusing w failure reservation) k =
     (case refuse env w failure k of
        (res, k1) \<Rightarrow> (case reservation of None \<Rightarrow> (Over res, k1) | Some r \<Rightarrow> (Releasing r res, k1)))"
| "scheduler_step env (Judging w engine model) k =
     (case can_ever_reserve (engine_resources engine) (resources k) of
        Inl e \<Rightarrow> (Over (Terminated e), k)
      | Inr False \<Rightarrow>
          (Refusing w ''INSUFFICIENT_CAPACITY: selected engine requirements exceed configured Kernel capacity'' None, k)
      | Inr True \<Rightarrow> (Reserving w engine model, k))"
| "scheduler_step env (Reserving w engine model) k =
     (case try_reserve (engine_resources engine) (resources k) of
        (Inl e, m) \<Rightarrow> (Over (Terminated e), k\<lparr>resources := m\<rparr>)
      | (Inr False, m) \<Rightarrow> (Over NoCapacity, k\<lparr>resources := m\<rparr>)
      | (Inr True, m) \<Rightarrow> (Beginning w engine model, k\<lparr>resources := m\<rparr>))"
| "scheduler_step env (Beginning w engine model) k =
     (let started_at = sch_started_at env
      in if deadline_reached w started_at
         then (Refusing w deadline_expired_text (Some (engine_resources engine)), k)
         else case store_begin_attempt (sch_begin_fault env) (work_id w) (engine_id engine) model started_at (store k) of
           (Inl e, db) \<Rightarrow> (Releasing (engine_resources engine) (Terminated e), k\<lparr>store := db\<rparr>)
         | (Inr n, db) \<Rightarrow>
             if n = 0 then (Releasing (engine_resources engine) NotBegun, k\<lparr>store := db\<rparr>)
             else (Acquiring w engine n started_at, k\<lparr>store := db\<rparr>))"
| "scheduler_step env (Acquiring w engine n started_at) k =
     (case pool_acquire (sch_acquire_wait env) (sch_spawn env) (sch_spawned_at env) (engine_id engine) (worker_pool k) of
        (Inr worker, p) \<Rightarrow>
          (Over (Begun \<lparr>task_work = w, task_number = n, task_started_at = started_at,
                        task_worker = worker, task_requirement = engine_resources engine\<rparr>),
           k\<lparr>worker_pool := p\<rparr>)
      | (Inl e, p) \<Rightarrow> (LaunchFailed w engine n started_at e, k\<lparr>worker_pool := p\<rparr>))"
| "scheduler_step env (LaunchFailed w engine n started_at e) k =
     (case store_finish_retryable_failure (sch_finish_fault env) (work_id w) n ''FAILED''
             (''WORKER_LAUNCH_FAILURE: '' @ what e) (sch_failed_at env) (store k) of
        (Inl e2, db) \<Rightarrow> (Releasing (engine_resources engine) (Terminated e2), k\<lparr>store := db\<rparr>)
      | (Inr _, db) \<Rightarrow> (Releasing (engine_resources engine) NotLaunched, k\<lparr>store := db\<rparr>))"
| "scheduler_step env (Releasing r res) k = (Over res, give_back r k)"
| "scheduler_step env (Over res) k = (case res of Terminated e \<Rightarrow> (Over res, k) | _ \<Rightarrow> (Reaping, k))"

text \<open>The steps of one round without interruption.\<close>

fun scheduler_steps :: "nat \<Rightarrow> scheduler_env \<Rightarrow> scheduler_phase \<Rightarrow> Kernel \<Rightarrow> scheduler_phase \<times> Kernel" where
  "scheduler_steps n env (Over res) k = (Over res, k)"
| "scheduler_steps 0 env ph k = (ph, k)"
| "scheduler_steps (Suc n) env ph k = (case scheduler_step env ph k of (ph1, k1) \<Rightarrow> scheduler_steps n env ph1 k1)"

section \<open>One attempt\<close>

text \<open>
  \<open>execute_worker\<close> runs beside the scheduler and the connections, so it is a sequence of steps,
  one for each call on shared state; a phase says which call comes next. \<open>stop_\<close> is read anew
  each time.
\<close>

datatype attempt_phase =
    Executing
  | Cancelling
  | Failing string string
  | Checking "byte list"
  | Writing "byte list"
  | Committing
  | Rescuing exn
  | Finished

record attempt_env =
  att_stopping :: bool
  att_now :: i64
  att_fault :: sqlite_fault
  att_read_fault :: read_fault
  att_write_fault :: write_fault
  att_exec :: exec_env
  att_kill_status :: int

definition attempt_stop_at :: "WorkRecord \<Rightarrow> i64 \<Rightarrow> i64 option \<times> bool" where
  "attempt_stop_at w started =
     (let timed = (case timeout_ms w of None \<Rightarrow> (None, False) | Some t \<Rightarrow> (Some (add_i64 started t), True))
      in case deadline_ms w of
           None \<Rightarrow> timed
         | Some d \<Rightarrow> if fst timed = None \<or> d < the (fst timed) then (Some d, False) else timed)"

definition after_outcome :: "WorkerOutcome \<Rightarrow> attempt_phase" where
  "after_outcome out =
     (case outcome_kind out of
        Stopped \<Rightarrow> Finished
      | Cancelled \<Rightarrow> Cancelling
      | TimedOut \<Rightarrow> Failing ''TIMED_OUT'' (technical_failure_text out)
      | TechnicalFailure \<Rightarrow> Failing ''FAILED'' (technical_failure_text out)
      | Crashed \<Rightarrow> Failing ''FAILED'' (technical_failure_text out)
      | Succeeded \<Rightarrow> Checking (outcome_payload out))"

text \<open>The first step: the input file and the worker. \<open>None\<close> while the worker has not returned.\<close>

definition run_attempt :: "attempt_env \<Rightarrow> attempt_task \<Rightarrow> Kernel \<Rightarrow> attempt_phase option \<times> Kernel" where
  "run_attempt env task k =
     (if att_stopping env then (Some Finished, k)
      else case read_binary_bounded (att_read_fault env) (input_path (task_work task)) (files k) of
        Inl e \<Rightarrow> (Some (Rescuing e), k)
      | Inr input \<Rightarrow>
          (let stop = attempt_stop_at (task_work task) (task_started_at task);
               call = \<lparr>call_correlation = next_worker_correlation k, call_stop_at = fst stop,
                       call_timeout_wins = snd stop, call_kill_status = att_kill_status env\<rparr>;
               k1 = k\<lparr>next_worker_correlation := next_worker_correlation k + 1\<rparr>
           in case lease_execute call (att_exec env) input (task_started_at task)
                     (Some (task_worker task)) (worker_pool k) of
                (Return out, p) \<Rightarrow> (Some (after_outcome out), k1\<lparr>worker_pool := p\<rparr>)
              | (Throw e, p) \<Rightarrow> (Some (Rescuing e), k1\<lparr>worker_pool := p\<rparr>)
              | (Blocked, p) \<Rightarrow> (None, k1\<lparr>worker_pool := p\<rparr>)))"

text \<open>The next phase after a call on the store: an exception goes to the catch clause.\<close>

definition or_rescue :: "'a result \<times> Db \<Rightarrow> Kernel \<Rightarrow> attempt_phase \<times> Kernel" where
  "or_rescue r k =
     (case fst r of Inl e \<Rightarrow> Rescuing e | Inr _ \<Rightarrow> Finished, k\<lparr>store := snd r\<rparr>)"

fun attempt_step :: "attempt_env \<Rightarrow> attempt_task \<Rightarrow> attempt_phase \<Rightarrow> Kernel \<Rightarrow> attempt_phase option \<times> Kernel" where
  "attempt_step env task Executing k = run_attempt env task k"
| "attempt_step env task Cancelling k =
     (case or_rescue (store_finish_cancelled (att_fault env) (work_id (task_work task)) (task_number task)
              (att_now env) (store k)) k of (ph, k1) \<Rightarrow> (Some ph, k1))"
| "attempt_step env task (Failing st m) k =
     (case or_rescue (store_finish_retryable_failure (att_fault env) (work_id (task_work task))
              (task_number task) st m (att_now env) (store k)) k of (ph, k1) \<Rightarrow> (Some ph, k1))"
| "attempt_step env task (Checking data) k =
     (case store_cancel_requested (att_fault env) (work_id (task_work task)) (store k) of
        Inl e \<Rightarrow> (Some (Rescuing e), k)
      | Inr True \<Rightarrow> (Some Cancelling, k)
      | Inr False \<Rightarrow> (Some (Writing data), k))"
| "attempt_step env task (Writing data) k =
     (case write_binary_atomic (att_write_fault env) (result_path (task_work task)) data (files k) of
        (Inl e, fs) \<Rightarrow> (Some (Rescuing e), k\<lparr>files := fs\<rparr>)
      | (Inr _, fs) \<Rightarrow> (Some Committing, k\<lparr>files := fs\<rparr>))"
| "attempt_step env task Committing k =
     (case or_rescue (store_finish_success (att_fault env) (work_id (task_work task)) (task_number task)
              (att_now env) (store k)) k of (ph, k1) \<Rightarrow> (Some ph, k1))"
| "attempt_step env task (Rescuing e) k =
     (if att_stopping env then (Some Finished, k)
      else (Some Finished, k\<lparr>store := snd (store_finish_retryable_failure (att_fault env)
              (work_id (task_work task)) (task_number task) ''FAILED''
              (''WORKER_EXECUTION_FAILURE: '' @ what e) (att_now env) (store k))\<rparr>))"
| "attempt_step env task Finished k = (Some Finished, k)"

text \<open>The leases are released when \<open>execute_worker\<close> returns.\<close>

definition end_task :: "wait_env \<Rightarrow> i64 \<Rightarrow> attempt_task \<Rightarrow> Kernel \<Rightarrow> Kernel" where
  "end_task wait now task k =
     give_back (task_requirement task)
       (k\<lparr>worker_pool := pool_release wait now (task_worker task) (worker_pool k)\<rparr>)"

text \<open>The steps of one attempt without interruption, each with its own surroundings.\<close>

fun execute_worker :: "attempt_env list \<Rightarrow> attempt_task \<Rightarrow> attempt_phase \<Rightarrow> Kernel \<Rightarrow> attempt_phase option \<times> Kernel" where
  "execute_worker envs task Finished k = (Some Finished, k)"
| "execute_worker [] task ph k = (Some ph, k)"
| "execute_worker (env # envs) task ph k =
     (case attempt_step env task ph k of
        (Some ph1, k1) \<Rightarrow> execute_worker envs task ph1 k1
      | (None, k1) \<Rightarrow> (None, k1))"

section \<open>Start\<close>

text \<open>The constructor: the store and the files survive from the last run.\<close>

definition start_kernel ::
    "string \<Rightarrow> EngineDescriptorFacts list \<Rightarrow> (string, WorkerLaunchSpec) std_assoc \<Rightarrow> i64 \<Rightarrow>
     ResourceCapacity \<Rightarrow> sqlite_fault \<Rightarrow> i64 \<Rightarrow> Db \<Rightarrow> file_system \<Rightarrow> Kernel result \<times> Db" where
  "start_kernel dir inventory launches idle cap fault now db fs =
     (case new_resource_manager cap of
        Inl e \<Rightarrow> (Inl e, db)
      | Inr m \<Rightarrow>
          (case new_pool launches idle of
             Inl e \<Rightarrow> (Inl e, db)
           | Inr p \<Rightarrow>
               (case store_recover_interrupted fault now db of
                  (Inl e, db1) \<Rightarrow> (Inl e, db1)
                | (Inr _, db1) \<Rightarrow>
                    (Inr \<lparr>data_dir = dir, store = db1, files = fs, engine_inventory = inventory,
                          resources = m, worker_pool = p, next_worker_correlation = 1\<rparr>, db1))))"

end
