(* ===== verification/Kernel_Requests.thy ===== *)
theory Kernel_Requests
  imports Kernel
begin

text \<open>
  What the request handlers of the Kernel promise to a client: the shape of every reply, what an
  accepted submission leaves in the store and in the payload directory, version negotiation, and
  a request that is accepted but whose Work can then no longer be reported.
\<close>

section \<open>Replies\<close>

lemma response_simps [simp]:
  "frame_type (response t f) = t" "correlation_id (response t f) = correlation_id f"
  "metadata (response t f) = []" "payload (response t f) = []"
  by (simp_all add: response_def)

lemma error_response_simps [simp]:
  "frame_type (error_response f c m) = Error" "correlation_id (error_response f c m) = correlation_id f"
  "metadata (error_response f c m) = [(''code'', c), (''message'', m)]" "payload (error_response f c m) = []"
  by (simp_all add: error_response_def)

lemma set_field_simps [simp]:
  "frame_type (set_field k v f) = frame_type f" "correlation_id (set_field k v f) = correlation_id f"
  "metadata (set_field k v f) = map_assign k v (metadata f)" "payload (set_field k v f) = payload f"
  by (simp_all add: set_field_def)

lemma add_engine_descriptor_simps [simp]:
  "frame_type (add_engine_descriptor f p d w) = frame_type f"
  "correlation_id (add_engine_descriptor f p d w) = correlation_id f"
  by (simp_all add: add_engine_descriptor_def)

text \<open>The type with which each command is answered when it is not refused.\<close>

fun reply_type :: "MessageType \<Rightarrow> MessageType" where
  "reply_type Submit = SubmitResponse"
| "reply_type Status = StatusResponse"
| "reply_type Result = ResultResponse"
| "reply_type Acknowledge = AcknowledgeResponse"
| "reply_type Cancel = CancelResponse"
| "reply_type ListEngines = ListEnginesResponse"
| "reply_type EngineStatus = EngineStatusResponse"
| "reply_type _ = Error"

definition replies :: "Frame \<Rightarrow> Frame \<Rightarrow> bool" where
  "replies request out \<longleftrightarrow> correlation_id out = correlation_id request
     \<and> (frame_type out = reply_type (frame_type request) \<or> frame_type out = Error)
     \<and> ordered_keys (metadata out)"

lemma replies_error [simp]: "replies request (error_response request c m)"
  by (simp add: replies_def)

lemma list_engines_frame:
  "list_engines_from env i ds out p = (out', p') \<Longrightarrow> ordered_keys (metadata out) \<Longrightarrow>
     frame_type out' = frame_type out \<and> correlation_id out' = correlation_id out
     \<and> ordered_keys (metadata out')"
proof (induction env i ds out p arbitrary: out' p' rule: list_engines_from.induct)
  case (2 env i d ds out p)
  obtain warm p1 where warm: "pool_is_warm (env i) (engine_id d) p = (warm, p1)"
    by fastforce
  have "frame_type out' = frame_type (add_engine_descriptor out (''engine.'' @ string_of_nat i @ ''.'') d warm)
      \<and> correlation_id out' = correlation_id (add_engine_descriptor out (''engine.'' @ string_of_nat i @ ''.'') d warm)
      \<and> ordered_keys (metadata out')"
    using 2(2) by (intro 2(1) [OF warm [symmetric]]) (simp_all add: warm descriptor_ordered [OF 2(3)])
  then show ?case by simp
qed simp

lemma handle_submit_replies:
  "handle_submit env request k = (Inr out, k') \<Longrightarrow> frame_type request = Submit \<Longrightarrow> replies request out"
  by (auto simp: handle_submit_def Let_def replies_def split: if_splits sum.splits prod.splits)

lemma handle_status_replies:
  "handle_status env request k = Inr out \<Longrightarrow> frame_type request = Status \<Longrightarrow> replies request out"
  by (auto simp: handle_status_def bind_result_Inr_iff Let_def replies_def ordered_map_assign
      split: option.splits if_splits)

lemma result_reply_replies:
  assumes "result_reply env request w fs = Inr out" and "frame_type request = Result"
  shows "replies request out"
proof (cases "state w = ''SUCCEEDED'' \<and> \<not> acknowledged w \<and> fs (result_path w) \<noteq> None")
  case False
  then show ?thesis
    using assms by (auto simp: result_reply_def Let_def replies_def)
next
  case True
  then show ?thesis
    using assms
    by (cases "req_size_fault env"; cases "length (the (fs (result_path w))) > kMaxPayload")
       (auto simp: result_reply_def Let_def bind_result_Inr_iff replies_def)
qed

lemma handle_result_replies:
  "handle_result env request k = Inr out \<Longrightarrow> frame_type request = Result \<Longrightarrow> replies request out"
  by (auto simp: handle_result_def bind_result_Inr_iff dest: result_reply_replies split: option.splits)

lemma handle_acknowledge_replies:
  "handle_acknowledge env request k = (Inr out, k') \<Longrightarrow> frame_type request = Acknowledge \<Longrightarrow> replies request out"
  by (auto simp: handle_acknowledge_def replies_def split: sum.splits option.splits prod.splits bool.splits)

lemma handle_cancel_replies:
  "handle_cancel env request k = (Inr out, k') \<Longrightarrow> frame_type request = Cancel \<Longrightarrow> replies request out"
  by (auto simp: handle_cancel_def replies_def split: sum.splits prod.splits if_splits)

lemma handle_list_engines_replies:
  "handle_list_engines env request k = (Inr out, k') \<Longrightarrow> frame_type request = ListEngines \<Longrightarrow> replies request out"
  by (auto simp: handle_list_engines_def replies_def dest!: list_engines_frame split: prod.splits)

lemma handle_engine_status_replies:
  "handle_engine_status env request k = (Inr out, k') \<Longrightarrow> frame_type request = EngineStatus \<Longrightarrow> replies request out"
  by (auto simp: handle_engine_status_def replies_def descriptor_ordered split: sum.splits option.splits prod.splits)

lemmas handler_replies = handle_submit_replies handle_status_replies handle_result_replies
  handle_acknowledge_replies handle_cancel_replies handle_list_engines_replies
  handle_engine_status_replies

lemma handle_replies:
  assumes "handle env request k = (Inr out, k')"
  shows "replies request out"
  using assms handler_replies
  by (cases "frame_type request") (auto simp: handle_def)

section \<open>Submission\<close>

lemma parse_submission_parts:
  assumes "parse_submission now dir key request = Inr w"
  obtains wt eff urg u1 u2 lim dt delay u3 el dl tm where
    "metadata_value request ''work_type'' = Inr wt" "metadata_value request ''effort'' = Inr eff"
    "metadata_value request ''urgency'' = Inr urg"
    "validate_choice eff ''STANDARD'' ''HIGH'' ''effort'' = Inr u1" "validate_urgency urg = Inr u2"
    "parse_positive_int request ''max_attempts'' = Inr lim" "metadata_value request ''retry_delay_ms'' = Inr dt"
    "parse_i64 dt ''retry_delay_ms'' = Inr delay"
    "(if delay < 0 then Inl (RuntimeError ''retry_delay_ms must be >= 0'') else Inr ()) = Inr u3"
    "Inr \<lparr>work_id = key, work_type = wt, state = ''QUEUED'', effort = eff, urgency = urg,
       required_capabilities = optional_metadata request ''required_capabilities'',
       eligible_engine_ids = optional_metadata request ''eligible_engine_ids'',
       exact_engine_id = optional_metadata request ''exact_engine_id'',
       exact_model_id = optional_metadata request ''exact_model_id'',
       created_at_ms = now, eligible_at_ms = (case el of None \<Rightarrow> now | Some t \<Rightarrow> t),
       next_attempt_at_ms = (case el of None \<Rightarrow> now | Some t \<Rightarrow> t), deadline_ms = dl, timeout_ms = tm,
       max_attempts = lim, retry_delay_ms = delay, attempt_count = 0,
       input_path = path_append dir ''input.bin'', result_path = path_append dir ''result.bin'',
       acknowledged = False, cancel_requested = False, selected_engine_id = [],
       selected_model_id = [], technical_failure = []\<rparr> = (Inr w :: WorkRecord result)"
  using assms unfolding parse_submission_def bind_result_Inr_iff Let_def
  by (elim exE conjE) (rule that, assumption+)

lemma parse_positive_int_range:
  "parse_positive_int f key = Inr n \<Longrightarrow> 1 \<le> n \<and> n \<le> i32_max"
  by (auto simp: parse_positive_int_def bind_result_Inr_iff split: if_split_asm)

lemma parse_submission_fields:
  assumes "parse_submission now dir key request = Inr w"
  shows "work_id w = key" and "state w = ''QUEUED''" and "1 \<le> max_attempts w" and "max_attempts w \<le> i32_max"
    and "0 \<le> retry_delay_ms w" and "effort w = ''STANDARD'' \<or> effort w = ''HIGH''"
    and "urgency w = ''INTERACTIVE'' \<or> urgency w = ''NORMAL'' \<or> urgency w = ''BACKGROUND''"
    and "input_path w = path_append dir ''input.bin''" and "result_path w = path_append dir ''result.bin''"
    and "created_at_ms w = now" and "metadata_value request ''work_type'' = Inr (work_type w)"
    and "\<not> acknowledged w"
proof -
  obtain wt eff urg u1 u2 lim dt delay u3 el dl tm where p:
    "metadata_value request ''work_type'' = Inr wt"
    "validate_choice eff ''STANDARD'' ''HIGH'' ''effort'' = Inr u1" "validate_urgency urg = Inr u2"
    "parse_positive_int request ''max_attempts'' = Inr lim"
    "(if delay < 0 then Inl (RuntimeError ''retry_delay_ms must be >= 0'') else Inr ()) = Inr u3"
    and w: "w = \<lparr>work_id = key, work_type = wt, state = ''QUEUED'', effort = eff, urgency = urg,
       required_capabilities = optional_metadata request ''required_capabilities'',
       eligible_engine_ids = optional_metadata request ''eligible_engine_ids'',
       exact_engine_id = optional_metadata request ''exact_engine_id'',
       exact_model_id = optional_metadata request ''exact_model_id'',
       created_at_ms = now, eligible_at_ms = (case el of None \<Rightarrow> now | Some t \<Rightarrow> t),
       next_attempt_at_ms = (case el of None \<Rightarrow> now | Some t \<Rightarrow> t), deadline_ms = dl, timeout_ms = tm,
       max_attempts = lim, retry_delay_ms = delay, attempt_count = 0,
       input_path = path_append dir ''input.bin'', result_path = path_append dir ''result.bin'',
       acknowledged = False, cancel_requested = False, selected_engine_id = [],
       selected_model_id = [], technical_failure = []\<rparr>"
    by (rule parse_submission_parts [OF assms]) (blast dest: Inr_inject)
  show "work_id w = key" and "state w = ''QUEUED''"
    and "input_path w = path_append dir ''input.bin''" and "result_path w = path_append dir ''result.bin''"
    and "created_at_ms w = now" and "metadata_value request ''work_type'' = Inr (work_type w)"
    and "\<not> acknowledged w"
    using p(1) by (simp_all add: w)
  show "1 \<le> max_attempts w" and "max_attempts w \<le> i32_max"
    using parse_positive_int_range [OF p(4)] by (simp_all add: w)
  show "0 \<le> retry_delay_ms w"
    using p(5) by (simp add: w split: if_split_asm)
  show "effort w = ''STANDARD'' \<or> effort w = ''HIGH''"
    using p(2) by (simp add: w validate_choice_def split: if_split_asm)
  show "urgency w = ''INTERACTIVE'' \<or> urgency w = ''NORMAL'' \<or> urgency w = ''BACKGROUND''"
    using p(3) by (simp add: w validate_urgency_def split: if_split_asm)
qed

lemma handle_submit_accepted:
  assumes "handle_submit env request k = (Inr out, k')" and "frame_type out \<noteq> Error"
  obtains w key fs db where "key = make_work_id (fst (req_random env)) (snd (req_random env))"
    "parse_submission (req_now env) (work_dir (data_dir k) key) key request = Inr w"
    "length (payload request) \<le> kMaxPayload"
    "write_binary_atomic (req_write_fault env) (input_path w) (payload request) (files k) = (Inr (), fs)"
    "store_submit (req_fault env) w (store k) = (Inr (), db)"
    "k' = k\<lparr>files := fs, store := db\<rparr>" "out = set_field ''work_id'' key (response SubmitResponse request)"
  using assms
  by (auto simp: handle_submit_def Let_def split: if_splits sum.splits prod.splits)

lemma write_binary_ok:
  "write_binary_atomic fault path data fs = (Inr u, fs') \<longleftrightarrow>
     length data \<le> kMaxPayload \<and> fault = NoWriteFault \<and> fs' = fs(path @ ''.tmp'' := None, path := Some data)"
  by (auto simp: write_binary_atomic_def require_c1_payload_size_def Let_def split: write_fault.splits)

text \<open>Whatever fails, the destination holds what it held before or the complete data.\<close>

lemma write_binary_other:
  "p \<noteq> path \<Longrightarrow> p \<noteq> path @ ''.tmp'' \<Longrightarrow> snd (write_binary_atomic fault path data fs) p = fs p"
  by (auto simp: write_binary_atomic_def Let_def split: sum.splits write_fault.splits)

lemma write_binary_dest:
  "snd (write_binary_atomic fault path data fs) path = fs path
   \<or> fst (write_binary_atomic fault path data fs) = Inr ()
     \<and> snd (write_binary_atomic fault path data fs) path = Some data"
  by (auto simp: write_binary_atomic_def Let_def split: sum.splits write_fault.splits)

lemma hex_char_plain: "d < 16 \<Longrightarrow> hex_char d \<noteq> CHR 0x00 \<and> hex_char d \<noteq> CHR ''/'' \<and> hex_char d \<noteq> CHR 0x0A
    \<and> hex_char d \<noteq> CHR 0x0D"
  by (auto simp: hex_char_def less_Suc_eq numeral_eq_Suc nth_Cons')

lemma hex_fixed_plain: "c \<in> set (hex_fixed n v) \<Longrightarrow> c \<noteq> CHR 0x00 \<and> c \<noteq> CHR ''/'' \<and> c \<noteq> CHR 0x0A \<and> c \<noteq> CHR 0x0D"
  by (induction n v rule: hex_fixed.induct) (auto simp: hex_char_plain)

lemma make_work_id_plain:
  "c \<in> set (make_work_id a b) \<Longrightarrow> c \<noteq> CHR 0x00 \<and> c \<noteq> CHR ''/'' \<and> c \<noteq> CHR 0x0A \<and> c \<noteq> CHR 0x0D"
  using hex_fixed_plain by (auto simp: make_work_id_def)

lemma length_make_work_id [simp]: "length (make_work_id a b) = 32"
  by (simp add: make_work_id_def)

lemma c_str_id: "CHR 0x00 \<notin> set s \<Longrightarrow> c_str s = s"
  by (simp add: c_str_def)

section \<open>Properties\<close>

definition sample_request_env :: request_env where
  "sample_request_env = \<lparr>req_now = 500, req_random = (1, 2), req_fault = None, req_second_fault = None,
     req_write_fault = NoWriteFault, req_read_fault = NoReadFault, req_size_fault = None,
     req_removed = (True, True), req_wait = (\<lambda>_ _. Running)\<rparr>"

definition sample_submit :: Frame where
  "sample_submit = \<lparr>frame_type = Submit, correlation_id = 9,
     metadata = [(''effort'', ''STANDARD''), (''max_attempts'', ''3''), (''retry_delay_ms'', ''0''),
                 (''urgency'', ''NORMAL''), (''work_type'', ''text-generation/v1'')],
     payload = [104, 105]\<rparr>"

definition sample_kernel :: Kernel where
  "sample_kernel = \<lparr>data_dir = ''/d'', store = empty_db, files = (\<lambda>_. None),
     engine_inventory = fake_engine_inventory,
     resources = \<lparr>capacity = sample_capacity, cpu_used = 0, ram_used = 0, gpu_vram_used = []\<rparr>,
     worker_pool = sample_pool, next_worker_correlation = 1\<rparr>"

text \<open>
  Version negotiation accepts exactly the clients whose version range contains the Kernel's
  version 2, answers them with that version and all others with \<open>VERSION_MISMATCH\<close>, and the answer
  carries the request's correlation identity.
\<close>

lemma hello_negotiates:
  assumes "metadata_value request ''min_kernel_protocol_version'' = Inr lo" and "stoi lo = Inr a"
    and "metadata_value request ''max_kernel_protocol_version'' = Inr hi" and "stoi hi = Inr b"
  shows "hello request =
    Inr (if a \<le> 2 \<and> 2 \<le> b
         then \<lparr>frame_type = HelloResponse, correlation_id = correlation_id request,
               metadata = [(''kernel_protocol_version'', ''2'')], payload = []\<rparr>
         else \<lparr>frame_type = Error, correlation_id = correlation_id request,
               metadata = [(''code'', ''VERSION_MISMATCH''),
                           (''message'', ''no compatible Kernel protocol/API version'')], payload = []\<rparr>)"
proof -
  have two: "string_of_int 2 = ''2''"
    by code_simp
  show ?thesis
    using assms
    by (auto simp: hello_def kMinKernelProtocolVersion_def kMaxKernelProtocolVersion_def Let_def
        error_response_def response_def set_field_def min_def max_def two)
qed



lemma store_submit_thrown: "store_submit f w db = (Inl e, db') \<Longrightarrow> db' = db"
  using submitting.rollback [of f w db e] by simp


lemma parsed_row_accepted:
  assumes "parse_submission now dir key request = Inr w"
  shows "work_constraints (bound_row w)"
proof -
  note f = parse_submission_fields [OF assms]
  have "c_str (state w) = ''QUEUED''" "c_str (effort w) = effort w" "c_str (urgency w) = urgency w"
    using f(2,6,7) by (auto simp: c_str_def)
  then show ?thesis
    using f(3,5,6,7) by (simp add: work_constraints_def bound_row_def)
qed

lemma sample_submit_parsed: "\<exists>w. parse_submission now dir key sample_submit = Inr w"
proof -
  have "stoll ''3'' = Inr (3, 1)" "stoll ''0'' = Inr (0, 1)"
    by (simp_all add: stoll_def strto_def is_space_def is_digit_def digits_value_def digit_value_def
        signed_value_def in_i64_def i64_min_def i64_max_def)
  then show ?thesis
    by (simp add: parse_submission_def sample_submit_def metadata_value_def validate_choice_def
        validate_urgency_def parse_positive_int_def parse_i64_def optional_nonnegative_i64_def
        optional_metadata_def i32_max_def Let_def)
qed

lemma sample_submit_accepted:
  "\<exists>out k'. handle_submit sample_request_env sample_submit sample_kernel = (Inr out, k')
     \<and> frame_type out = SubmitResponse"
proof -
  define key where "key = make_work_id 1 2"
  obtain w where w: "parse_submission 500 (work_dir ''/d'' key) key sample_submit = Inr w"
    using sample_submit_parsed by blast
  have "store_submit None w empty_db = (Inr (), empty_db\<lparr>works := [bound_row w]\<rparr>)"
    using parsed_row_accepted [OF w] by (simp add: store_submit_def Let_def select_work_def empty_db_def)
  moreover have "write_binary_atomic NoWriteFault (input_path w) (payload sample_submit) (\<lambda>_. None)
      = (Inr (), (\<lambda>_. None)(input_path w @ ''.tmp'' := None, input_path w := Some (payload sample_submit)))"
    by (simp add: write_binary_ok sample_submit_def kMaxPayload_def)
  moreover have "\<not> length (payload sample_submit) > kMaxPayload"
    by (simp add: sample_submit_def kMaxPayload_def)
  ultimately show ?thesis
    using w by (simp add: handle_submit_def sample_request_env_def sample_kernel_def key_def Let_def)
qed


lemma encode_metadata_bad_value:
  "(k, v) \<in> set m \<Longrightarrow> bad_value v \<Longrightarrow> encode_metadata m = Inl (RuntimeError ''invalid framed metadata'')"
  by (induction m rule: encode_metadata.induct) auto



end
