(* ===== verification/Kernel_Steps.thy ===== *)
theory Kernel_Steps
  imports Kernel
begin

text \<open>
  The scheduler and the requests as sequences of steps: a round of \<open>scheduler_loop\<close> and the
  handling of a request, as the source has them, are their steps of theory \<open>Kernel\<close> without an
  interruption.
\<close>

section \<open>Rounds\<close>

lemma pool_store_swap: "(k :: Kernel)\<lparr>worker_pool := p, store := db\<rparr> = k\<lparr>store := db, worker_pool := p\<rparr>"
  by (cases k) simp

lemma scheduler_steps_over [simp]: "scheduler_steps n env (Over res) k = (Over res, k)"
  by (cases n) simp_all

lemma scheduler_steps_0: "scheduler_steps 0 env ph k = (ph, k)"
  by (cases ph) simp_all

lemma scheduler_steps_Suc:
  "(\<And>res. ph \<noteq> Over res) \<Longrightarrow>
     scheduler_steps (Suc n) env ph k = (case scheduler_step env ph k of (ph1, k1) \<Rightarrow> scheduler_steps n env ph1 k1)"
  by (cases ph) (auto split: prod.split)

lemma beginning_steps:
  "scheduler_steps (Suc (Suc (Suc (Suc n)))) env (Beginning w engine model) k =
     (case dispatch env w engine model k of (res, k1) \<Rightarrow> (Over res, k1))"
  supply append_Cons [simp del] append_Nil [simp del]
  by (simp add: dispatch_def Let_def refuse_def pool_store_swap split: prod.split sum.split)

lemma judging_steps:
  assumes "engine_inventory k = inventory"
  shows "scheduler_steps (Suc (Suc (Suc (Suc (Suc (Suc n)))))) env (judge_work (sch_now env) inventory w) k =
     (case schedule_work env w k of (res, k1) \<Rightarrow> (Over res, k1))"
  using beginning_steps [of n env w] assms
  by (simp add: schedule_work_def judge_work_def refuse_def del: scheduler_steps.simps scheduler_step.simps
      split: prod.split sum.split bool.split)
     (simp add: refuse_def split: prod.split sum.split bool.split)

lemma round_steps:
  "scheduler_steps 9 env Reaping k = (case scheduler_round env k of (res, k1) \<Rightarrow> (Over res, k1))"
proof -
  have nine: "(9 :: nat) = Suc (Suc (Suc (Suc (Suc (Suc (Suc (Suc (Suc 0))))))))"
    by simp
  show ?thesis
    unfolding nine scheduler_round_def Let_def
    by (simp add: judging_steps del: scheduler_steps.simps(3) split: prod.split sum.split option.split)
qed

section \<open>Requests\<close>

lemma request_steps_replied [simp]: "request_steps n env (Replied r) k = (Replied r, k)"
  by (cases n) simp_all

lemma request_steps_0: "request_steps 0 env ph k = (ph, k)"
  by (cases ph) simp_all

lemma request_steps_Suc:
  "(\<And>r. ph \<noteq> Replied r) \<Longrightarrow>
     request_steps (Suc n) env ph k = (case request_step env ph k of (ph1, k1) \<Rightarrow> request_steps n env ph1 k1)"
  by (cases ph) (auto split: prod.split)

lemma listing_steps:
  "length ds < n \<Longrightarrow> request_steps n env (Listing i ds out) k =
     (case list_engines_from (req_wait env) i ds out (worker_pool k) of (out', p) \<Rightarrow> (Replied (Inr out'), k\<lparr>worker_pool := p\<rparr>))"
proof (induction ds arbitrary: n i out k)
  case (Cons d ds)
  then obtain m where "n = Suc m" "length ds < m"
    by (cases n) auto
  then show ?case
    by (simp add: Cons.IH split: prod.split)
qed (auto split: prod.split simp: gr0_conv_Suc)

lemma submit_steps:
  "request_steps (Suc (Suc n)) env (Received request) k = (case handle_submit env request k of (r, k1) \<Rightarrow> (Replied r, k1))"
  if "frame_type request = Submit"
  using that by (simp add: request_received_def submit_received_def handle_submit_def Let_def split: prod.split sum.split)

lemma acknowledge_steps:
  "request_steps (Suc (Suc (Suc (Suc n)))) env (Received request) k = (case handle_acknowledge env request k of (r, k1) \<Rightarrow> (Replied r, k1))"
  if "frame_type request = Acknowledge"
  using that by (simp add: request_received_def find_received_def handle_acknowledge_def split: prod.split sum.split option.split bool.split)

lemma result_steps:
  "request_steps (Suc (Suc n)) env (Received request) k = (Replied (handle_result env request k), k)"
  if "frame_type request = Result"
  using that by (simp add: request_received_def find_received_def handle_result_def split: prod.split sum.split option.split)

lemma handle_steps:
  "request_steps (length (engine_inventory k) + 4) env (Received request) k =
     (case handle env request k of (r, k1) \<Rightarrow> (Replied r, k1))"
proof -
  have more: "length (engine_inventory k) + 4 = Suc (Suc (Suc (Suc (length (engine_inventory k)))))"
    by simp
  show ?thesis
  proof (cases "frame_type request")
    case ListEngines
    then show ?thesis
      using listing_steps [of "engine_inventory k" "Suc (Suc (Suc (length (engine_inventory k))))" env 0 _ k]
      by (simp add: more request_received_def handle_def handle_list_engines_def del: request_step.simps(8,9) split: prod.split)
  next
    case Submit
    then show ?thesis
      unfolding more by (simp add: submit_steps handle_def del: request_steps.simps)
  next
    case Acknowledge
    then show ?thesis
      unfolding more by (simp add: acknowledge_steps handle_def del: request_steps.simps)
  next
    case Result
    then show ?thesis
      unfolding more by (simp add: result_steps handle_def del: request_steps.simps)
  qed (simp_all add: more handle_def request_received_def split: prod.split)
qed

section \<open>Properties\<close>


end
