(* ===== verification/Kernel_Data.thy ===== *)
theory Kernel_Data
  imports Store_Contract Kernel_Requests Kernel_Steps
begin

text \<open>
  What the threads of the Kernel keep of the durable data. The invariant \<open>ok_data\<close> ties the rows
  of the store to the payload files and to the attempts in progress: every attempt that has not
  ended is the running attempt of its Work, no Work has two, and every result that a client may
  still ask for is complete on disk. Each request, scheduler round, step of an attempt and
  restart preserves it; \<open>calm\<close> is the part of that argument that most store calls share.
\<close>

section \<open>What other threads' calls keep\<close>

definition runs :: "Db \<Rightarrow> string \<Rightarrow> int \<Rightarrow> bool" where
  "runs db key n \<longleftrightarrow> (\<exists>w \<in> set (works db). work_id w = key \<and> state w = ''RUNNING'' \<and> attempt_count w = n)"

definition unclaimed :: "WorkRecord \<Rightarrow> bool" where
  "unclaimed w \<longleftrightarrow> state w = ''SUCCEEDED'' \<and> \<not> acknowledged w"

definition same_files :: "WorkRecord \<Rightarrow> WorkRecord \<Rightarrow> bool" where
  "same_files w w' \<longleftrightarrow> work_id w' = work_id w \<and> input_path w' = input_path w \<and> result_path w' = result_path w"

text \<open>
  A change of the store that keeps the invariant, every running attempt, and adds neither a row
  nor an unclaimed result.
\<close>

definition calm :: "Db \<Rightarrow> Db \<Rightarrow> bool" where
  "calm db db' \<longleftrightarrow> wf_db db' \<and> (\<forall>key n. runs db key n \<longrightarrow> runs db' key n)
     \<and> (\<forall>w' \<in> set (works db'). \<exists>w \<in> set (works db). same_files w w' \<and> (unclaimed w' \<longrightarrow> unclaimed w))"

lemma same_files_refl [simp]: "same_files w w"
  by (simp add: same_files_def)

lemma calm_refl [simp]: "wf_db db \<Longrightarrow> calm db db"
  by (auto simp: calm_def intro: same_files_refl)

lemma calm_trans: "calm a b \<Longrightarrow> calm b c \<Longrightarrow> calm a c"
proof -
  assume ab: "calm a b" and bc: "calm b c"
  have "\<exists>w \<in> set (works a). same_files w u \<and> (unclaimed u \<longrightarrow> unclaimed w)" if u: "u \<in> set (works c)" for u
  proof -
    obtain v where v: "v \<in> set (works b)" "same_files v u" "unclaimed u \<longrightarrow> unclaimed v"
      using bc u unfolding calm_def by blast
    obtain w where w: "w \<in> set (works a)" "same_files w v" "unclaimed v \<longrightarrow> unclaimed w"
      using ab v(1) unfolding calm_def by blast
    have "same_files w u"
      using v(2) w(2) by (simp add: same_files_def)
    with v w show ?thesis by blast
  qed
  then show "calm a c"
    using ab bc unfolding calm_def by blast
qed

lemma calm_wf: "calm a b \<Longrightarrow> wf_db b"
  by (simp add: calm_def)

lemma calm_works:
  assumes wf: "wf_db db'" and works: "works db' = map g (works db)"
    and g: "\<And>w. w \<in> set (works db) \<Longrightarrow> same_files w (g w) \<and> (unclaimed (g w) \<longrightarrow> unclaimed w)
       \<and> (state w = ''RUNNING'' \<longrightarrow> state (g w) = ''RUNNING'' \<and> attempt_count (g w) = attempt_count w)"
  shows "calm db db'"
  unfolding calm_def
proof (intro conjI allI impI ballI)
  fix key n
  assume "runs db key n"
  then obtain w where w: "w \<in> set (works db)" "work_id w = key" "state w = ''RUNNING''" "attempt_count w = n"
    by (auto simp: runs_def)
  then show "runs db' key n"
    using g [OF w(1)] unfolding runs_def works by (intro bexI [of _ "g w"]) (auto simp: same_files_def)
next
  fix w'
  assume "w' \<in> set (works db')"
  then show "\<exists>w \<in> set (works db). same_files w w' \<and> (unclaimed w' \<longrightarrow> unclaimed w)"
    using g by (auto simp: works)
qed (rule wf)

lemma calm_update:
  assumes "wf_db (update_works P g db)"
    and "\<And>w. w \<in> set (works db) \<Longrightarrow> P w \<Longrightarrow> same_files w (g w) \<and> (unclaimed (g w) \<longrightarrow> unclaimed w)
       \<and> (state w = ''RUNNING'' \<longrightarrow> state (g w) = ''RUNNING'' \<and> attempt_count (g w) = attempt_count w)"
  shows "calm db (update_works P g db)"
  using assms by (intro calm_works [where g = "\<lambda>w. if P w then g w else w"]) auto

lemma calm_expire: "wf_db db \<Longrightarrow> calm db (snd (store_expire_queued_deadlines f now db))"
  using store_expire_wf [of db f now]
  by (auto simp: store_expire_queued_deadlines_def same_files_def unclaimed_def split: option.splits
      intro!: calm_update)

lemma calm_fail_queued: "wf_db db \<Longrightarrow> calm db (snd (store_fail_queued f key m db))"
  using store_fail_queued_wf [of db f key m]
  by (auto simp: store_fail_queued_def same_files_def unclaimed_def split: option.splits
      intro!: calm_update)

lemma calm_acknowledge: "wf_db db \<Longrightarrow> calm db (snd (store_acknowledge f key db))"
  using store_acknowledge_wf [of db f key]
  by (auto simp: store_acknowledge_def same_files_def unclaimed_def Let_def split: option.splits
      intro!: calm_update)

lemma calm_cancel:
  assumes wf: "wf_db db"
  shows "calm db (snd (store_cancel f key db))"
proof (cases "select_work (\<lambda>w. work_id w = c_str key) db")
  case None
  then show ?thesis
    using wf by (simp add: store_cancel_def split: option.split)
next
  case (Some w)
  note wf' = store_cancel_wf [OF wf, of f key]
  consider "state w = ''QUEUED''" | "state w = ''RUNNING''" | "state w \<noteq> ''QUEUED''" "state w \<noteq> ''RUNNING''"
    by blast
  then show ?thesis
  proof cases
    case 1
    then show ?thesis
      using wf wf' Some
      by (auto simp: store_cancel_def same_files_def unclaimed_def split: option.split_asm option.split intro!: calm_update)
  next
    case 2
    then show ?thesis
      using wf wf' Some
      by (auto simp: store_cancel_def same_files_def unclaimed_def split: option.split_asm option.split intro!: calm_update)
  qed (use wf Some in \<open>simp add: store_cancel_def split: option.split\<close>)
qed

lemma runs_current:
  assumes "wf_db db" and "runs db key n" and "c_str key = key"
  shows "attempt_current db key n"
proof -
  obtain w where w: "w \<in> set (works db)" "work_id w = key" "attempt_count w = n"
    using assms(2) by (auto simp: runs_def)
  have "v = w" if "v \<in> set (works db)" "work_id v = key" for v
    using same_id_eq [OF assms(1) that(1) w(1)] that(2) w(2) by simp
  then show ?thesis
    unfolding attempt_current_def assms(3) using w(3) by blast
qed

text \<open>Ending an attempt leaves every other Work's attempt running.\<close>

definition calm_but :: "string \<Rightarrow> Db \<Rightarrow> Db \<Rightarrow> bool" where
  "calm_but key db db' \<longleftrightarrow> wf_db db' \<and> (\<forall>k n. k \<noteq> key \<longrightarrow> runs db k n \<longrightarrow> runs db' k n)
     \<and> (\<forall>w' \<in> set (works db'). \<exists>w \<in> set (works db). same_files w w'
          \<and> (unclaimed w' \<longrightarrow> unclaimed w \<or> work_id w = key \<and> state w = ''RUNNING''))"

lemma calm_but_works:
  assumes wf: "wf_db db'" and works: "works db' = map g (works db)"
    and other: "\<And>w. work_id w \<noteq> key \<Longrightarrow> g w = w"
    and g: "\<And>w. w \<in> set (works db) \<Longrightarrow> same_files w (g w)
      \<and> (unclaimed (g w) \<longrightarrow> unclaimed w \<or> work_id w = key \<and> state w = ''RUNNING'')"
  shows "calm_but key db db'"
  unfolding calm_but_def
proof (intro conjI allI impI ballI)
  fix k n
  assume k: "k \<noteq> key" "runs db k n"
  then obtain w where w: "w \<in> set (works db)" "work_id w = k" "state w = ''RUNNING''" "attempt_count w = n"
    by (auto simp: runs_def)
  then have "g w = w"
    using other k(1) by simp
  then show "runs db' k n"
    using w unfolding runs_def works by (intro bexI [of _ w]) (auto simp: image_iff intro: bexI [of _ w])
next
  fix w'
  assume "w' \<in> set (works db')"
  then show "\<exists>w \<in> set (works db). same_files w w'
      \<and> (unclaimed w' \<longrightarrow> unclaimed w \<or> work_id w = key \<and> state w = ''RUNNING'')"
    using g by (auto simp: works)
qed (rule wf)

lemma calm_but_refl: "wf_db db \<Longrightarrow> calm_but key db db"
  by (auto simp: calm_but_def intro: same_files_refl)

lemma calm_but_success:
  assumes "wf_db db" and "runs db key n" and "c_str key = key"
  shows "calm_but key db (snd (store_finish_success f key n t db))"
  using store_finish_success_wf [OF assms(1) runs_current [OF assms], of f t] assms(3)
  by (auto simp: store_finish_success_def running_work_def same_files_def calm_but_refl [OF assms(1)]
      split: option.splits if_split_asm
      intro!: calm_but_works [where g = "\<lambda>w. if running_work key w then w\<lparr>state := ''SUCCEEDED'', technical_failure := []\<rparr> else w"])

lemma calm_but_cancelled:
  assumes "wf_db db" and "runs db key n" and "c_str key = key"
  shows "calm_but key db (snd (store_finish_cancelled f key n t db))"
  using store_finish_cancelled_wf [OF assms(1) runs_current [OF assms], of f t] assms(3)
  by (auto simp: store_finish_cancelled_def running_work_def same_files_def calm_but_refl [OF assms(1)] unclaimed_def
      split: option.splits if_split_asm
      intro!: calm_but_works [where g = "\<lambda>w. if running_work key w then w\<lparr>state := ''CANCELLED'', technical_failure := ''cancelled''\<rparr> else w"])

lemma settle_failed_files [simp]:
  "same_files w (settle_failed c m t v w)" "\<not> unclaimed (settle_failed c m t v w)"
  by (auto simp: settle_failed_def same_files_def unclaimed_def)

lemma calm_but_retry:
  assumes "wf_db db" and "runs db key n" and "c_str key = key"
  shows "calm_but key db (snd (store_finish_retryable_failure f key n st m t db))"
proof (cases f key n st m t db rule: store_finish_retryable_failure_cases)
  case (settled w)
  show ?thesis
    using store_finish_retryable_failure_wf [OF assms(1) runs_current [OF assms], of f st m t] assms(3) settled(3)
    by (intro calm_but_works [where g = "\<lambda>v. if running_work key v then settle_failed ''cancelled'' (c_str m) t w v else v"])
       (auto simp: running_work_def)
qed (simp_all add: calm_but_refl assms(1))

lemma retry_rollback: "fst (store_finish_retryable_failure f key n st m t db) = Inl e \<Longrightarrow>
    snd (store_finish_retryable_failure f key n st m t db) = db"
  by (rule retrying.rollback)

lemma calm_begin:
  assumes wf: "wf_db db"
  shows "calm db (snd (store_begin_attempt f key eng mdl t db))"
proof (cases "\<exists>w \<in> set (works db). work_id w = c_str key \<and> state w = ''QUEUED''")
  case True
  then obtain w where w: "w \<in> set (works db)" "work_id w = c_str key" "state w = ''QUEUED''"
    by auto
  let ?n = "attempt_count w + 1"
  let ?g = "\<lambda>v. if work_id v = c_str key then v\<lparr>state := ''RUNNING'', attempt_count := ?n,
      selected_engine_id := c_str eng, selected_model_id := c_str mdl, technical_failure := []\<rparr> else v"
  have "calm db (attempt_begun (c_str key) (c_str eng) (c_str mdl) t ?n db)"
  proof (rule calm_works [where g = ?g])
    show "wf_db (attempt_begun (c_str key) (c_str eng) (c_str mdl) t ?n db)"
      using wf_db_begun [OF wf w(1,3)] w(2) by simp
    fix v
    assume v: "v \<in> set (works db)"
    then have "work_id v = c_str key \<Longrightarrow> v = w"
      using same_id_eq [OF wf v w(1)] w(2) by simp
    with w(3) show "same_files v (?g v) \<and> (unclaimed (?g v) \<longrightarrow> unclaimed v)
        \<and> (state v = ''RUNNING'' \<longrightarrow> state (?g v) = ''RUNNING'' \<and> attempt_count (?g v) = attempt_count v)"
      by (cases "work_id v = c_str key") (simp_all add: same_files_def unclaimed_def)
  qed (simp add: attempt_begun_def)
  then show ?thesis
    using store_begin_attempt_queued [OF wf w, of f eng mdl t] wf by auto
next
  case False
  then show ?thesis
    using store_begin_attempt_absent(1) [of db key f eng mdl t] wf by auto
qed

text \<open>An attempt that begins runs, and no other attempt of its Work did.\<close>

lemma begin_runs:
  assumes wf: "wf_db db" and "store_begin_attempt f key eng mdl t db = (Inr n, db')" and "n \<noteq> 0"
  shows "runs db' (c_str key) n" and "\<not> runs db (c_str key) m"
proof -
  obtain w where w: "w \<in> set (works db)" "work_id w = c_str key" "state w = ''QUEUED''"
    using assms(2,3) store_begin_attempt_absent(2) [of db key f eng mdl t n] by auto
  have eq: "n = attempt_count w + 1" "db' = attempt_begun (c_str key) (c_str eng) (c_str mdl) t n db"
    using store_begin_attempt_queued [OF wf w, of f eng mdl t] assms(2) by auto
  show "runs db' (c_str key) n"
    using w unfolding runs_def eq attempt_begun_def
    by (intro bexI [of _ "w\<lparr>state := ''RUNNING'', attempt_count := attempt_count w + 1,
         selected_engine_id := c_str eng, selected_model_id := c_str mdl, technical_failure := []\<rparr>"])
       (simp_all add: rev_image_eqI [of w])
  show "\<not> runs db (c_str key) m"
    using same_id_eq [OF wf _ w(1)] w(2,3) by (fastforce simp: runs_def)
qed

lemma submit_rows:
  assumes "wf_db db" and "store_submit f w db = (r, db')" and "state w = ''QUEUED''" and "max_attempts w \<le> i32_max"
  shows "calm db db' \<or> r = Inr () \<and> wf_db db' \<and> works db' = works db @ [bound_row w]
    \<and> (\<forall>key n. runs db key n \<longrightarrow> runs db' key n)"
proof (cases "db' = db")
  case False
  then have "r = Inr () \<and> works db' = works db @ [bound_row w]"
    using assms(2) by (auto simp: store_submit_def Let_def split: option.splits if_splits)
  moreover have "wf_db db'"
    using store_submit_wf [OF assms(1,3,4), of f] assms(2) by simp
  ultimately show ?thesis
    by (auto simp: runs_def)
qed (simp add: assms(1))

section \<open>Rows that are settled\<close>

text \<open>
  A row that has ended changes no more, except by its acknowledgement: what a request has read of
  it stays true while the scheduler and the attempts go on.
\<close>

definition open_row :: "WorkRecord \<Rightarrow> bool" where
  "open_row w \<longleftrightarrow> state w = ''QUEUED'' \<or> state w = ''RUNNING''"

definition kept :: "Db \<Rightarrow> Db \<Rightarrow> bool" where
  "kept db db' \<longleftrightarrow> (\<forall>w \<in> set (works db). \<not> open_row w \<longrightarrow> w \<in> set (works db'))"

definition claimed :: "Db \<Rightarrow> string \<Rightarrow> bool" where
  "claimed db key \<longleftrightarrow> (\<exists>w \<in> set (works db). work_id w = key \<and> state w = ''SUCCEEDED'' \<and> acknowledged w)"

lemma succeeded_settled: "state w = ''SUCCEEDED'' \<Longrightarrow> \<not> open_row w"
  by (simp add: open_row_def)

lemma kept_refl [simp]: "kept db db"
  by (simp add: kept_def)

lemma kept_attempts [simp]: "kept db (db'\<lparr>attempts := ats\<rparr>) = kept db db'"
  by (simp add: kept_def)

lemma kept_update:
  assumes "\<And>w. P w \<Longrightarrow> open_row w" and "works db' = works db"
  shows "kept db (update_works P g db')"
  using assms by (fastforce simp: kept_def image_iff)

lemma queued_open: "state w = ''QUEUED'' \<Longrightarrow> open_row w" and running_open: "running_work key w \<Longrightarrow> open_row w"
  by (simp_all add: open_row_def running_work_def)

lemma kept_expire: "kept db (snd (store_expire_queued_deadlines f now db))"
  by (auto simp: store_expire_queued_deadlines_def split: option.split intro!: kept_update queued_open)

lemma kept_fail_queued: "kept db (snd (store_fail_queued f key m db))"
  by (auto simp: store_fail_queued_def split: option.split intro!: kept_update queued_open)

lemma kept_begin: "kept db (snd (store_begin_attempt f key eng mdl t db))"
proof -
  have "kept db (update_works (\<lambda>w. work_id w = c_str key \<and> state w = ''QUEUED'' \<and> \<not> cancel_requested w) g db)" for g
    by (rule kept_update) (simp_all add: queued_open)
  then show ?thesis
    by (simp add: store_begin_attempt_def Let_def split: option.split)
qed

lemma kept_success: "kept db (snd (store_finish_success f key n t db))"
  by (auto simp: store_finish_success_def split: option.split intro!: kept_update elim!: running_open)

lemma kept_cancelled: "kept db (snd (store_finish_cancelled f key n t db))"
  by (auto simp: store_finish_cancelled_def split: option.split intro!: kept_update elim!: running_open)

lemma kept_retry: "kept db (snd (store_finish_retryable_failure f key n st m t db))"
proof (cases f key n st m t db rule: store_finish_retryable_failure_cases)
  case (settled w)
  have "kept db (update_works (running_work (c_str key)) g (update_attempts Q h db))" for g Q h
    by (rule kept_update) (simp_all add: running_open)
  then show ?thesis
    by (simp add: settled)
qed simp_all

lemmas kept_calls = kept_expire kept_fail_queued kept_begin kept_success kept_cancelled kept_retry

section \<open>Paths\<close>

definition plain_id :: "string \<Rightarrow> bool" where
  "plain_id key \<longleftrightarrow> key \<noteq> [] \<and> CHR 0x00 \<notin> set key \<and> CHR ''/'' \<notin> set key"

definition input_file :: "string \<Rightarrow> string \<Rightarrow> string" where
  "input_file dir key = path_append (work_dir dir key) ''input.bin''"

definition result_file :: "string \<Rightarrow> string \<Rightarrow> string" where
  "result_file dir key = path_append (work_dir dir key) ''result.bin''"

lemma plain_make_work_id: "plain_id (make_work_id a b)"
  using make_work_id_plain [of _ a b] length_make_work_id [of a b]
  by (auto simp: plain_id_def simp del: length_make_work_id)

lemma file_names:
  assumes "plain_id key"
  shows "result_file dir key = path_append dir ''work'' @ ''/'' @ key @ ''/result.bin''"
    and "input_file dir key = path_append dir ''work'' @ ''/'' @ key @ ''/input.bin''"
proof -
  have "last key \<noteq> CHR ''/''"
    using assms last_in_set by (fastforce simp: plain_id_def)
  moreover have "last (path_append dir ''work'') \<noteq> CHR ''/''" "path_append dir ''work'' \<noteq> []"
    by (simp_all add: path_append_def)
  ultimately show "result_file dir key = path_append dir ''work'' @ ''/'' @ key @ ''/result.bin''"
    and "input_file dir key = path_append dir ''work'' @ ''/'' @ key @ ''/input.bin''"
    using assms by (auto simp: result_file_def input_file_def work_dir_def plain_id_def
        path_append_def [of "path_append dir ''work''"] path_append_def [of "_ @ _"])
qed

lemma last_append_neq: "last xs \<noteq> last ys \<Longrightarrow> xs \<noteq> [] \<Longrightarrow> ys \<noteq> [] \<Longrightarrow> us @ xs \<noteq> vs @ ys"
  by (metis last_appendR)

lemma result_file_distinct:
  assumes "plain_id a" and "plain_id b"
  shows "result_file dir a = result_file dir b \<longleftrightarrow> a = b"
    and "result_file dir a \<noteq> input_file dir b"
    and "result_file dir a \<noteq> input_file dir b @ ''.tmp''"
    and "result_file dir a \<noteq> result_file dir b @ ''.tmp''"
proof -
  show "result_file dir a = result_file dir b \<longleftrightarrow> a = b"
    by (simp add: file_names assms)
  have "rev (result_file dir a) \<noteq> rev (input_file dir b)"
    by (simp add: file_names assms)
  then show "result_file dir a \<noteq> input_file dir b" by metis
  have "rev (result_file dir a) \<noteq> rev (input_file dir b @ ''.tmp'')"
    by (simp add: file_names assms)
  then show "result_file dir a \<noteq> input_file dir b @ ''.tmp''" by metis
  have "rev (result_file dir a) \<noteq> rev (result_file dir b @ ''.tmp'')"
    by (simp add: file_names assms)
  then show "result_file dir a \<noteq> result_file dir b @ ''.tmp''" by metis
qed

section \<open>Invariant of the data\<close>

definition ok_rows :: "string \<Rightarrow> Db \<Rightarrow> bool" where [data_inv]:
  "ok_rows dir db \<longleftrightarrow> (\<forall>w \<in> set (works db). plain_id (work_id w)
     \<and> input_path w = input_file dir (work_id w) \<and> result_path w = result_file dir (work_id w))"

definition task_id :: "attempt_task \<Rightarrow> string" where
  "task_id task = work_id (task_work task)"

definition unfinished :: "(attempt_task \<times> attempt_phase) list \<Rightarrow> attempt_task list" where
  "unfinished rs = map fst (filter (\<lambda>(task, ph). ph \<noteq> Finished) rs)"

definition ok_tasks :: "string \<Rightarrow> Db \<Rightarrow> (attempt_task \<times> attempt_phase) list \<Rightarrow> bool" where [data_inv]:
  "ok_tasks dir db rs \<longleftrightarrow>
     (\<forall>task \<in> fst ` set rs. plain_id (task_id task) \<and> result_path (task_work task) = result_file dir (task_id task))
     \<and> (\<forall>task \<in> set (unfinished rs). runs db (task_id task) (task_number task))
     \<and> distinct (map task_id (unfinished rs))"

definition has_result :: "file_system \<Rightarrow> string \<Rightarrow> bool" where
  "has_result fs path \<longleftrightarrow> (\<exists>data. fs path = Some data \<and> length data \<le> kMaxPayload)"

definition ok_files :: "Db \<Rightarrow> file_system \<Rightarrow> (attempt_task \<times> attempt_phase) list \<Rightarrow> bool" where [data_inv]:
  "ok_files db fs rs \<longleftrightarrow>
     (\<forall>w \<in> set (works db). unclaimed w \<longrightarrow> has_result fs (result_path w))
     \<and> (\<forall>(task, ph) \<in> set rs. ph = Committing \<longrightarrow> has_result fs (result_path (task_work task)))"

definition ok_data :: "Kernel \<Rightarrow> (attempt_task \<times> attempt_phase) list \<Rightarrow> bool" where [data_inv]:
  "ok_data k rs \<longleftrightarrow> CHR 0x00 \<notin> set (data_dir k) \<and> wf_db (store k) \<and> ok_rows (data_dir k) (store k)
     \<and> ok_tasks (data_dir k) (store k) rs \<and> ok_files (store k) (files k) rs"

lemma ok_rows_calm:
  assumes "calm db db'" and "ok_rows dir db"
  shows "ok_rows dir db'"
  using assms unfolding calm_def ok_rows_def same_files_def by metis

lemma ok_tasks_calm: "calm db db' \<Longrightarrow> ok_tasks dir db rs \<Longrightarrow> ok_tasks dir db' rs"
  by (auto simp: calm_def ok_tasks_def)

lemma ok_files_calm:
  assumes "calm db db'" and "ok_files db fs rs"
  shows "ok_files db' fs rs"
proof -
  have "has_result fs (result_path w')" if w': "w' \<in> set (works db')" "unclaimed w'" for w'
  proof -
    obtain w where "w \<in> set (works db)" "same_files w w'" "unclaimed w"
      using assms(1) w' unfolding calm_def by blast
    then show ?thesis
      using assms(2) by (auto simp: ok_files_def same_files_def)
  qed
  then show ?thesis
    using assms(2) by (simp add: ok_files_def)
qed

lemma ok_data_calm:
  assumes "ok_data k rs" and "calm (store k) (store k')" and "data_dir k' = data_dir k" and "files k' = files k"
  shows "ok_data k' rs"
  using assms calm_wf ok_rows_calm ok_tasks_calm ok_files_calm unfolding ok_data_def by metis

lemma ok_tasks_path:
  "ok_tasks dir db rs \<Longrightarrow> (task, ph) \<in> set rs \<Longrightarrow>
     plain_id (task_id task) \<and> result_path (task_work task) = result_file dir (task_id task)"
  by (force simp: ok_tasks_def)

lemma ok_files_agree:
  assumes rows: "ok_rows dir db" and tasks: "ok_tasks dir db rs" and ok: "ok_files db fs rs"
    and agree_rows: "\<And>w. w \<in> set (works db) \<Longrightarrow> unclaimed w \<Longrightarrow>
        fs' (result_file dir (work_id w)) = fs (result_file dir (work_id w))"
    and agree_tasks: "\<And>task. (task, Committing) \<in> set rs \<Longrightarrow>
        fs' (result_file dir (task_id task)) = fs (result_file dir (task_id task))"
  shows "ok_files db fs' rs"
  unfolding ok_files_def
proof (intro conjI ballI impI)
  fix w
  assume w: "w \<in> set (works db)" "unclaimed w"
  then show "has_result fs' (result_path w)"
    using ok rows agree_rows [OF w] by (simp add: ok_files_def ok_rows_def has_result_def)
next
  fix t
  assume t: "t \<in> set rs"
  show "case t of (task, ph) \<Rightarrow> ph = Committing \<longrightarrow> has_result fs' (result_path (task_work task))"
  proof (cases t)
    case (Pair task ph)
    then show ?thesis
      using ok t agree_tasks [of task] ok_tasks_path [OF tasks, of task ph]
      by (auto simp: ok_files_def has_result_def)
  qed
qed

section \<open>Steps of a request\<close>

definition own_paths :: "string \<Rightarrow> string \<Rightarrow> WorkRecord \<Rightarrow> bool" where
  "own_paths dir key w \<longleftrightarrow> work_id w = key \<and> plain_id key
     \<and> input_path w = input_file dir key \<and> result_path w = result_file dir key"

text \<open>What a request relies on between its steps.\<close>

fun ok_request :: "string \<Rightarrow> Db \<Rightarrow> request_phase \<Rightarrow> bool" where
  "ok_request dir db (Storing request key w) \<longleftrightarrow>
     plain_id key \<and> (\<exists>now. parse_submission now (work_dir dir key) key request = Inr w)"
| "ok_request dir db (ReadingResult request w) \<longleftrightarrow> (unclaimed w \<longrightarrow> w \<in> set (works db))"
| "ok_request dir db (Acknowledging request key w) \<longleftrightarrow> own_paths dir (c_str key) w"
| "ok_request dir db (RemovingInput request w) \<longleftrightarrow> own_paths dir (work_id w) w \<and> claimed db (work_id w)"
| "ok_request dir db (RemovingResult request w) \<longleftrightarrow> own_paths dir (work_id w) w \<and> claimed db (work_id w)"
| "ok_request dir db _ \<longleftrightarrow> True"

lemma claimed_kept: "kept db db' \<Longrightarrow> claimed db key \<Longrightarrow> claimed db' key"
  unfolding kept_def claimed_def using succeeded_settled by blast

lemma ok_request_kept: "kept db db' \<Longrightarrow> ok_request dir db ph \<Longrightarrow> ok_request dir db' ph"
  using claimed_kept by (cases "(dir, db, ph)" rule: ok_request.cases) (auto simp: kept_def unclaimed_def dest!: succeeded_settled)

lemma ok_data_input:
  assumes ok: "ok_data k rs" and key: "plain_id key"
    and wrote: "write_binary_atomic fault (input_file (data_dir k) key) data (files k) = (r, fs)"
  shows "ok_data (k\<lparr>files := fs\<rparr>) rs"
proof -
  have rows: "ok_rows (data_dir k) (store k)"
    and tasks: "ok_tasks (data_dir k) (store k) rs" and fls: "ok_files (store k) (files k) rs"
    using ok by (simp_all add: ok_data_def)
  have fs: "fs p = files k p" if "p \<noteq> input_file (data_dir k) key" "p \<noteq> input_file (data_dir k) key @ ''.tmp''" for p
    using write_binary_other [OF that] wrote by (metis snd_conv)
  have same: "fs (result_file (data_dir k) x) = files k (result_file (data_dir k) x)" if "plain_id x" for x
    using fs result_file_distinct(2,3) [OF that key] by metis
  have "ok_files (store k) fs rs"
  proof (rule ok_files_agree [OF rows tasks fls])
    show "fs (result_file (data_dir k) (work_id w)) = files k (result_file (data_dir k) (work_id w))"
      if "w \<in> set (works (store k))" for w
      using same rows that by (simp add: ok_rows_def)
    show "fs (result_file (data_dir k) (task_id task)) = files k (result_file (data_dir k) (task_id task))"
      if "(task, Committing) \<in> set rs" for task
      using same ok_tasks_path [OF tasks that] by simp
  qed
  then show ?thesis
    using ok by (simp add: ok_data_def)
qed

lemma ok_data_stored:
  assumes ok: "ok_data k rs" and key: "plain_id key"
    and w: "parse_submission now (work_dir (data_dir k) key) key request = Inr w"
    and st: "store_submit f w (store k) = (r, db)"
  shows "ok_data (k\<lparr>store := db\<rparr>) rs"
proof -
  note p = parse_submission_fields [OF w]
  have wf: "wf_db (store k)"
    using ok by (simp add: ok_data_def)
  from submit_rows [OF wf st p(2,4)] show ?thesis
  proof
    assume "calm (store k) db"
    then show ?thesis
      using ok_data_calm [OF ok, of "k\<lparr>store := db\<rparr>"] by simp
  next
    assume new: "r = Inr () \<and> wf_db db \<and> works db = works (store k) @ [bound_row w]
      \<and> (\<forall>key n. runs (store k) key n \<longrightarrow> runs db key n)"
    have nul: "CHR 0x00 \<notin> set (input_file (data_dir k) key)" "CHR 0x00 \<notin> set (result_file (data_dir k) key)"
      using ok key by (auto simp: ok_data_def file_names plain_id_def path_append_def)
    have row: "work_id (bound_row w) = key" "input_path (bound_row w) = input_file (data_dir k) key"
      "result_path (bound_row w) = result_file (data_dir k) key" "\<not> unclaimed (bound_row w)"
      using nul key
      by (simp_all add: bound_row_def p(1,2,8,9) c_str_id plain_id_def input_file_def [symmetric]
          result_file_def [symmetric] unclaimed_def)
    have "ok_rows (data_dir k) db"
      using ok new row key by (auto simp: ok_data_def ok_rows_def)
    moreover have "ok_tasks (data_dir k) db rs"
      using ok new by (auto simp: ok_data_def ok_tasks_def)
    moreover have "ok_files db (files k) rs"
      using ok new row(4) by (auto simp: ok_data_def ok_files_def)
    ultimately show ?thesis
      using ok new by (simp add: ok_data_def)
  qed
qed

lemma remove_file_other: "p \<noteq> path \<Longrightarrow> remove_file ok path fs p = fs p"
  by (simp add: remove_file_def)

lemma store_acknowledge_True:
  assumes "store_acknowledge f key db = (Inr True, db')"
  shows "\<exists>w \<in> set (works db). work_id w = c_str key \<and> unclaimed w"
    and "v \<in> set (works db') \<Longrightarrow> unclaimed v \<Longrightarrow> work_id v \<noteq> c_str key"
proof -
  let ?ready = "\<lambda>w. work_id w = c_str key \<and> state w = ''SUCCEEDED'' \<and> \<not> acknowledged w"
  have "length (filter ?ready (works db)) = 1"
    and db': "db' = update_works ?ready (\<lambda>w. w\<lparr>acknowledged := True\<rparr>) db"
    using assms by (auto simp: store_acknowledge_def Let_def split: option.splits)
  then have "filter ?ready (works db) \<noteq> []" by auto
  then show "\<exists>w \<in> set (works db). work_id w = c_str key \<and> unclaimed w"
    by (auto simp: filter_empty_conv unclaimed_def)
  show "v \<in> set (works db') \<Longrightarrow> unclaimed v \<Longrightarrow> work_id v \<noteq> c_str key"
    by (auto simp: db' unclaimed_def split: if_splits)
qed

lemma ok_tasks_runs: "ok_tasks dir db rs \<Longrightarrow> (task, ph) \<in> set rs \<Longrightarrow> ph \<noteq> Finished \<Longrightarrow>
    runs db (task_id task) (task_number task)"
  by (force simp: ok_tasks_def unfinished_def)

lemma acknowledged_claimed:
  assumes "store_acknowledge f key db = (Inr True, db')"
  shows "claimed db' (c_str key)"
proof -
  obtain w where w: "w \<in> set (works db)" "work_id w = c_str key" "unclaimed w"
    using store_acknowledge_True(1) [OF assms] by blast
  have "db' = update_works (\<lambda>w. work_id w = c_str key \<and> state w = ''SUCCEEDED'' \<and> \<not> acknowledged w)
      (\<lambda>w. w\<lparr>acknowledged := True\<rparr>) db"
    using assms by (auto simp: store_acknowledge_def Let_def split: option.splits)
  then show ?thesis
    using w unfolding claimed_def by (intro bexI [of _ "w\<lparr>acknowledged := True\<rparr>"]) (auto simp: unclaimed_def image_iff)
qed

text \<open>The files of a Work whose result was acknowledged are nobody's.\<close>

lemma ok_data_remove:
  assumes ok: "ok_data k rs" and key: "plain_id key" and claimed: "claimed (store k) key"
    and path: "path = input_file (data_dir k) key \<or> path = result_file (data_dir k) key"
  shows "ok_data (k\<lparr>files := remove_file done path (files k)\<rparr>) rs"
proof -
  have wf: "wf_db (store k)" and rows: "ok_rows (data_dir k) (store k)"
    and tasks: "ok_tasks (data_dir k) (store k) rs" and fls: "ok_files (store k) (files k) rs"
    using ok by (simp_all add: ok_data_def)
  obtain u where u: "u \<in> set (works (store k))" "work_id u = key" "state u = ''SUCCEEDED''" "acknowledged u"
    using claimed by (auto simp: claimed_def)
  let ?fs = "remove_file done path (files k)"
  have same: "?fs (result_file (data_dir k) x) = files k (result_file (data_dir k) x)" if "x \<noteq> key" "plain_id x" for x
    using path that result_file_distinct(1,2) [OF that(2) key] by (auto simp: remove_file_other)
  have other: "work_id v \<noteq> key" if "v \<in> set (works (store k))" "v \<noteq> u" for v
    using same_id_eq [OF wf that(1) u(1)] that(2) u(2) by auto
  have "ok_files (store k) ?fs rs"
  proof (rule ok_files_agree [OF rows tasks fls])
    fix v
    assume v: "v \<in> set (works (store k))" "unclaimed v"
    then have "work_id v \<noteq> key"
      using other u(4) by (auto simp: unclaimed_def)
    then show "?fs (result_file (data_dir k) (work_id v)) = files k (result_file (data_dir k) (work_id v))"
      using rows v(1) by (intro same) (simp_all add: ok_rows_def)
  next
    fix task
    assume t: "(task, Committing) \<in> set rs"
    obtain v where v: "v \<in> set (works (store k))" "work_id v = task_id task" "state v = ''RUNNING''"
      using ok_tasks_runs [OF tasks t] by (auto simp: runs_def)
    then have "task_id task \<noteq> key"
      using other [of v] u(3) by (cases "v = u") auto
    then show "?fs (result_file (data_dir k) (task_id task)) = files k (result_file (data_dir k) (task_id task))"
      using ok_tasks_path [OF tasks t] by (intro same) simp_all
  qed
  then show ?thesis
    using ok by (simp add: ok_data_def)
qed

lemma ok_data_pool: "ok_data (k\<lparr>worker_pool := p\<rparr>) rs = ok_data k rs"
  by (simp add: ok_data_def)

lemma found_row:
  assumes "ok_data k rs" and "store_find f key (store k) = Inr (Some w)"
  shows "w \<in> set (works (store k))" and "own_paths (data_dir k) (c_str key) w"
proof -
  have "select_work (\<lambda>w. work_id w = c_str key) (store k) = Some w"
    using assms(2) by (simp add: store_find_def split: option.splits)
  then show "w \<in> set (works (store k))" and "own_paths (data_dir k) (c_str key) w"
    using select_work_SomeD [of _ "store k" w] assms(1) by (fastforce simp: ok_data_def ok_rows_def own_paths_def)+
qed

lemma find_received_cases:
  assumes "find_received env request found k = (ph', k')"
  shows "k' = k \<and> ((\<exists>r. ph' = Replied r)
    \<or> (\<exists>key w. store_find (req_fault env) key (store k) = Inr (Some w) \<and> ph' = found key w))"
  using assms by (auto simp: find_received_def split: sum.splits option.splits)

lemma handle_cancel_store:
  assumes "handle_cancel env request k = (r, k')"
  shows "k' = k \<or> (\<exists>key. k' = k\<lparr>store := snd (store_cancel (req_fault env) key (store k))\<rparr>)"
proof (cases "metadata_value request ''work_id''")
  case (Inr key)
  obtain r db where "store_cancel (req_fault env) key (store k) = (r, db)"
    by fastforce
  then have "k' = k\<lparr>store := snd (store_cancel (req_fault env) key (store k))\<rparr>"
    using assms Inr by (cases r) (simp_all add: handle_cancel_def)
  then show ?thesis by blast
qed (use assms in \<open>simp add: handle_cancel_def\<close>)

lemma ok_data_received:
  assumes ok: "ok_data k rs" and step: "request_received env request k = (ph', k')"
  shows "ok_data k' rs \<and> ok_request (data_dir k') (store k') ph'"
proof (cases "frame_type request")
  case Submit
  let ?key = "make_work_id (fst (req_random env)) (snd (req_random env))"
  let ?dir = "work_dir (data_dir k) ?key"
  have step': "submit_received env request k = (ph', k')"
    using step Submit by (simp add: request_received_def)
  show ?thesis
  proof (cases "\<exists>w. \<not> length (payload request) > kMaxPayload \<and> parse_submission (req_now env) ?dir ?key request = Inr w")
    case False
    then have "k' = k \<and> (\<exists>r. ph' = Replied r)"
      using step' by (auto simp: submit_received_def Let_def split: sum.splits if_splits)
    with ok show ?thesis by auto
  next
    case True
    then obtain w where w: "parse_submission (req_now env) ?dir ?key request = Inr w"
      and len: "\<not> length (payload request) > kMaxPayload"
      by blast
    have path: "input_path w = input_file (data_dir k) ?key"
      by (simp add: parse_submission_fields(8) [OF w] input_file_def)
    obtain r fs where wrote: "write_binary_atomic (req_write_fault env) (input_path w) (payload request) (files k) = (r, fs)"
      by fastforce
    have k': "k' = k\<lparr>files := fs\<rparr>" "ph' = (case r of Inl e \<Rightarrow> Replied (Inl e) | Inr _ \<Rightarrow> Storing request ?key w)"
      using step' w wrote len by (cases r; simp add: submit_received_def Let_def)+
    show ?thesis
      using ok_data_input [OF ok plain_make_work_id wrote [unfolded path]] w plain_make_work_id
      unfolding k' by (cases r) auto
  qed
next
  case Result
  then show ?thesis
    using find_received_cases [of env request "\<lambda>key. ReadingResult request" k ph' k'] step ok found_row(1) [OF ok]
    by (auto simp: request_received_def)
next
  case Acknowledge
  then show ?thesis
    using find_received_cases [of env request "Acknowledging request" k ph' k'] step ok found_row(2) [OF ok]
    by (auto simp: request_received_def)
next
  case Cancel
  then obtain r where h: "handle_cancel env request k = (r, k')" "ph' = Replied r"
    using step by (auto simp: request_received_def split: prod.splits)
  have wf: "wf_db (store k)"
    using ok by (simp add: ok_data_def)
  have "ok_data k' rs"
    using handle_cancel_store [OF h(1)]
  proof
    assume "\<exists>key. k' = k\<lparr>store := snd (store_cancel (req_fault env) key (store k))\<rparr>"
    then show ?thesis
      using ok_data_calm [OF ok, of k'] calm_cancel [OF wf, of "req_fault env"] by auto
  qed (simp add: ok)
  with h show ?thesis by simp
next
  case EngineStatus
  then obtain r where h: "handle_engine_status env request k = (r, k')" "ph' = Replied r"
    using step by (auto simp: request_received_def split: prod.splits)
  then have "k' = k \<or> (\<exists>p. k' = k\<lparr>worker_pool := p\<rparr>)"
    by (auto simp: handle_engine_status_def split: sum.splits option.splits prod.splits)
  then show ?thesis
    using ok h(2) by (auto simp: ok_data_pool)
qed (use step ok in \<open>auto simp: request_received_def\<close>)

lemma ok_data_request:
  assumes ok: "ok_data k rs" and req: "ok_request (data_dir k) (store k) ph" and step: "request_step env ph k = (ph', k')"
  shows "ok_data k' rs \<and> ok_request (data_dir k') (store k') ph'"
proof (cases ph)
  case (Received request)
  then show ?thesis
    using ok_data_received [OF ok] step by simp
next
  case (Storing request key w)
  obtain r db where st: "store_submit (req_fault env) w (store k) = (r, db)"
    by fastforce
  then have "k' = k\<lparr>store := db\<rparr>" "\<exists>r. ph' = Replied r"
    using step Storing by (cases r; auto)+
  then show ?thesis
    using ok_data_stored [OF ok _ _ st] req Storing by auto
next
  case (Acknowledging request key w)
  have wf: "wf_db (store k)"
    using ok by (simp add: ok_data_def)
  obtain r db where ack: "store_acknowledge (req_second_fault env) key (store k) = (r, db)"
    by fastforce
  then have k': "k' = k\<lparr>store := db\<rparr>" "(\<exists>r. ph' = Replied r) \<or> r = Inr True \<and> ph' = RemovingInput request w"
    using step Acknowledging by (cases r; auto split: bool.splits)+
  have "ok_data k' rs"
    using ok_data_calm [OF ok, of k'] calm_acknowledge [OF wf, of "req_second_fault env" key] ack k'(1) by simp
  moreover have "ok_request (data_dir k') (store k') ph'"
    using k' req Acknowledging acknowledged_claimed [of "req_second_fault env" key "store k" db] ack
    by (auto simp: own_paths_def)
  ultimately show ?thesis by simp
next
  case (RemovingInput request w)
  then show ?thesis
    using step req ok_data_remove [OF ok, of "work_id w" "input_path w" "fst (req_removed env)"] by (auto simp: own_paths_def)
next
  case (RemovingResult request w)
  then show ?thesis
    using step req ok_data_remove [OF ok, of "work_id w" "result_path w" "snd (req_removed env)"] by (auto simp: own_paths_def)
next
  case (Listing i ds out)
  then have "(k' = k \<or> (\<exists>p. k' = k\<lparr>worker_pool := p\<rparr>)) \<and> ((\<exists>r. ph' = Replied r) \<or> (\<exists>j es o'. ph' = Listing j es o'))"
    using step by (cases ds) (auto split: prod.splits)
  then show ?thesis
    using ok by (auto simp: ok_data_pool)
qed (use step ok in auto)

lemma retry_unclaimed:
  assumes "store_finish_retryable_failure f key n st m t db = (r, db')" and "w \<in> set (works db')" and "unclaimed w"
  shows "w \<in> set (works db)"
proof (cases f key n st m t db rule: store_finish_retryable_failure_cases)
  case (settled v)
  then show ?thesis
    using assms by auto
qed (use assms in auto)

lemma plain_c_str: "plain_id key \<Longrightarrow> c_str key = key"
  by (simp add: plain_id_def c_str_id)

lemma ok_data_columns:
  "ok_data (k\<lparr>resources := m\<rparr>) rs = ok_data k rs" "ok_data (give_back q k) rs = ok_data k rs"
  "data_dir (give_back q k) = data_dir k" "store (give_back q k) = store k" "files (give_back q k) = files k"
  by (simp_all add: ok_data_def give_back_def)

lemma ok_data_begun:
  assumes ok: "ok_data k rs" and calm: "calm (store k) db" and run: "runs db (work_id w) (task_number task)"
    and new: "\<And>m. \<not> runs (store k) (work_id w) m"
    and w: "plain_id (work_id w)" "result_path w = result_file (data_dir k) (work_id w)" "task_work task = w"
  shows "ok_data (k\<lparr>store := db, worker_pool := p\<rparr>) ((task, Executing) # rs)"
proof -
  have ok': "ok_data (k\<lparr>store := db, worker_pool := p\<rparr>) rs"
    using ok_data_calm [OF ok, of "k\<lparr>store := db, worker_pool := p\<rparr>"] calm by simp
  have "task_id task \<notin> task_id ` set (unfinished rs)"
    using ok new w(3) by (auto simp: ok_data_def ok_tasks_def task_id_def)
  then show ?thesis
    using ok' run w by (auto simp: data_inv unfinished_def task_id_def)
qed

lemma next_eligible_row:
  assumes "store_next_eligible f now db = Inr (Some w)"
  shows "w \<in> set (works db)" "eligible_now now w"
proof -
  have "first_least queue_before (filter (eligible_now now) (works db)) = Some w"
    using assms by (simp add: store_next_eligible_def split: option.splits)
  then obtain us vs where "filter (eligible_now now) (works db) = us @ w # vs"
    by (rule queue_head)
  then have "w \<in> set (filter (eligible_now now) (works db))" by simp
  then show "w \<in> set (works db)" "eligible_now now w" by simp_all
qed

section \<open>Steps of an attempt\<close>

lemma unfinished_append [simp]: "unfinished (us @ vs) = unfinished us @ unfinished vs"
  by (simp add: unfinished_def)

lemma unfinished_Cons [simp]:
  "unfinished ((task, ph) # rs) = (if ph = Finished then unfinished rs else task # unfinished rs)"
  by (simp add: unfinished_def)

lemma ok_tasks_other:
  assumes "ok_tasks dir db (us @ (task, ph) # vs)" and "ph \<noteq> Finished" and "t \<in> set (unfinished us) \<union> set (unfinished vs)"
  shows "task_id t \<noteq> task_id task" and "runs db (task_id t) (task_number t)"
proof -
  have "task_id task \<notin> task_id ` (set (unfinished us) \<union> set (unfinished vs))"
    using assms(1,2) by (auto simp: ok_tasks_def)
  then show "task_id t \<noteq> task_id task"
    using assms(3) by (metis image_eqI)
  show "runs db (task_id t) (task_number t)"
    using assms by (auto simp: ok_tasks_def)
qed

lemma run_attempt_keeps:
  assumes "run_attempt env task k = (res, k')"
  shows "store k' = store k" "files k' = files k" "data_dir k' = data_dir k" "res \<noteq> Some Committing"
  using assms
  by (auto simp: run_attempt_def after_outcome_def Let_def
      split: if_splits sum.splits prod.splits io.splits WorkerOutcomeKind.splits)

lemma ok_data_phase:
  assumes "ok_data k (us @ (task, ph) # vs)" and "ph \<noteq> Finished"
    and "ph' = Committing \<Longrightarrow> has_result (files k) (result_path (task_work task))"
  shows "ok_data k (us @ (task, ph') # vs)"
  using assms by (auto simp: data_inv)

lemma ok_data_finished:
  assumes ok: "ok_data k (us @ (task, ph) # vs)" and ph: "ph \<noteq> Finished"
    and calm: "calm_but (task_id task) (store k) db"
    and new: "\<And>w. w \<in> set (works db) \<Longrightarrow> unclaimed w \<Longrightarrow> w \<in> set (works (store k)) \<or> ph = Committing"
  shows "ok_data (k\<lparr>store := db\<rparr>) (us @ (task, Finished) # vs)"
proof -
  let ?rs = "us @ (task, ph) # vs"
  have rows: "ok_rows (data_dir k) (store k)" and tasks: "ok_tasks (data_dir k) (store k) ?rs"
    and fls: "ok_files (store k) (files k) ?rs"
    using ok by (simp_all add: ok_data_def)
  have path: "plain_id (task_id task)" "result_path (task_work task) = result_file (data_dir k) (task_id task)"
    using ok_tasks_path [OF tasks, of task ph] by simp_all
  have from_row: "\<exists>w \<in> set (works (store k)). same_files w v
      \<and> (unclaimed v \<longrightarrow> unclaimed w \<or> work_id w = task_id task)" if "v \<in> set (works db)" for v
    using calm that unfolding calm_but_def by blast
  have "ok_rows (data_dir k) db"
    using rows from_row unfolding ok_rows_def same_files_def by metis
  moreover have "runs db (task_id t) (task_number t)" if "t \<in> set (unfinished us) \<union> set (unfinished vs)" for t
    using calm ok_tasks_other [OF tasks ph that] by (simp add: calm_but_def)
  moreover have "has_result (files k) (result_path v)" if v: "v \<in> set (works db)" "unclaimed v" for v
  proof (cases "v \<in> set (works (store k))")
    case True
    then show ?thesis
      using fls v(2) by (simp add: ok_files_def)
  next
    case False
    then have "ph = Committing"
      using new [OF v] by simp
    then have commit: "has_result (files k) (result_path (task_work task))"
      using fls by (simp add: ok_files_def)
    obtain w where w: "w \<in> set (works (store k))" "same_files w v" "unclaimed w \<or> work_id w = task_id task"
      using from_row [OF v(1)] v(2) by blast
    show ?thesis
      using w(3)
    proof
      assume "unclaimed w"
      then show ?thesis
        using fls w(1,2) by (simp add: ok_files_def same_files_def)
    next
      assume "work_id w = task_id task"
      then show ?thesis
        using commit path rows w(1,2) by (simp add: ok_rows_def same_files_def)
    qed
  qed
  ultimately show ?thesis
    using ok ph calm unfolding ok_data_def ok_tasks_def ok_files_def calm_but_def by auto
qed

lemma cancelled_unclaimed:
  assumes "w \<in> set (works (snd (store_finish_cancelled f key n t db)))" and "unclaimed w"
  shows "w \<in> set (works db)"
  using assms by (auto simp: store_finish_cancelled_def unclaimed_def split: option.splits if_split_asm)

lemma finish_rollback:
  "fst (store_finish_success f key n t db) = Inl e \<Longrightarrow> snd (store_finish_success f key n t db) = db"
  "fst (store_finish_cancelled f key n t db) = Inl e \<Longrightarrow> snd (store_finish_cancelled f key n t db) = db"
  "fst (store_finish_retryable_failure f key n st m t db) = Inl e \<Longrightarrow>
     snd (store_finish_retryable_failure f key n st m t db) = db"
  by (rule succeeding.rollback stopping.rollback retrying.rollback, assumption)+

lemma ok_data_or_rescue:
  assumes ok: "ok_data k (us @ (task, ph) # vs)" and ph: "ph \<noteq> Finished"
    and calm: "calm_but (task_id task) (store k) (snd r)"
    and new: "\<And>w. w \<in> set (works (snd r)) \<Longrightarrow> unclaimed w \<Longrightarrow> w \<in> set (works (store k)) \<or> ph = Committing"
    and rollback: "\<And>e. fst r = Inl e \<Longrightarrow> snd r = store k"
    and step: "or_rescue r k = (ph', k')"
  shows "ok_data k' (us @ (task, ph') # vs)"
proof (cases "fst r")
  case (Inl e)
  then have "k' = k" "ph' = Rescuing e"
    using step rollback by (auto simp: or_rescue_def)
  then show ?thesis
    using ok_data_phase [OF ok ph, of "Rescuing e"] by simp
next
  case (Inr u)
  then have "k' = k\<lparr>store := snd r\<rparr>" "ph' = Finished"
    using step by (auto simp: or_rescue_def)
  then show ?thesis
    using ok_data_finished [OF ok ph calm new] by simp
qed

lemma ok_data_writing:
  assumes ok: "ok_data k (us @ (task, Writing data) # vs)"
    and step: "attempt_step env task (Writing data) k = (Some ph', k')"
  shows "ok_data k' (us @ (task, ph') # vs)"
proof -
  let ?rs = "us @ (task, Writing data) # vs"
  let ?path = "result_path (task_work task)"
  obtain r fs where wrote: "write_binary_atomic (att_write_fault env) ?path data (files k) = (r, fs)"
    by fastforce
  have k': "k' = k\<lparr>files := fs\<rparr>" "ph' = (case r of Inl e \<Rightarrow> Rescuing e | Inr _ \<Rightarrow> Committing)"
    using step wrote by (cases r; auto)+
  have rows: "ok_rows (data_dir k) (store k)" and tasks: "ok_tasks (data_dir k) (store k) ?rs"
    and fls: "ok_files (store k) (files k) ?rs" and wf: "wf_db (store k)"
    using ok by (simp_all add: ok_data_def)
  have path: "plain_id (task_id task)" "?path = result_file (data_dir k) (task_id task)"
    using ok_tasks_path [OF tasks, of task "Writing data"] by simp_all
  have same: "fs (result_file (data_dir k) key) = files k (result_file (data_dir k) key)"
    if "plain_id key" "key \<noteq> task_id task" for key
    using write_binary_other [of "result_file (data_dir k) key" ?path "att_write_fault env" data "files k"]
      result_file_distinct(1,4) [OF that(1) path(1), of "data_dir k"] that(2) wrote by (simp add: path(2))
  have "ok_files (store k) fs ?rs"
  proof (rule ok_files_agree [OF rows tasks fls])
    fix w
    assume w: "w \<in> set (works (store k))" "unclaimed w"
    have "work_id w \<noteq> task_id task"
    proof
      assume "work_id w = task_id task"
      moreover obtain v where "v \<in> set (works (store k))" "work_id v = task_id task" "state v = ''RUNNING''"
        using ok_tasks_runs [OF tasks, of task "Writing data"] by (auto simp: runs_def)
      ultimately have "w = v" "state v = ''RUNNING''"
        using same_id_eq [OF wf w(1), of v] by simp_all
      then show False
        using w(2) by (simp add: unclaimed_def)
    qed
    then show "fs (result_file (data_dir k) (work_id w)) = files k (result_file (data_dir k) (work_id w))"
      using rows w(1) by (intro same) (simp_all add: ok_rows_def)
  next
    fix t
    assume t: "(t, Committing) \<in> set ?rs"
    then have "t \<in> set (unfinished us) \<union> set (unfinished vs)"
      by (force simp: unfinished_def)
    then have "task_id t \<noteq> task_id task"
      by (intro ok_tasks_other(1) [OF tasks]) simp_all
    then show "fs (result_file (data_dir k) (task_id t)) = files k (result_file (data_dir k) (task_id t))"
      using ok_tasks_path [OF tasks t] by (intro same) simp_all
  qed
  then have ok': "ok_data (k\<lparr>files := fs\<rparr>) ?rs"
    using ok by (simp add: ok_data_def)
  have "has_result fs ?path" if "ph' = Committing"
    using that k'(2) wrote by (cases r) (auto simp: write_binary_ok has_result_def)
  then show ?thesis
    unfolding k'(1) by (intro ok_data_phase [OF ok']) simp_all
qed

lemma ok_data_attempt:
  assumes ok: "ok_data k (us @ (task, ph) # vs)" and ph: "ph \<noteq> Finished"
    and step: "attempt_step env task ph k = (Some ph', k')"
  shows "ok_data k' (us @ (task, ph') # vs)"
proof -
  have wf: "wf_db (store k)" and tasks: "ok_tasks (data_dir k) (store k) (us @ (task, ph) # vs)"
    using ok by (simp_all add: ok_data_def)
  have run: "runs (store k) (task_id task) (task_number task)" and key: "c_str (task_id task) = task_id task"
    using ok_tasks_runs [OF tasks _ ph] ok_tasks_path [OF tasks, of task ph] by (simp_all add: plain_c_str)
  note calms = calm_but_success [OF wf run key] calm_but_cancelled [OF wf run key] calm_but_retry [OF wf run key]
  note rescue = ok_data_or_rescue [OF ok ph]
  show ?thesis
  proof (cases ph)
    case Executing
    then have "run_attempt env task k = (Some ph', k')"
      using step by simp
    note kept = run_attempt_keeps [OF this]
    then have "ok_data k' (us @ (task, ph) # vs)"
      using ok by (simp add: ok_data_def)
    then show ?thesis
      using kept(4) by (elim ok_data_phase [OF _ ph]) simp
  next
    case Cancelling
    let ?r = "store_finish_cancelled (att_fault env) (task_id task) (task_number task) (att_now env) (store k)"
    have res: "or_rescue ?r k = (ph', k')"
      using step Cancelling by (simp add: task_id_def split: prod.splits)
    show ?thesis
      by (rule rescue [OF calms(2) _ _ res], rule disjI1, erule (1) cancelled_unclaimed, erule finish_rollback(2))
  next
    case (Failing st m)
    let ?r = "store_finish_retryable_failure (att_fault env) (task_id task) (task_number task) st m (att_now env) (store k)"
    have res: "or_rescue ?r k = (ph', k')"
      using step Failing by (simp add: task_id_def split: prod.splits)
    show ?thesis
      by (rule rescue [OF calms(3) _ _ res], rule disjI1, erule (1) retry_unclaimed [OF prod.collapse [symmetric]],
          erule finish_rollback(3))
  next
    case (Checking data)
    then have "k' = k" "ph' \<noteq> Committing"
      using step by (auto split: sum.splits bool.splits)
    then show ?thesis
      using ok_data_phase [OF ok ph, of ph'] by simp
  next
    case (Writing data)
    then show ?thesis
      using ok_data_writing ok step by simp
  next
    case Committing
    let ?r = "store_finish_success (att_fault env) (task_id task) (task_number task) (att_now env) (store k)"
    have res: "or_rescue ?r k = (ph', k')"
      using step Committing by (simp add: task_id_def split: prod.splits)
    show ?thesis
      by (rule rescue [OF calms(1) _ _ res], rule disjI2 [OF Committing], erule finish_rollback(1))
  next
    case (Rescuing e)
    show ?thesis
    proof (cases "att_stopping env")
      case True
      then show ?thesis
        using step Rescuing ok_data_phase [OF ok ph, of Finished] by simp
    next
      case False
      let ?r = "store_finish_retryable_failure (att_fault env) (task_id task) (task_number task) ''FAILED''
          (''WORKER_EXECUTION_FAILURE: '' @ what e) (att_now env) (store k)"
      have "ph' = Finished" "k' = k\<lparr>store := snd ?r\<rparr>"
        using step Rescuing False by (simp_all add: task_id_def)
      moreover have "ok_data (k\<lparr>store := snd ?r\<rparr>) (us @ (task, Finished) # vs)"
        by (rule ok_data_finished [OF ok ph calms(3)], rule disjI1, erule (1) retry_unclaimed [OF prod.collapse [symmetric]])
      ultimately show ?thesis by simp
    qed
  qed (use ph in simp)
qed

section \<open>Steps of the scheduler\<close>

text \<open>The attempt that the scheduler has begun and not yet handed over, and the one it hands over.\<close>

fun pending :: "scheduler_phase \<Rightarrow> (attempt_task \<times> attempt_phase) list" where
  "pending (Acquiring w engine n started_at) =
     [(\<lparr>task_work = w, task_number = n, task_started_at = started_at, task_worker = 0,
        task_requirement = engine_resources engine\<rparr>, Executing)]"
| "pending (LaunchFailed w engine n started_at e) =
     [(\<lparr>task_work = w, task_number = n, task_started_at = started_at, task_worker = 0,
        task_requirement = engine_resources engine\<rparr>, Executing)]"
| "pending _ = []"

fun started :: "scheduler_phase \<Rightarrow> (attempt_task \<times> attempt_phase) list" where
  "started (Over (Begun task)) = [(task, Executing)]"
| "started _ = []"

fun ok_chosen :: "string \<Rightarrow> scheduler_phase \<Rightarrow> bool" where
  "ok_chosen dir (Judging w engine model) \<longleftrightarrow> own_paths dir (work_id w) w"
| "ok_chosen dir (Reserving w engine model) \<longleftrightarrow> own_paths dir (work_id w) w"
| "ok_chosen dir (Beginning w engine model) \<longleftrightarrow> own_paths dir (work_id w) w"
| "ok_chosen dir (Releasing r res) \<longleftrightarrow> started (Over res) = []"
| "ok_chosen dir _ \<longleftrightarrow> True"

lemma ok_data_fewer:
  assumes "ok_data k (us @ vs)"
  shows "ok_data k vs"
  using assms by (auto simp: data_inv unfinished_def)

lemma ok_data_worker:
  "ok_data k ((task\<lparr>task_worker := i\<rparr>, ph) # rs) = ok_data k ((task, ph) # rs)"
  by (auto simp: data_inv unfinished_def task_id_def)

lemma judge_work_phase:
  "judge_work now inventory w = ph \<Longrightarrow> pending ph = [] \<and> started ph = []
     \<and> (own_paths dir (work_id w) w \<longrightarrow> ok_chosen dir ph)"
  by (auto simp: judge_work_def split: if_splits sum.splits)

lemma ok_data_begun_step:
  assumes ok: "ok_data k rs" and w: "own_paths (data_dir k) (work_id w) w"
    and step: "scheduler_step env (Beginning w engine model) k = (ph', k')"
  shows "ok_data k' (pending ph' @ rs) \<and> started ph' = [] \<and> ok_chosen (data_dir k') ph'"
proof (cases "deadline_reached w (sch_started_at env)")
  case True
  then show ?thesis
    using step ok by (auto simp: Let_def)
next
  case False
  have wf: "wf_db (store k)"
    using ok by (simp add: ok_data_def)
  obtain r db where b: "store_begin_attempt (sch_begin_fault env) (work_id w) (engine_id engine) model
      (sch_started_at env) (store k) = (r, db)"
    by fastforce
  have calm: "calm (store k) db"
    using calm_begin [OF wf, of "sch_begin_fault env" "work_id w" "engine_id engine" model "sch_started_at env"] b by simp
  show ?thesis
  proof (cases "\<exists>n. r = Inr n \<and> n \<noteq> 0")
    case True
    then obtain n where n: "r = Inr n" "n \<noteq> 0" by blast
    then have ph': "ph' = Acquiring w engine n (sch_started_at env)" "k' = k\<lparr>store := db\<rparr>"
      using step False b by (auto simp: Let_def)
    let ?task = "\<lparr>task_work = w, task_number = n, task_started_at = sch_started_at env, task_worker = 0,
        task_requirement = engine_resources engine\<rparr>"
    have key: "c_str (work_id w) = work_id w"
      using w by (simp add: own_paths_def plain_c_str)
    have "ok_data (k\<lparr>store := db, worker_pool := worker_pool k\<rparr>) ((?task, Executing) # rs)"
      using begin_runs [OF wf b [unfolded n(1)] n(2)] key w
      by (intro ok_data_begun [OF ok calm]) (simp_all add: own_paths_def)
    then show ?thesis
      by (simp add: ph' ok_data_pool)
  next
    case none: False
    then have "k' = k\<lparr>store := db\<rparr>" "\<exists>q res. ph' = Releasing q res \<and> started (Over res) = []"
      using step False b by (cases r; auto simp: Let_def)+
    then show ?thesis
      using ok_data_calm [OF ok, of k'] calm by auto
  qed
qed

lemma ok_data_launch_failed:
  assumes ok: "ok_data k (pending (LaunchFailed w engine n t e) @ rs)"
    and step: "scheduler_step env (LaunchFailed w engine n t e) k = (ph', k')"
  shows "ok_data k' rs \<and> (\<exists>q res. ph' = Releasing q res \<and> started (Over res) = [])"
proof -
  let ?task = "\<lparr>task_work = w, task_number = n, task_started_at = t, task_worker = 0,
      task_requirement = engine_resources engine\<rparr>"
  let ?r = "store_finish_retryable_failure (sch_finish_fault env) (work_id w) n ''FAILED''
      (''WORKER_LAUNCH_FAILURE: '' @ what e) (sch_failed_at env) (store k)"
  have ok': "ok_data k ([] @ (?task, Executing) # rs)"
    using ok by simp
  then have wf: "wf_db (store k)" and tasks: "ok_tasks (data_dir k) (store k) ([] @ (?task, Executing) # rs)"
    by (simp_all add: ok_data_def)
  have run: "runs (store k) (work_id w) n" and key: "c_str (work_id w) = work_id w"
    using ok_tasks_runs [OF tasks, of ?task Executing] ok_tasks_path [OF tasks, of ?task Executing]
    by (simp_all add: task_id_def plain_c_str)
  have k': "k' = k\<lparr>store := snd ?r\<rparr>" "\<exists>q res. ph' = Releasing q res \<and> started (Over res) = []"
    using step by (cases ?r; cases "fst ?r"; auto)+
  have "ok_data (k\<lparr>store := snd ?r\<rparr>) ([] @ (?task, Finished) # rs)"
    by (rule ok_data_finished [OF ok'], simp, simp add: task_id_def calm_but_retry [OF wf run key],
        rule disjI1, erule (1) retry_unclaimed [OF prod.collapse [symmetric]])
  then have "ok_data k' ([(?task, Finished)] @ rs)"
    by (simp add: k'(1))
  then show ?thesis
    using ok_data_fewer k'(2) by blast
qed

lemma ok_data_scheduler:
  assumes ok: "ok_data k (pending ph @ rs)" and chosen: "ok_chosen (data_dir k) ph"
    and step: "scheduler_step env ph k = (ph', k')"
  shows "ok_data k' (pending ph' @ started ph' @ rs) \<and> ok_chosen (data_dir k') ph'"
proof -
  have wf: "wf_db (store k)"
    using ok by (simp add: ok_data_def)
  show ?thesis
  proof (cases ph)
    case Reaping
    then show ?thesis
      using step ok by (auto simp: ok_data_pool)
  next
    case (Expiring now)
    then have "k' = k\<lparr>store := snd (store_expire_queued_deadlines (sch_expire_fault env) now (store k))\<rparr>"
      "(\<exists>e. ph' = Over (Terminated e)) \<or> ph' = Choosing now"
      using step by (auto split: prod.splits sum.splits)
    then show ?thesis
      using Expiring ok ok_data_calm [of k rs k'] calm_expire [OF wf, of "sch_expire_fault env" now] by auto
  next
    case (Choosing now)
    consider "k' = k" "\<exists>res. ph' = Over res \<and> started ph' = []"
      | w where "store_next_eligible (sch_next_fault env) now (store k) = Inr (Some w)" "k' = k"
        "judge_work now (engine_inventory k) w = ph'"
      using step Choosing by (auto split: sum.splits option.splits)
    then show ?thesis
    proof cases
      case 1
      then show ?thesis
        using Choosing ok by auto
    next
      case (2 w)
      have "own_paths (data_dir k) (work_id w) w"
        using next_eligible_row(1) [OF 2(1)] ok by (auto simp: ok_data_def ok_rows_def own_paths_def)
      then show ?thesis
        using 2 judge_work_phase [OF 2(3)] Choosing ok by auto
    qed
  next
    case (Refusing w failure reservation)
    then have "k' = k\<lparr>store := snd (store_fail_queued (sch_fail_fault env) (work_id w) failure (store k))\<rparr>"
      "pending ph' = [] \<and> started ph' = [] \<and> ok_chosen (data_dir k) ph'"
      using step by (auto simp: refuse_def split: prod.splits sum.splits option.splits)
    then show ?thesis
      using Refusing ok ok_data_calm [of k rs k'] calm_fail_queued [OF wf, of "sch_fail_fault env" "work_id w" failure] by simp
  next
    case (Judging w engine model)
    then show ?thesis
      using step ok chosen by (auto split: sum.splits bool.splits)
  next
    case (Reserving w engine model)
    then show ?thesis
      using step ok chosen by (auto simp: ok_data_columns split: sum.splits bool.splits prod.splits)
  next
    case (Beginning w engine model)
    then show ?thesis
      using ok_data_begun_step [of k rs w env engine model ph' k'] ok chosen step by simp
  next
    case (Acquiring w engine n t)
    let ?task = "\<lparr>task_work = w, task_number = n, task_started_at = t, task_worker = 0,
        task_requirement = engine_resources engine\<rparr>"
    obtain r p where a: "pool_acquire (sch_acquire_wait env) (sch_spawn env) (sch_spawned_at env) (engine_id engine)
        (worker_pool k) = (r, p)"
      by fastforce
    show ?thesis
    proof (cases r)
      case (Inl e)
      then show ?thesis
        using step ok Acquiring a by (auto simp: ok_data_pool)
    next
      case (Inr i)
      then have "ph' = Over (Begun (?task\<lparr>task_worker := i\<rparr>))" "k' = k\<lparr>worker_pool := p\<rparr>"
        using step Acquiring a by auto
      moreover have "ok_data k ((?task\<lparr>task_worker := i\<rparr>, Executing) # rs)"
        using ok Acquiring by (simp only: ok_data_worker) simp
      ultimately show ?thesis
        by (simp add: ok_data_pool)
    qed
  next
    case (LaunchFailed w engine n t e)
    then have "ok_data k' rs \<and> (\<exists>q res. ph' = Releasing q res \<and> started (Over res) = [])"
      using ok_data_launch_failed [of k w engine n t e rs env ph' k'] ok step by simp
    then show ?thesis by auto
  next
    case (Releasing r res)
    then show ?thesis
      using step ok chosen by (cases res) (auto simp: ok_data_columns)
  next
    case (Over res)
    then show ?thesis
      using step ok by (cases res) auto
  qed
qed

section \<open>The end of an attempt, restart, start\<close>

lemma ok_data_ended:
  "ok_data k (us @ (task, Finished) # vs) \<Longrightarrow> ok_data (end_task wait now task k) (us @ vs)"
  by (auto simp: data_inv end_task_def give_back_def)

lemma settled_on_restart_files:
  "same_files w (settled_on_restart now w)" "unclaimed (settled_on_restart now w) \<longleftrightarrow> unclaimed w"
  by (auto simp: settled_on_restart_def unclaimed_def settle_failed_def same_files_def)

lemma start_kernel_fields:
  assumes "start_kernel dir inventory launches idle cap fault now db fs = (Inr k, db')"
  shows "store_recover_interrupted fault now db = (Inr (), store k)" "db' = store k" "data_dir k = dir" "files k = fs"
    "new_resource_manager cap = Inr (resources k)" "new_pool launches idle = Inr (worker_pool k)"
    "engine_inventory k = inventory"
  using assms by (auto simp: start_kernel_def split: sum.splits prod.splits)

lemma ok_data_restarted:
  assumes ok: "ok_data k rs"
    and start: "start_kernel (data_dir k) inventory launches idle cap fault now (store k) (files k) = (Inr k', db)"
  shows "ok_data k' []"
proof -
  have wf: "wf_db (store k)" and rows: "ok_rows (data_dir k) (store k)" and fls: "ok_files (store k) (files k) rs"
    using ok by (simp_all add: ok_data_def)
  note f = start_kernel_fields [OF start]
  have works: "works (store k') = map (settled_on_restart now) (works (store k))"
    using store_recover_works [OF wf, of fault now] f(1) by simp
  have "wf_db (store k')"
    using store_recover_wf [OF wf, of fault now] f(1) by simp
  moreover have "ok_rows (data_dir k) (store k')"
    using rows settled_on_restart_files(1) by (auto simp: ok_rows_def works same_files_def)
  moreover have "ok_files (store k') (files k) []"
    using fls settled_on_restart_files by (auto simp: ok_files_def works same_files_def)
  ultimately show ?thesis
    using ok f by (simp add: ok_data_def ok_tasks_def unfinished_def)
qed

lemma ok_data_start:
  assumes "start_kernel dir inventory launches idle cap fault now empty_db fs = (Inr k, db)" and "CHR 0x00 \<notin> set dir"
  shows "ok_data k []"
proof -
  note f = start_kernel_fields [OF assms(1)]
  have "works (store k) = []"
    using store_recover_works [OF wf_empty_db, of fault now] f(1) by (simp add: empty_db_def)
  moreover have "wf_db (store k)"
    using store_recover_wf [OF wf_empty_db, of fault now] f(1) by simp
  ultimately show ?thesis
    using f assms(2) by (simp add: data_inv unfinished_def)
qed

end
