(* ===== verification/Kernel_System.thy ===== *)
theory Kernel_System
  imports Kernel_Data
begin

text \<open>
  The running Kernel as a transition system: the thread that serves connections, the scheduler
  thread and the attempts interleave, one call on shared state at a time, and the process may end
  and restart on the same data at any point. Its invariant is that of the data (theory
  \<open>Kernel_Data\<close>) together with that of the leases: what is reserved and which workers are held is
  what the attempts in progress and the scheduler hold.
\<close>

section \<open>The running system\<close>

text \<open>
  The Kernel, what its two threads are about to do, and the attempts in progress. A step is the
  arrival of a request, a step of the request that is served, a step of the scheduler (which hands
  over an attempt when it has acquired a worker), a step of one attempt, the end of an attempt
  (its leases are released), or a restart: the process ends at any point and is started again on
  the same data directory. A scheduler that was ended by an exception takes no further step; that
  the whole process ends with it only removes behaviours.
\<close>

record System =
  kernel :: Kernel
  serving :: request_phase
  scheduler :: scheduler_phase
  in_progress :: "(attempt_task \<times> attempt_phase) list"

definition idle_system :: "Kernel \<Rightarrow> (attempt_task \<times> attempt_phase) list \<Rightarrow> System" where
  "idle_system k rs = \<lparr>kernel = k, serving = Waiting, scheduler = Reaping, in_progress = rs\<rparr>"

inductive sys_step :: "System \<Rightarrow> System \<Rightarrow> bool" where
  received: "serving s = Waiting \<Longrightarrow> sys_step s (s\<lparr>serving := Received f\<rparr>)"
| served: "request_step env (serving s) (kernel s) = (ph, k) \<Longrightarrow> sys_step s (s\<lparr>kernel := k, serving := ph\<rparr>)"
| scheduled: "scheduler_step env (scheduler s) (kernel s) = (ph, k) \<Longrightarrow>
    sys_step s (s\<lparr>kernel := k, scheduler := ph, in_progress := started ph @ in_progress s\<rparr>)"
| attempted: "in_progress s = us @ (task, ph) # vs \<Longrightarrow> ph \<noteq> Finished \<Longrightarrow>
    attempt_step env task ph (kernel s) = (Some ph', k) \<Longrightarrow>
    sys_step s (s\<lparr>kernel := k, in_progress := us @ (task, ph') # vs\<rparr>)"
| ended: "in_progress s = us @ (task, Finished) # vs \<Longrightarrow>
    sys_step s (s\<lparr>kernel := end_task wait now task (kernel s), in_progress := us @ vs\<rparr>)"
| restarted: "start_kernel (data_dir (kernel s)) inventory launches idle cap fault now
      (store (kernel s)) (files (kernel s)) = (Inr k, db) \<Longrightarrow>
    sys_step s (idle_system k [])"

text \<open>A first start on an empty data directory.\<close>

definition sys_start :: "string \<Rightarrow> System \<Rightarrow> bool" where
  "sys_start dir s \<longleftrightarrow> CHR 0x00 \<notin> set dir \<and>
     (\<exists>inventory launches idle cap fault now k db.
        start_kernel dir inventory launches idle cap fault now empty_db (\<lambda>_. None) = (Inr k, db)
        \<and> s = idle_system k [])"

definition sys_reachable :: "string \<Rightarrow> System \<Rightarrow> bool" where
  "sys_reachable dir s \<longleftrightarrow> (\<exists>s0. sys_start dir s0 \<and> sys_step\<^sup>*\<^sup>* s0 s)"

section \<open>Uninterrupted runs\<close>

lemma sys_request_steps:
  assumes "request_steps n env (serving s) (kernel s) = (ph, k)"
  shows "sys_step\<^sup>*\<^sup>* s (s\<lparr>kernel := k, serving := ph\<rparr>)"
  using assms
proof (induction n arbitrary: s)
  case 0
  then show ?case
    by (auto simp: request_steps_0)
next
  case (Suc n)
  show ?case
  proof (cases "\<exists>r. serving s = Replied r")
    case True
    then show ?thesis
      using Suc.prems by auto
  next
    case False
    obtain ph1 k1 where step: "request_step env (serving s) (kernel s) = (ph1, k1)"
      by fastforce
    have "sys_step s (s\<lparr>kernel := k1, serving := ph1\<rparr>)"
      by (rule served [OF step])
    moreover have "sys_step\<^sup>*\<^sup>* (s\<lparr>kernel := k1, serving := ph1\<rparr>) (s\<lparr>kernel := k, serving := ph\<rparr>)"
      using Suc.IH [of "s\<lparr>kernel := k1, serving := ph1\<rparr>"] Suc.prems False step by (simp add: request_steps_Suc)
    ultimately show ?thesis
      by (rule converse_rtranclp_into_rtranclp)
  qed
qed

lemma sys_scheduler_steps:
  assumes "scheduler_steps n env (scheduler s) (kernel s) = (ph, k)" and "started (scheduler s) = []"
  shows "sys_step\<^sup>*\<^sup>* s (s\<lparr>kernel := k, scheduler := ph, in_progress := started ph @ in_progress s\<rparr>)"
  using assms
proof (induction n arbitrary: s)
  case 0
  then show ?case
    by (auto simp: scheduler_steps_0)
next
  case (Suc n)
  show ?case
  proof (cases "\<exists>res. scheduler s = Over res")
    case True
    then show ?thesis
      using Suc.prems by auto
  next
    case False
    obtain ph1 k1 where step: "scheduler_step env (scheduler s) (kernel s) = (ph1, k1)"
      by fastforce
    let ?s1 = "s\<lparr>kernel := k1, scheduler := ph1, in_progress := started ph1 @ in_progress s\<rparr>"
    have first: "sys_step s ?s1"
      by (rule scheduled [OF step])
    have rest: "scheduler_steps n env ph1 k1 = (ph, k)"
      using Suc.prems(1) False step by (simp add: scheduler_steps_Suc)
    show ?thesis
    proof (cases "started ph1 = []")
      case True
      then have "sys_step\<^sup>*\<^sup>* ?s1 (s\<lparr>kernel := k, scheduler := ph, in_progress := started ph @ in_progress s\<rparr>)"
        using Suc.IH [of ?s1] rest by simp
      with first show ?thesis
        by (rule converse_rtranclp_into_rtranclp)
    next
      case False
      then obtain task where "ph1 = Over (Begun task)"
        by (cases ph1 rule: started.cases) auto
      then have "ph = ph1" "k = k1"
        using rest by simp_all
      with first show ?thesis
        by simp
    qed
  qed
qed

text \<open>A whole request, a whole round.\<close>

lemma sys_request:
  assumes "handle env f (kernel s) = (r, k)" and "serving s = Waiting"
  shows "sys_step\<^sup>*\<^sup>* s (s\<lparr>kernel := k\<rparr>)"
proof -
  have "sys_step s (s\<lparr>serving := Received f\<rparr>)"
    by (rule received [OF assms(2)])
  moreover have "sys_step\<^sup>*\<^sup>* (s\<lparr>serving := Received f\<rparr>) (s\<lparr>kernel := k, serving := Replied r\<rparr>)"
    using sys_request_steps [of _ env "s\<lparr>serving := Received f\<rparr>" "Replied r" k] handle_steps [of "kernel s" env f] assms(1)
    by simp
  moreover have "sys_step (s\<lparr>kernel := k, serving := Replied r\<rparr>) (s\<lparr>kernel := k, serving := Waiting\<rparr>)"
    using served [of env "s\<lparr>kernel := k, serving := Replied r\<rparr>"] by simp
  moreover have "s\<lparr>kernel := k, serving := Waiting\<rparr> = s\<lparr>kernel := k\<rparr>"
    using assms(2) by (cases s) simp
  ultimately show ?thesis
    by (metis converse_rtranclp_into_rtranclp rtranclp.rtrancl_into_rtrancl)
qed

lemma sys_round:
  assumes "scheduler_round env (kernel s) = (res, k)" and "scheduler s = Reaping" and "\<And>e. res \<noteq> Terminated e"
  shows "sys_step\<^sup>*\<^sup>* s (s\<lparr>kernel := k, in_progress := started (Over res) @ in_progress s\<rparr>)"
proof -
  let ?s1 = "s\<lparr>kernel := k, scheduler := Over res, in_progress := started (Over res) @ in_progress s\<rparr>"
  have "sys_step\<^sup>*\<^sup>* s ?s1"
    using sys_scheduler_steps [of 9 env s "Over res" k] round_steps [of env "kernel s"] assms(1,2) by simp
  moreover have "scheduler_step env (Over res) k = (Reaping, k)"
    using assms(3) by (cases res) auto
  then have "sys_step ?s1 (s\<lparr>kernel := k, scheduler := Reaping, in_progress := started (Over res) @ in_progress s\<rparr>)"
    using scheduled [of env ?s1 Reaping k] by simp
  moreover have "s\<lparr>kernel := k, scheduler := Reaping, in_progress := started (Over res) @ in_progress s\<rparr> = s\<lparr>kernel := k, in_progress := started (Over res) @ in_progress s\<rparr>"
    using assms(2) by (cases s) simp
  ultimately show ?thesis
    by (metis rtranclp.rtrancl_into_rtrancl)
qed

section \<open>Invariant of the leases\<close>

text \<open>What the scheduler has reserved and not handed over.\<close>

fun reserved :: "scheduler_phase \<Rightarrow> ResourceRequirement list" where
  "reserved (Refusing w failure (Some r)) = [r]"
| "reserved (Beginning w engine model) = [engine_resources engine]"
| "reserved (Acquiring w engine n started_at) = [engine_resources engine]"
| "reserved (LaunchFailed w engine n started_at e) = [engine_resources engine]"
| "reserved (Releasing r res) = [r]"
| "reserved _ = []"

definition use_of :: "Kernel \<Rightarrow> (attempt_task \<times> attempt_phase) list \<Rightarrow> PoolUse" where [lease_inv]:
  "use_of k rs = \<lparr>pool = worker_pool k, held = map (task_worker \<circ> fst) rs\<rparr>"

definition ok_leases :: "Kernel \<Rightarrow> ResourceRequirement list \<Rightarrow> (attempt_task \<times> attempt_phase) list \<Rightarrow> bool" where [lease_inv]:
  "ok_leases k qs rs \<longleftrightarrow> rm.accounts (resources k) (qs @ map (task_requirement \<circ> fst) rs) \<and> pool_inv (use_of k rs)"

declare give_back_def [lease_inv]

lemma ok_leases_step:
  assumes "ok_leases k qs rs" and "resources k' = resources k" and "pool_step (use_of k rs) (use_of k' rs)"
  shows "ok_leases k' qs rs"
  using assms pool_step_inv by (simp add: ok_leases_def)

lemma ok_leases_same:
  "ok_leases k qs rs \<Longrightarrow> resources k' = resources k \<Longrightarrow> worker_pool k' = worker_pool k \<Longrightarrow> ok_leases k' qs rs"
  by (simp add: lease_inv)

lemma ok_leases_phase: "ok_leases k qs (us @ (task, ph') # vs) = ok_leases k qs (us @ (task, ph) # vs)"
  by (simp add: lease_inv)

lemma ok_leases_warm:
  assumes "ok_leases k qs rs" and "pool_is_warm env eid (worker_pool k) = (b, p)"
  shows "ok_leases (k\<lparr>worker_pool := p\<rparr>) qs rs"
  using assms pool_step.warm [of env eid "use_of k rs" b p]
  by (intro ok_leases_step [OF assms(1)]) (simp_all add: use_of_def)

lemma engine_status_pool:
  assumes "handle_engine_status env request k = (r, k')"
  shows "k' = k \<or> (\<exists>eid b p. pool_is_warm (req_wait env 0) eid (worker_pool k) = (b, p) \<and> k' = k\<lparr>worker_pool := p\<rparr>)"
  using assms by (auto simp: handle_engine_status_def split: sum.splits option.splits prod.splits)

lemma request_received_columns:
  assumes "request_received env request k = (ph, k')" and "frame_type request \<noteq> EngineStatus"
  shows "resources k' = resources k \<and> worker_pool k' = worker_pool k"
proof (cases "frame_type request")
  case Submit
  then show ?thesis
    using assms by (auto simp: request_received_def submit_received_def Let_def split: if_splits sum.splits prod.splits)
next
  case Cancel
  then obtain r where "handle_cancel env request k = (r, k')"
    using assms by (auto simp: request_received_def split: prod.splits)
  from handle_cancel_store [OF this] show ?thesis by auto
next
  case Result
  then show ?thesis
    using assms find_received_cases [of env request "\<lambda>key. ReadingResult request" k ph k'] by (simp add: request_received_def)
next
  case Acknowledge
  then show ?thesis
    using assms find_received_cases [of env request "Acknowledging request" k ph k'] by (simp add: request_received_def)
qed (use assms in \<open>auto simp: request_received_def\<close>)

lemma ok_leases_request:
  assumes ok: "ok_leases k qs rs" and step: "request_step env ph k = (ph', k')"
  shows "ok_leases k' qs rs"
proof (cases ph)
  case (Received request)
  show ?thesis
  proof (cases "frame_type request = EngineStatus")
    case True
    then obtain r where "handle_engine_status env request k = (r, k')"
      using step Received by (auto simp: request_received_def split: prod.splits)
    from engine_status_pool [OF this] show ?thesis
      using ok ok_leases_warm [OF ok] by auto
  next
    case False
    then show ?thesis
      using step Received request_received_columns [of env request k ph' k'] ok_leases_same [OF ok] by simp
  qed
next
  case (Listing i ds out)
  show ?thesis
  proof (cases ds)
    case (Cons d ds')
    then show ?thesis
      using step Listing ok_leases_warm [OF ok] by (auto split: prod.splits)
  qed (use step Listing ok in simp)
next
  case (Acknowledging request key w)
  then have "resources k' = resources k \<and> worker_pool k' = worker_pool k"
    using step by (auto split: prod.splits sum.splits bool.splits)
  then show ?thesis
    using ok_leases_same [OF ok] by simp
qed (use step ok_leases_same [OF ok, of k'] ok in \<open>auto split: prod.splits sum.splits\<close>)

lemma ok_leases_reserve:
  assumes ok: "ok_leases k [] rs" and r: "try_reserve q (resources k) = (r, m)"
  shows "ok_leases (k\<lparr>resources := m\<rparr>) (if r = Inr True then [q] else []) rs"
proof -
  have acc: "rm.accounts (resources k) (map (task_requirement \<circ> fst) rs)"
    using ok by (simp add: ok_leases_def)
  show ?thesis
    using rm.accounts_reserve [OF acc, of q] ok r by (auto simp: granted_by_def lease_inv)
qed

lemma ok_leases_release:
  assumes "ok_leases k [r] rs"
  shows "ok_leases (give_back r k) [] rs"
  using assms rm.accounts_release [of "resources k" "[]" r] by (simp add: lease_inv)

lemma ok_leases_acquire:
  assumes ok: "ok_leases k [q] rs"
    and step: "pool_acquire env spawn now eid (worker_pool k) = (r, p)"
  shows "case r of Inl e \<Rightarrow> ok_leases (k\<lparr>worker_pool := p\<rparr>) [q] rs
    | Inr i \<Rightarrow> ok_leases (k\<lparr>worker_pool := p\<rparr>) [] ((\<lparr>task_work = w, task_number = n, task_started_at = t, task_worker = i,
          task_requirement = q\<rparr>, Executing) # rs)"
proof -
  have inv: "pool_inv (use_of k rs)" and acc: "rm.accounts (resources k) (q # map (task_requirement \<circ> fst) rs)"
    using ok by (simp_all add: ok_leases_def)
  have "pool_acquire env spawn now eid (pool (use_of k rs)) = (r, p)"
    using step by (simp add: use_of_def)
  from pool_acquire_inv [OF inv this] show ?thesis
    using acc by (cases r) (simp_all add: lease_inv)
qed

lemma ok_leases_scheduler:
  assumes ok: "ok_leases k (reserved ph) rs" and chosen: "ok_chosen dir ph" and step: "scheduler_step env ph k = (ph', k')"
  shows "ok_leases k' (reserved ph') (started ph' @ rs)"
proof (cases ph)
  case Reaping
  then have "ph' = Expiring (sch_now env)" "k' = k\<lparr>worker_pool := pool_reap_idle (sch_reap_wait env) (sch_reap_status env)
      (sch_now env) (worker_pool k)\<rparr>"
    using step by simp_all
  then show ?thesis
    using ok Reaping ok_leases_step [OF ok, of k']
      pool_step.reaped [of "use_of k rs" "sch_reap_wait env" "sch_reap_status env" "sch_now env"]
    by (simp add: use_of_def)
next
  case (Expiring now)
  then show ?thesis
    using step ok ok_leases_same [of k "[]" rs k'] by (auto split: prod.splits sum.splits)
next
  case (Choosing now)
  then have "k' = k \<and> reserved ph' = [] \<and> started ph' = []"
    using step by (auto simp: judge_work_def split: sum.splits option.splits if_splits)
  then show ?thesis
    using ok Choosing by simp
next
  case (Refusing w failure reservation)
  then have "resources k' = resources k \<and> worker_pool k' = worker_pool k \<and> reserved ph' = reserved ph \<and> started ph' = []"
    using step by (auto simp: refuse_def split: prod.splits sum.splits option.splits)
  then show ?thesis
    using ok ok_leases_same [OF ok, of k'] by simp
next
  case (Judging w engine model)
  then show ?thesis
    using step ok by (auto split: sum.splits bool.splits)
next
  case (Reserving w engine model)
  then show ?thesis
    using step ok ok_leases_reserve [of k rs "engine_resources engine"] by (fastforce split: sum.splits bool.splits prod.splits)
next
  case (Beginning w engine model)
  then have "resources k' = resources k \<and> worker_pool k' = worker_pool k \<and> reserved ph' = reserved ph \<and> started ph' = []"
    using step by (auto simp: Let_def split: prod.splits sum.splits if_splits)
  then show ?thesis
    using ok ok_leases_same [OF ok, of k'] by simp
next
  case (Acquiring w engine n t)
  obtain r p where a: "pool_acquire (sch_acquire_wait env) (sch_spawn env) (sch_spawned_at env) (engine_id engine)
      (worker_pool k) = (r, p)"
    by fastforce
  from ok_leases_acquire [OF _ a, of "engine_resources engine" rs w n t] show ?thesis
    using ok step Acquiring a by (cases r) auto
next
  case (LaunchFailed w engine n t e)
  then have "resources k' = resources k \<and> worker_pool k' = worker_pool k \<and> reserved ph' = reserved ph \<and> started ph' = []"
    using step by (auto split: prod.splits sum.splits)
  then show ?thesis
    using ok ok_leases_same [OF ok, of k'] by simp
next
  case (Releasing r res)
  then have "ph' = Over res" "k' = give_back r k" "started (Over res) = []"
    using step chosen by auto
  then show ?thesis
    using ok Releasing ok_leases_release [of k r rs] by simp
next
  case (Over res)
  then show ?thesis
    using step ok by (cases res) auto
qed

lemma run_attempt_pool:
  assumes "run_attempt env task k = (res, k')"
  obtains "k' = k" | w where "resources k' = resources k"
    "worker_pool k' = (worker_pool k)\<lparr>processes := (processes (worker_pool k))[task_worker task := w]\<rparr>"
    "pool_columns w = pool_columns (processes (worker_pool k) ! task_worker task)"
proof -
  let ?call = "\<lambda>stop. \<lparr>call_correlation = next_worker_correlation k, call_stop_at = fst stop,
      call_timeout_wins = snd stop, call_kill_status = att_kill_status env\<rparr>"
  show thesis
  proof (cases "\<not> att_stopping env \<and> (\<exists>input. read_binary_bounded (att_read_fault env) (input_path (task_work task)) (files k) = Inr input)")
    case False
    then have "k' = k"
      using assms by (auto simp: run_attempt_def Let_def split: sum.splits if_splits)
    then show thesis by (rule that(1))
  next
    case True
    then obtain input where input: "read_binary_bounded (att_read_fault env) (input_path (task_work task)) (files k) = Inr input"
      by blast
    obtain out w sent where exec: "process_execute (?call (attempt_stop_at (task_work task) (task_started_at task)))
        (att_exec env) input (task_started_at task) (processes (worker_pool k) ! task_worker task) = (out, w, sent)"
      by (metis prod_cases3)
    show thesis
      using assms True input exec process_execute_pool_columns [OF exec]
      by (intro that(2) [of w]) (cases out; auto simp: run_attempt_def lease_execute_def Let_def)+
  qed
qed

lemma ok_leases_attempt:
  assumes ok: "ok_leases k qs (us @ (task, ph) # vs)" and step: "attempt_step env task ph k = (Some ph', k')"
  shows "ok_leases k' qs (us @ (task, ph') # vs)"
proof (cases "ph = Executing")
  case True
  then have run: "run_attempt env task k = (Some ph', k')"
    using step by simp
  have "ok_leases k' qs (us @ (task, ph) # vs)"
    using run
  proof (cases rule: run_attempt_pool)
    case 1
    then show ?thesis using ok by simp
  next
    case (2 w)
    then show ?thesis
      using pool_step.used [of "task_worker task" "use_of k (us @ (task, ph) # vs)" w]
      by (intro ok_leases_step [OF ok]) (simp_all add: use_of_def pool_columns_def)
  qed
  then show ?thesis
    by (simp add: ok_leases_phase [of k' qs us task ph' vs ph])
next
  case False
  then have "resources k' = resources k" "worker_pool k' = worker_pool k"
    using step by (cases ph; auto simp: or_rescue_def split: sum.splits prod.splits bool.splits if_splits)+
  then show ?thesis
    using ok_leases_same [OF ok] by (simp add: ok_leases_phase [of k' qs us task ph' vs ph])
qed

lemma ok_leases_ended:
  assumes "ok_leases k qs (us @ (task, ph) # vs)"
  shows "ok_leases (end_task wait now task k) qs (us @ vs)"
proof -
  let ?u = "use_of k (us @ (task, ph) # vs)"
  have acc: "rm.accounts (resources k) ((qs @ map (task_requirement \<circ> fst) us) @ task_requirement task # map (task_requirement \<circ> fst) vs)"
    and inv: "pool_inv ?u"
    using assms by (simp_all add: ok_leases_def)
  have "remove1 (task_worker task) (held ?u) = map (task_worker \<circ> fst) (us @ vs)"
    using inv by (auto simp: pool_inv_def use_of_def remove1_append)
  then show ?thesis
    using rm.accounts_release [OF acc] pool_release_inv [OF inv, of "task_worker task" wait now]
    by (simp add: lease_inv end_task_def)
qed

lemma ok_leases_start:
  assumes "start_kernel dir inventory launches idle cap fault now db fs = (Inr k, db')"
  shows "ok_leases k [] []"
proof -
  note f = start_kernel_fields [OF assms]
  have "balanced \<lparr>manager = resources k, leases = []\<rparr>"
    by (rule balanced_new [OF f(5)])
  moreover have "pool_inv (pool_start (worker_pool k))"
    using pool_reachable_inv [OF f(6), of "pool_start (worker_pool k)"] by (simp add: pool_reachable_def)
  ultimately show ?thesis
    by (simp add: balanced_accounts outstanding_def lease_inv pool_start_def)
qed

section \<open>The invariant of the system\<close>

definition sys_inv :: "System \<Rightarrow> bool" where
  "sys_inv s \<longleftrightarrow> ok_data (kernel s) (pending (scheduler s) @ in_progress s)
     \<and> ok_chosen (data_dir (kernel s)) (scheduler s)
     \<and> ok_request (data_dir (kernel s)) (store (kernel s)) (serving s)
     \<and> ok_leases (kernel s) (reserved (scheduler s)) (in_progress s)"

lemma scheduler_step_keeps:
  assumes "scheduler_step env ph k = (ph', k')"
  shows "data_dir k' = data_dir k" and "kept (store k) (store k')"
proof -
  have "data_dir k' = data_dir k \<and> kept (store k) (store k')"
  proof (cases ph)
    case (Beginning w engine model)
    then show ?thesis
      using assms kept_begin [of "store k" "sch_begin_fault env" "work_id w" "engine_id engine" model "sch_started_at env"]
      by (auto simp: Let_def split: prod.splits sum.splits if_splits)
  next
    case (LaunchFailed w engine n t e)
    then show ?thesis
      using assms kept_retry [of "store k" "sch_finish_fault env" "work_id w" n "''FAILED''" "''WORKER_LAUNCH_FAILURE: '' @ what e"
          "sch_failed_at env"]
      by (auto split: prod.splits sum.splits)
  next
    case (Refusing w failure reservation)
    then show ?thesis
      using assms kept_fail_queued [of "store k" "sch_fail_fault env" "work_id w" failure]
      by (auto simp: refuse_def split: prod.splits sum.splits option.splits)
  next
    case (Expiring now)
    then show ?thesis
      using assms kept_expire [of "store k" "sch_expire_fault env" now] by (auto split: prod.splits sum.splits)
  qed (use assms in \<open>auto simp: give_back_def split: prod.splits sum.splits option.splits bool.splits round_result.splits\<close>)
  then show "data_dir k' = data_dir k" and "kept (store k) (store k')" by simp_all
qed

lemma attempt_step_keeps:
  assumes "attempt_step env task ph k = (res, k')"
  shows "data_dir k' = data_dir k" and "kept (store k) (store k')"
proof -
  let ?key = "work_id (task_work task)" and ?n = "task_number task"
  have "data_dir k' = data_dir k \<and> kept (store k) (store k')"
  proof (cases ph)
    case Executing
    then show ?thesis
      using assms run_attempt_keeps [of env task k res k'] by simp
  next
    case (Failing st m)
    then show ?thesis
      using assms kept_retry [of "store k" "att_fault env" ?key ?n st m "att_now env"] by (auto simp: or_rescue_def)
  next
    case (Rescuing e)
    then show ?thesis
      using assms kept_retry [of "store k" "att_fault env" ?key ?n "''FAILED''" "''WORKER_EXECUTION_FAILURE: '' @ what e" "att_now env"]
      by (auto split: if_splits)
  qed (use assms kept_cancelled [of "store k" "att_fault env" ?key ?n "att_now env"]
      kept_success [of "store k" "att_fault env" ?key ?n "att_now env"] in
      \<open>auto simp: or_rescue_def split: sum.splits bool.splits prod.splits\<close>)
  then show "data_dir k' = data_dir k" and "kept (store k) (store k')" by simp_all
qed

lemma request_step_dir:
  assumes "request_step env ph k = (ph', k')"
  shows "data_dir k' = data_dir k"
  using assms
proof (cases ph)
  case (Received request)
  then have r: "request_received env request k = (ph', k')"
    using assms by simp
  show ?thesis
  proof (cases "frame_type request")
    case Submit
    then show ?thesis
      using r by (auto simp: request_received_def submit_received_def Let_def split: if_splits sum.splits prod.splits)
  next
    case Cancel
    then obtain x where "handle_cancel env request k = (x, k')"
      using r by (auto simp: request_received_def split: prod.splits)
    from handle_cancel_store [OF this] show ?thesis by auto
  next
    case EngineStatus
    then obtain x where "handle_engine_status env request k = (x, k')"
      using r by (auto simp: request_received_def split: prod.splits)
    from engine_status_pool [OF this] show ?thesis by auto
  next
    case Result
    then show ?thesis
      using r find_received_cases [of env request "\<lambda>key. ReadingResult request" k ph' k'] by (simp add: request_received_def)
  next
    case Acknowledge
    then show ?thesis
      using r find_received_cases [of env request "Acknowledging request" k ph' k'] by (simp add: request_received_def)
  qed (use r in \<open>auto simp: request_received_def\<close>)
next
  case (Listing i ds out)
  then show ?thesis
    using assms by (cases ds) (auto split: prod.splits)
qed (auto split: prod.splits sum.splits bool.splits)

lemma sys_step_inv: "sys_step s s' \<Longrightarrow> sys_inv s \<Longrightarrow> sys_inv s'"
proof (induction rule: sys_step.induct)
  case (received s f)
  then show ?case by (simp add: sys_inv_def)
next
  case (served env s ph k)
  then show ?case
    using ok_data_request [of "kernel s" _ "serving s" env ph k] ok_leases_request [of "kernel s" _ _ env "serving s" ph k]
      request_step_dir [of env "serving s" "kernel s" ph k]
    by (auto simp: sys_inv_def)
next
  case (scheduled env s ph k)
  have "pending ph = [] \<or> started ph = []"
    by (cases ph rule: pending.cases) auto
  then show ?case
    using scheduled ok_data_scheduler [of "kernel s" "scheduler s" "in_progress s" env ph k]
      ok_leases_scheduler [of "kernel s" "scheduler s" "in_progress s" _ env ph k]
      scheduler_step_keeps [of env "scheduler s" "kernel s" ph k] ok_request_kept
    by (auto simp: sys_inv_def)
next
  case (attempted s us task ph vs env ph' k)
  then show ?case
    using ok_data_attempt [of "kernel s" "pending (scheduler s) @ us" task ph vs env ph' k]
      ok_leases_attempt [of "kernel s" _ us task ph vs env ph' k]
      attempt_step_keeps [of env task ph "kernel s" "Some ph'" k] ok_request_kept
    by (auto simp: sys_inv_def)
next
  case (ended s us task vs wait now)
  have "data_dir (end_task wait now task (kernel s)) = data_dir (kernel s)" "store (end_task wait now task (kernel s)) = store (kernel s)"
    by (simp_all add: end_task_def give_back_def)
  then show ?case
    using ended ok_data_ended [of "kernel s" "pending (scheduler s) @ us" task vs wait now]
      ok_leases_ended [of "kernel s" _ us task Finished vs wait now]
    by (simp add: sys_inv_def)
next
  case (restarted s inventory launches idle cap fault now k db)
  then show ?case
    using ok_data_restarted [OF _ restarted(1)] ok_leases_start [OF restarted(1)] by (auto simp: sys_inv_def idle_system_def)
qed

interpretation kernels: step_system sys_step "sys_start dir" sys_inv
proof
  show "sys_inv s" if "sys_start dir s" for s
    using that ok_data_start ok_leases_start by (auto simp: sys_start_def sys_inv_def idle_system_def)
qed (rule sys_step_inv)

lemma sys_reachable_inv: "sys_reachable dir s \<Longrightarrow> sys_inv s"
  using kernels.reachable_invar by (auto simp: sys_reachable_def)

lemma sys_reachable_start: "sys_start dir s \<Longrightarrow> sys_reachable dir s"
  by (auto simp: sys_reachable_def)

lemma sys_reachable_steps: "sys_reachable dir s \<Longrightarrow> sys_step\<^sup>*\<^sup>* s s' \<Longrightarrow> sys_reachable dir s'"
  unfolding sys_reachable_def by (meson rtranclp_trans)

lemma sys_reachable_step: "sys_reachable dir s \<Longrightarrow> sys_step s s' \<Longrightarrow> sys_reachable dir s'"
  using sys_reachable_steps by blast

end
