(* ===== verification/Kernel_Guarantees.thy ===== *)
theory Kernel_Guarantees
  imports Kernel_System
begin

text \<open>
  What the running Kernel guarantees, in every reachable state of theory \<open>Kernel_System\<close>: one
  attempt for a Work at a time, results that are kept until they are acknowledged, leases that are
  those of the attempts, attempts that end and settle their Work, and a scheduler that is never
  stuck. A concrete run shows that the states they speak of are reached.
\<close>

section \<open>Progress of an attempt\<close>

text \<open>A bound on the steps that an attempt has left.\<close>

fun steps_left :: "attempt_phase \<Rightarrow> nat" where
  "steps_left Executing = 5"
| "steps_left (Checking _) = 4"
| "steps_left (Writing _) = 3"
| "steps_left Cancelling = 2"
| "steps_left (Failing _ _) = 2"
| "steps_left Committing = 2"
| "steps_left (Rescuing _) = 1"
| "steps_left Finished = 0"

text \<open>The Kernel is not stopping and SQLite does not fail.\<close>

definition undisturbed :: "attempt_env \<Rightarrow> bool" where
  "undisturbed env \<longleftrightarrow> \<not> att_stopping env \<and> att_fault env = None
     \<and> list_all (\<lambda>t. \<not> wt_stopping t) (env_writes (att_exec env))
     \<and> list_all (\<lambda>t. \<not> rt_stopping t) (env_reads (att_exec env))"

lemma settled_rows:
  assumes "works db' = map (\<lambda>x. if running_work key x then g x else x) (works db)"
    and "\<And>x. state (g x) \<noteq> ''RUNNING''" and "w \<in> set (works db')" and "work_id w = key"
  shows "state w \<noteq> ''RUNNING''"
proof -
  obtain x where x: "w = (if running_work key x then g x else x)"
    using assms(3) unfolding assms(1) set_map by blast
  show ?thesis
  proof (cases "running_work key x")
    case False
    then have "w = x"
      using x by simp
    with False show ?thesis
      using assms(4) by (simp add: running_work_def)
  qed (simp add: x assms(2))
qed

lemma finish_settles:
  assumes "c_str key = key" and "w \<in> set (works db')" and "work_id w = key"
    and "store_finish_success None key n t db = (Inr u, db') \<or> store_finish_cancelled None key n t db = (Inr u, db')
      \<or> store_finish_retryable_failure None key n st m t db = (Inr u, db')"
  shows "state w \<noteq> ''RUNNING''"
  using assms(4)
proof (elim disjE)
  assume "store_finish_success None key n t db = (Inr u, db')"
  then have "works db' = map (\<lambda>x. if running_work key x then x\<lparr>state := ''SUCCEEDED'', technical_failure := []\<rparr> else x) (works db)"
    using assms(1) by (auto simp: store_finish_success_def)
  from settled_rows [OF this _ assms(2,3)] show ?thesis by simp
next
  assume "store_finish_cancelled None key n t db = (Inr u, db')"
  then have "works db' = map (\<lambda>x. if running_work key x then x\<lparr>state := ''CANCELLED'', technical_failure := ''cancelled''\<rparr> else x) (works db)"
    using assms(1) by (auto simp: store_finish_cancelled_def)
  from settled_rows [OF this _ assms(2,3)] show ?thesis by simp
next
  assume retry: "store_finish_retryable_failure None key n st m t db = (Inr u, db')"
  show ?thesis
  proof (cases "None :: sqlite_fault" key n st m t db rule: store_finish_retryable_failure_cases)
    case absent
    then have "\<forall>v \<in> set (works db). \<not> running_work key v" and "db' = db"
      using retry assms(1) by (auto simp: select_work_def find_None_iff)
    then show ?thesis
      using assms(2,3) by (simp add: running_work_def)
  next
    case (settled v)
    then have "works db' = map (\<lambda>x. if running_work key x then settle_failed ''cancelled'' (c_str m) t v x else x) (works db)"
      using retry assms(1) by auto
    from settled_rows [OF this _ assms(2,3)] show ?thesis
      by (simp add: settle_failed_def)
  qed (use retry in simp)
qed

lemma run_attempt_next:
  assumes "run_attempt env task k = (Some ph, k')" and "undisturbed env"
  shows "0 < steps_left ph \<and> steps_left ph < 5"
proof -
  have go: "\<not> att_stopping env"
    using assms(2) by (simp add: undisturbed_def)
  have next_phase: "0 < steps_left (after_outcome out) \<and> steps_left (after_outcome out) < 5"
    if "process_execute call (att_exec env) data started w = (Return out, w', sent)" for call data started w out w' sent
  proof -
    have "outcome_kind out \<noteq> Stopped"
      using process_execute_stopped [OF that] assms(2) by (auto simp: undisturbed_def list_all_iff)
    then show ?thesis
      by (cases "outcome_kind out") (simp_all add: after_outcome_def)
  qed
  show ?thesis
    using assms(1) go next_phase
    by (auto simp: run_attempt_def lease_execute_def Let_def split: sum.splits prod.splits io.splits)
qed

section \<open>Progress of the scheduler\<close>

text \<open>SQLite does not fail in the round.\<close>

definition faultless :: "scheduler_env \<Rightarrow> bool" where
  "faultless env \<longleftrightarrow> sch_expire_fault env = None \<and> sch_next_fault env = None \<and> sch_fail_fault env = None
     \<and> sch_begin_fault env = None \<and> sch_finish_fault env = None"

text \<open>The Work has left the queue or is back in it with one attempt more.\<close>

definition advanced :: "WorkRecord \<Rightarrow> Db \<Rightarrow> bool" where
  "advanced w db \<longleftrightarrow> (\<forall>v \<in> set (works db). work_id v = work_id w \<longrightarrow>
     state v \<noteq> ''QUEUED'' \<or> attempt_count v = attempt_count w + 1)"

lemma refuse_advances:
  assumes "refuse env w failure k = (res, k')" and "faultless env" and "c_str (work_id w) = work_id w"
  shows "res = Refused failure" and "advanced w (store k')"
  using assms by (auto simp: refuse_def faultless_def store_fail_queued_def update_works_def advanced_def)

lemma retry_advances:
  assumes "store_finish_retryable_failure None key n ''FAILED'' m t (attempt_begun key eng mdl t' (attempt_count w + 1) db) = (r, db')"
    and "work_id w = key"
  shows "r = Inr () \<and> advanced w db'"
proof (cases "None :: sqlite_fault" key n "''FAILED''" m t "attempt_begun key eng mdl t' (attempt_count w + 1) db"
    rule: store_finish_retryable_failure_cases)
  case (rejected e)
  then show ?thesis
    by (auto simp: store_finish_retryable_failure_def Let_def split: option.splits)
qed (use assms in \<open>auto simp: advanced_def attempt_begun_def update_works_def update_attempts_def settle_failed_def\<close>)

lemma dispatch_advances:
  assumes "dispatch env w engine model k = (res, k')" and "faultless env" and wf: "wf_db (store k)"
    and w: "w \<in> set (works (store k))" "state w = ''QUEUED''" and key: "c_str (work_id w) = work_id w"
    and count: "0 \<le> attempt_count w"
  shows "(\<exists>m. res = Refused m) \<or> res = NotLaunched \<or> (\<exists>task. res = Begun task)" and "advanced w (store k')"
proof -
  let ?db = "attempt_begun (work_id w) (c_str (engine_id engine)) (c_str model) (sch_started_at env) (attempt_count w + 1) (store k)"
  have begins: "store_begin_attempt (sch_begin_fault env) (work_id w) (engine_id engine) model (sch_started_at env) (store k)
      = (Inr (attempt_count w + 1), ?db)"
    using store_begin_attempt_queued [OF wf w(1), of "work_id w" "sch_begin_fault env"] w(2) key assms(2)
    by (auto simp: faultless_def)
  have running: "advanced w ?db"
    by (auto simp: advanced_def attempt_begun_def update_works_def)
  have "((\<exists>m. res = Refused m) \<or> res = NotLaunched \<or> (\<exists>task. res = Begun task)) \<and> advanced w (store k')"
  proof (cases "deadline_reached w (sch_started_at env)")
    case True
    obtain r k1 where r: "refuse env w deadline_expired_text k = (r, k1)"
      by fastforce
    then show ?thesis
      using refuse_advances [OF r assms(2) key] True assms(1) by (auto simp: dispatch_def give_back_def)
  next
    case False
    obtain r p where a: "pool_acquire (sch_acquire_wait env) (sch_spawn env) (sch_spawned_at env) (engine_id engine) (worker_pool k) = (r, p)"
      by fastforce
    show ?thesis
    proof (cases r)
      case (Inl e)
      obtain r2 db2 where f: "store_finish_retryable_failure None (work_id w) (attempt_count w + 1) ''FAILED''
          (''WORKER_LAUNCH_FAILURE: '' @ what e) (sch_failed_at env) ?db = (r2, db2)"
        by fastforce
      then show ?thesis
        using retry_advances [OF f refl] assms(1,2) begins False a Inl count
        by (auto simp: dispatch_def give_back_def faultless_def)
    next
      case (Inr i)
      then show ?thesis
        using assms(1) begins False a count running by (auto simp: dispatch_def)
    qed
  qed
  then show "(\<exists>m. res = Refused m) \<or> res = NotLaunched \<or> (\<exists>task. res = Begun task)" and "advanced w (store k')"
    by simp_all
qed

text \<open>What may become of a Work that the scheduler has taken up.\<close>

definition taken_up :: "round_result \<Rightarrow> bool" where
  "taken_up res \<longleftrightarrow> (\<exists>m. res = Refused m) \<or> res = NotLaunched \<or> (\<exists>task. res = Begun task)"

lemma schedule_work_advances:
  assumes step: "schedule_work env w k = (res, k')" and calm: "faultless env"
    and valid: "\<forall>engine \<in> set (engine_inventory k). validate_requirement (engine_resources engine) = Inr ()"
    and mgr: "wf_manager (resources k)" and wf: "wf_db (store k)"
    and w: "w \<in> set (works (store k))" "state w = ''QUEUED''"
    and key: "c_str (work_id w) = work_id w" and count: "0 \<le> attempt_count w"
  shows "res = NoCapacity \<and> (\<exists>j. used_of (resources k) j \<noteq> 0) \<or> advanced w (store k') \<and> taken_up res"
proof -
  have refused: "advanced w (store k') \<and> taken_up res" if "refuse env w m k = (res, k')" for m
    using refuse_advances [OF that calm key] by (simp add: taken_up_def)
  show ?thesis
  proof (cases "deadline_reached w (sch_now env) \<or> (\<exists>m. select_engine w (engine_inventory k) = Inl m)")
    case True
    then obtain m where "refuse env w m k = (res, k')"
      using step by (cases "deadline_reached w (sch_now env)") (auto simp: schedule_work_def)
    from refused [OF this] show ?thesis by simp
  next
    case False
    then obtain engine model where sel: "select_engine w (engine_inventory k) = Inr (engine, model)"
      by (metis old.sum.exhaust surj_pair)
    let ?r = "engine_resources engine"
    have ok: "validate_requirement ?r = Inr ()"
      using valid select_engine_member [OF sel] by blast
    have "\<exists>b. can_ever_reserve ?r (resources k) = Inr b"
      by (cases "map_of (cap_gpu_vram_bytes (capacity (resources k))) (req_gpu_id ?r)") (auto simp: can_ever_reserve_def ok)
    then obtain b where can: "can_ever_reserve ?r (resources k) = Inr b"
      by blast
    obtain c m where got: "try_reserve ?r (resources k) = (Inr c, m)"
      using try_reserve_bool [OF ok, of "resources k"] by (metis prod.collapse)
    have one: "schedule_work env w k = (if \<not> b then refuse env w
           ''INSUFFICIENT_CAPACITY: selected engine requirements exceed configured Kernel capacity'' k
         else if \<not> c then (NoCapacity, k\<lparr>resources := m\<rparr>) else dispatch env w engine model (k\<lparr>resources := m\<rparr>))"
      using False sel can got by (simp add: schedule_work_def split: bool.split)
    show ?thesis
    proof (cases "b \<and> c")
      case True
      then have "dispatch env w engine model (k\<lparr>resources := m\<rparr>) = (res, k')"
        using one step by simp
      from dispatch_advances [OF this calm _ _ w(2) key count] show ?thesis
        using wf w(1) by (simp add: taken_up_def)
    next
      case False
      then show ?thesis
        using one step refused can got try_reserve_unused [OF mgr, of ?r] by (auto split: if_splits)
    qed
  qed
qed

section \<open>A run\<close>

definition sample_inventory :: "EngineDescriptorFacts list" where
  "sample_inventory = [\<lparr>engine_id = ''e'', work_types = [''text-generation/v1''], capabilities = [''basic-text''],
     model_ids = [''m''], supported_efforts = [''STANDARD''], placement = ''LOCAL_WORKER_PROCESS'',
     availability = ''AVAILABLE'', engine_resources = sample_requirement\<rparr>]"

definition sample_started :: Kernel where
  "sample_started = sample_kernel\<lparr>engine_inventory := sample_inventory\<rparr>"

lemma sample_starts:
  "start_kernel ''/d'' sample_inventory sample_launches 100 sample_capacity None 0 empty_db (\<lambda>_. None) = (Inr sample_started, empty_db)"
  by (simp add: start_kernel_def sample_pool_new new_resource_manager_def sample_capacity_def
      store_recover_interrupted_def empty_db_def sample_started_def sample_kernel_def)

definition sample_row :: WorkRecord where
  "sample_row = \<lparr>work_id = ''00000000000000010000000000000002'', work_type = ''text-generation/v1'', state = ''QUEUED'',
     effort = ''STANDARD'', urgency = ''NORMAL'', required_capabilities = [], eligible_engine_ids = [],
     exact_engine_id = [], exact_model_id = [], created_at_ms = 500, eligible_at_ms = 500,
     next_attempt_at_ms = 500, deadline_ms = None, timeout_ms = None, max_attempts = 3, retry_delay_ms = 0,
     attempt_count = 0, input_path = ''/d/work/00000000000000010000000000000002/input.bin'',
     result_path = ''/d/work/00000000000000010000000000000002/result.bin'', acknowledged = False,
     cancel_requested = False, selected_engine_id = [], selected_model_id = [], technical_failure = []\<rparr>"

lemma sample_key: "make_work_id 1 2 = ''00000000000000010000000000000002''"
  by code_simp

lemma sample_parsed: "parse_submission 500 (work_dir ''/d'' (make_work_id 1 2)) (make_work_id 1 2) sample_submit = Inr sample_row"
proof -
  have "stoll ''3'' = Inr (3, 1)" "stoll ''0'' = Inr (0, 1)"
    by (simp_all add: stoll_def strto_def is_space_def is_digit_def digits_value_def digit_value_def
        signed_value_def in_i64_def i64_min_def i64_max_def)
  then show ?thesis
    by (simp add: parse_submission_def sample_submit_def metadata_value_def validate_choice_def
        validate_urgency_def parse_positive_int_def parse_i64_def optional_nonnegative_i64_def
        optional_metadata_def i32_max_def Let_def sample_key sample_row_def work_dir_def path_append_def)
qed

lemma sample_bound: "bound_row sample_row = sample_row"
  by (simp add: bound_row_def sample_row_def c_str_def)

definition sample_queued :: Kernel where
  "sample_queued = sample_started\<lparr>store := empty_db\<lparr>works := [sample_row]\<rparr>,
     files := (\<lambda>_. None)(input_path sample_row := Some [104, 105])\<rparr>"

lemma sample_submitted: "\<exists>out. handle sample_request_env sample_submit sample_started = (Inr out, sample_queued)"
proof -
  have sub: "store_submit None sample_row empty_db = (Inr (), empty_db\<lparr>works := [sample_row]\<rparr>)"
    using parsed_row_accepted [OF sample_parsed]
    by (simp add: store_submit_def Let_def select_work_def empty_db_def sample_bound)
  have wrote: "write_binary_atomic NoWriteFault (input_path sample_row) (payload sample_submit) (\<lambda>_. None)
      = (Inr (), (\<lambda>_. None)(input_path sample_row := Some [104, 105]))"
    by (simp add: write_binary_ok sample_submit_def kMaxPayload_def fun_eq_iff)
  have small: "\<not> length (payload sample_submit) > kMaxPayload" "frame_type sample_submit = Submit"
    by (simp_all add: sample_submit_def kMaxPayload_def)
  show ?thesis
    using sample_parsed sub wrote small
    by (simp add: handle_def handle_submit_def sample_request_env_def sample_started_def sample_kernel_def sample_queued_def Let_def)
qed

definition sample_round :: scheduler_env where
  "sample_round = \<lparr>sch_now = 600, sch_started_at = 600, sch_failed_at = 600, sch_expire_fault = None,
     sch_next_fault = None, sch_fail_fault = None, sch_begin_fault = None, sch_finish_fault = None,
     sch_reap_wait = (\<lambda>_. Running), sch_reap_status = (\<lambda>_. 0), sch_acquire_wait = (\<lambda>_. Running),
     sch_spawn = sample_spawn, sch_spawned_at = 10\<rparr>"

definition sample_task :: attempt_task where
  "sample_task = \<lparr>task_work = sample_row, task_number = 1, task_started_at = 600, task_worker = 0,
     task_requirement = sample_requirement\<rparr>"

definition sample_running_row :: WorkRecord where
  "sample_running_row = sample_row\<lparr>state := ''RUNNING'', attempt_count := 1, selected_engine_id := ''e'',
     selected_model_id := ''m''\<rparr>"

definition sample_attempt :: AttemptRecord where
  "sample_attempt = \<lparr>attempt_work_id = work_id sample_row, attempt_number = 1, attempt_engine_id = ''e'',
     attempt_model_id = ''m'', started_at_ms = 600, ended_at_ms = None, attempt_state = ''RUNNING'', attempt_failure = []\<rparr>"

definition sample_begun :: Kernel where
  "sample_begun = sample_queued\<lparr>store := \<lparr>works = [sample_running_row], attempts = [sample_attempt]\<rparr>,
     resources := snd (try_reserve sample_requirement (resources sample_queued)),
     worker_pool := sample_pool\<lparr>workers := [0], processes := [sample_worker]\<rparr>\<rparr>"

lemma sample_begins:
  "store_begin_attempt None (work_id sample_row) ''e'' ''m'' 600 (empty_db\<lparr>works := [sample_row]\<rparr>)
     = (Inr 1, \<lparr>works = [sample_running_row], attempts = [sample_attempt]\<rparr>)"
  by (simp add: store_eval sample_row_def sample_running_row_def sample_attempt_def)

lemma sample_selected: "select_engine sample_row sample_inventory = Inr (hd sample_inventory, ''m'')"
  by (simp add: select_engine_def sample_row_def sample_inventory_def contains_def contains_all_def split_csv.simps Let_def)

lemma sample_scheduled: "scheduler_round sample_round sample_queued = (Begun sample_task, sample_begun)"
proof -
  let ?db = "empty_db\<lparr>works := [sample_row]\<rparr>"
  have expire: "store_expire_queued_deadlines None 600 ?db = (Inr (), ?db)"
    by (simp add: store_expire_queued_deadlines_def update_works_def sample_row_def)
  have next_work: "store_next_eligible None 600 ?db = Inr (Some sample_row)"
    by (simp add: store_next_eligible_def eligible_now_def sample_row_def)
  have reap: "pool_reap_idle (\<lambda>_. Running) (\<lambda>_. 0) 600 sample_pool = sample_pool"
    by (simp add: pool_reap_idle_def sample_pool_def)
  have reserve: "can_ever_reserve sample_requirement (resources sample_queued) = Inr True"
    "fst (try_reserve sample_requirement (resources sample_queued)) = Inr True"
    by (simp_all add: can_ever_reserve_def resource_eval sample_queued_def sample_started_def sample_kernel_def)
  then obtain m where granted: "try_reserve sample_requirement (resources sample_queued) = (Inr True, m)"
    by (metis prod.collapse)
  have live: "\<not> deadline_reached sample_row 600"
    by (simp add: deadline_reached_def sample_row_def)
  show ?thesis
    using expire next_work reap reserve(1) granted live sample_selected sample_begins sample_acquire
    by (simp add: scheduler_round_def schedule_work_def dispatch_def sample_round_def sample_queued_def
        sample_started_def sample_kernel_def sample_task_def sample_begun_def sample_inventory_def Let_def)
qed

definition reply_bytes :: "byte list" where
  "reply_bytes = [77, 65, 68, 82, 0, 1, 0, 201, 0, 0, 0, 0, 0, 0, 0, 1, 0, 0, 0, 0, 0, 0, 0, 0, 0, 0, 0, 1, 5]"

definition sample_attempt_env :: attempt_env where
  "sample_attempt_env = \<lparr>att_stopping = False, att_now = 700, att_fault = None, att_read_fault = NoReadFault,
     att_write_fault = NoWriteFault, att_exec = sample_env [sample_read_turn 30 [Chunk 77 (drop 1 reply_bytes)]],
     att_kill_status = 9\<rparr>"

lemma reply_read:
  obtains rest where "read_available [] [Chunk 77 (drop 1 reply_bytes)] = (Inr (Some (sample_answer\<lparr>correlation_id := 1\<rparr>)), [], rest)"
proof -
  have enc: "encode_frame (sample_answer\<lparr>correlation_id := 1\<rparr>) = Inr reply_bytes"
    by (simp add: frame_eval sample_answer_def reply_bytes_def)
  have "delivers [Chunk 77 (drop 1 reply_bytes)] reply_bytes"
    by (simp add: delivers_def reply_bytes_def)
  moreover have "length reply_bytes \<le> kReadBudget" "length ([] :: byte list) + length reply_bytes \<le> kMaxBufferedFrame"
    by (simp_all add: reply_bytes_def kReadBudget_def kMaxBufferedFrame_def kHeaderSize_def kMaxMetadata_def)
  moreover have "wf_frame (sample_answer\<lparr>correlation_id := 1\<rparr>)"
    by (simp add: wf_frame_def sample_answer_def well_typed_def)
  ultimately have "fst (read_available [] [Chunk 77 (drop 1 reply_bytes)]) = Inr (Some (sample_answer\<lparr>correlation_id := 1\<rparr>))"
    "fst (snd (read_available [] [Chunk 77 (drop 1 reply_bytes)])) = []"
    using read_available_data [of "[Chunk 77 (drop 1 reply_bytes)]" reply_bytes "[]"] take_frame_encoded [OF enc, of "[]"] by simp_all
  then show thesis
    using that by (metis prod.collapse)
qed

lemma sample_executed:
  "attempt_step sample_attempt_env sample_task Executing sample_begun
     = (Some (Checking [5]), sample_begun\<lparr>next_worker_correlation := 2\<rparr>)"
proof -
  let ?call = "\<lparr>call_correlation = 1, call_stop_at = None, call_timeout_wins = False, call_kill_status = 9\<rparr>"
  let ?out = "\<lparr>outcome_kind = Succeeded, outcome_payload = [5], technical_failure_text = []\<rparr>"
  have "\<exists>bs. encode_frame (execute_request sample_worker 1 600 [104, 105]) = Inr bs \<and> bs \<noteq> [] \<and> length bs \<le> 100000"
    by (simp add: frame_eval execute_request_def sample_worker_def map_assign_all_def string_of_int_def
        string_of_nat.simps digit_char_def char_of_def)
  then obtain b bs where enc: "encode_frame (execute_request sample_worker 1 600 [104, 105]) = Inr (b # bs)"
    and len: "length (b # bs) \<le> 100000"
    by (metis list.exhaust)
  have sent: "write_loop ?call (b # bs) [sample_write_turn] sample_worker = (Return None, sample_worker, b # bs)"
    using len by (simp add: write_loop.simps(3) sample_write_turn_def stop_reached_def process_alive_def sample_worker_def)
  obtain rest where "read_available [] [Chunk 77 (drop 1 reply_bytes)] = (Inr (Some (sample_answer\<lparr>correlation_id := 1\<rparr>)), [], rest)"
    by (rule reply_read)
  then have "read_loop ?call [] [sample_read_turn 30 [Chunk 77 (drop 1 reply_bytes)]] sample_worker = (Return ?out, sample_worker, rest)"
    by (simp add: read_loop.simps(2) poll_response_def sample_read_turn_def finish_response_def sample_worker_def sample_answer_def)
  then have run: "process_execute ?call (att_exec sample_attempt_env) [104, 105] 600 sample_worker = (Return ?out, sample_worker, b # bs)"
    using enc sent by (simp add: process_execute_def sample_attempt_env_def sample_env_def process_alive_def
        sample_worker_def)
  have stop: "attempt_stop_at sample_row 600 = (None, False)"
    by (simp add: attempt_stop_at_def sample_row_def)
  have input: "read_binary_bounded NoReadFault (input_path sample_row) (files sample_begun) = Inr [104, 105]"
    by (simp add: read_binary_bounded_def require_c1_payload_size_def sample_begun_def sample_queued_def kMaxPayload_def bind_result_def)
  have cols: "next_worker_correlation sample_begun = 1"
    "worker_pool sample_begun = sample_pool\<lparr>workers := [0], processes := [sample_worker]\<rparr>"
    by (simp_all add: sample_begun_def sample_queued_def sample_started_def sample_kernel_def)
  have "lease_execute ?call (att_exec sample_attempt_env) [104, 105] 600 (Some 0) (worker_pool sample_begun)
      = (Return ?out, worker_pool sample_begun)"
    using run by (simp add: lease_execute_def cols)
  then show ?thesis
    using input stop
    by (simp add: run_attempt_def sample_attempt_env_def sample_task_def cols(1) after_outcome_def Let_def)
qed

definition sample_written_kernel :: Kernel where
  "sample_written_kernel = sample_begun\<lparr>next_worker_correlation := 2,
     files := (files sample_begun)(result_path sample_row := Some [5])\<rparr>"

definition sample_done :: Kernel where
  "sample_done = sample_written_kernel\<lparr>store :=
     \<lparr>works = [sample_running_row\<lparr>state := ''SUCCEEDED''\<rparr>],
      attempts = [sample_attempt\<lparr>ended_at_ms := Some 700, attempt_state := ''SUCCEEDED''\<rparr>]\<rparr>\<rparr>"

lemma sample_checked:
  "attempt_step sample_attempt_env sample_task (Checking [5]) (sample_begun\<lparr>next_worker_correlation := 2\<rparr>)
     = (Some (Writing [5]), sample_begun\<lparr>next_worker_correlation := 2\<rparr>)"
  by (simp add: store_cancel_requested_def sample_attempt_env_def select_work_def sample_begun_def sample_task_def
      sample_running_row_def sample_row_def c_str_def)

lemma sample_result_written:
  "attempt_step sample_attempt_env sample_task (Writing [5]) (sample_begun\<lparr>next_worker_correlation := 2\<rparr>)
     = (Some Committing, sample_written_kernel)"
  by (simp add: write_binary_atomic_def require_c1_payload_size_def kMaxPayload_def sample_attempt_env_def sample_task_def
      sample_written_kernel_def sample_begun_def sample_queued_def sample_row_def fun_eq_iff Let_def)

lemma sample_committed:
  "attempt_step sample_attempt_env sample_task Committing sample_written_kernel = (Some Finished, sample_done)"
  by (simp add: store_eval or_rescue_def sample_attempt_env_def sample_task_def sample_written_kernel_def sample_done_def
      sample_begun_def sample_running_row_def sample_row_def sample_attempt_def)

lemma sample_queued_reachable: "sys_reachable ''/d'' (idle_system sample_queued [])"
proof -
  have "sys_start ''/d'' (idle_system sample_started [])"
    unfolding sys_start_def using sample_starts by (simp, blast)
  then have "sys_reachable ''/d'' (idle_system sample_started [])"
    by (rule sys_reachable_start)
  moreover obtain out where "handle sample_request_env sample_submit sample_started = (Inr out, sample_queued)"
    using sample_submitted by blast
  then have "sys_step\<^sup>*\<^sup>* (idle_system sample_started []) (idle_system sample_queued [])"
    using sys_request [of sample_request_env sample_submit "idle_system sample_started []"] by (simp add: idle_system_def)
  ultimately show ?thesis
    by (rule sys_reachable_steps)
qed

lemma sample_begun_reachable: "sys_reachable ''/d'' (idle_system sample_begun [(sample_task, Executing)])"
proof -
  have "sys_step\<^sup>*\<^sup>* (idle_system sample_queued []) (idle_system sample_begun [(sample_task, Executing)])"
    using sys_round [of sample_round "idle_system sample_queued []"] sample_scheduled by (simp add: idle_system_def)
  then show ?thesis
    by (rule sys_reachable_steps [OF sample_queued_reachable])
qed

lemma sample_attempted:
  assumes "sys_reachable ''/d'' (idle_system k [(sample_task, ph)])" and "ph \<noteq> Finished"
    and "attempt_step sample_attempt_env sample_task ph k = (Some ph', k')"
  shows "sys_reachable ''/d'' (idle_system k' [(sample_task, ph')])"
  using assms sys_step.attempted [of "idle_system k [(sample_task, ph)]" "[]" sample_task ph "[]"]
  by (auto simp: idle_system_def intro: sys_reachable_step)

lemma sample_done_reachable: "sys_reachable ''/d'' (idle_system sample_done [(sample_task, Finished)])"
proof -
  note run = sample_attempted [OF sample_begun_reachable _ sample_executed]
  note run = sample_attempted [OF run _ sample_checked]
  note run = sample_attempted [OF run _ sample_result_written]
  note run = sample_attempted [OF run _ sample_committed]
  show ?thesis by (rule run) simp_all
qed

section \<open>Properties\<close>

text \<open>
  C1: One attempt at a time: whatever requests, steps of the scheduler and of attempts, crashes and
  restarts happened and however they interleaved, every attempt that the scheduler is starting or
  that is still in progress is the running attempt of its Work, with the number the store has
  recorded, and no Work has two.
\<close>

theorem one_attempt_at_a_time:
  assumes "sys_reachable dir s"
  shows "let active = pending (scheduler s) @ filter (\<lambda>(task, ph). ph \<noteq> Finished) (in_progress s)
    in (\<forall>(task, ph) \<in> set active.
          \<exists>w \<in> set (works (store (kernel s))). work_id w = work_id (task_work task)
             \<and> state w = ''RUNNING'' \<and> attempt_count w = task_number task)
       \<and> distinct (map (\<lambda>(task, ph). work_id (task_work task)) active)"
proof -
  let ?all = "pending (scheduler s) @ in_progress s"
  have tasks: "ok_tasks (data_dir (kernel s)) (store (kernel s)) ?all"
    using sys_reachable_inv [OF assms] by (simp add: sys_inv_def ok_data_def)
  have active: "pending (scheduler s) @ filter (\<lambda>(task, ph). ph \<noteq> Finished) (in_progress s)
      = filter (\<lambda>(task, ph). ph \<noteq> Finished) ?all"
    by (cases "scheduler s" rule: pending.cases) simp_all
  have "map (\<lambda>(task, ph). work_id (task_work task)) (filter (\<lambda>(task, ph). ph \<noteq> Finished) ?all) = map task_id (unfinished ?all)"
    by (simp add: unfinished_def task_id_def case_prod_unfold)
  moreover have "distinct (map task_id (unfinished ?all))"
    using tasks by (simp add: ok_tasks_def)
  ultimately show ?thesis
    unfolding Let_def active using ok_tasks_runs [OF tasks] by (fastforce simp: runs_def task_id_def)
qed

theorem one_attempt_at_a_time_witness:
  "\<exists>s w. sys_reachable ''/d'' s \<and> in_progress s = [(sample_task, Executing)] \<and> w \<in> set (works (store (kernel s)))
     \<and> state w = ''RUNNING'' \<and> attempt_count w = 1"
  using one_attempt_at_a_time [OF sample_begun_reachable] sample_begun_reachable
  by (force simp: sample_task_def idle_system_def Let_def)

text \<open>
  C2: Results are not lost: in every reachable state of the system, restarts included, a request
  for the result of a succeeded Work that was not acknowledged finds the Work, and whatever the
  scheduler and the attempts do before its next step, that step replies with the bytes of the
  result file, unless SQLite or the file system fails in that very request.
\<close>

theorem result_available_until_acknowledged:
  assumes "sys_reachable dir s" and "state w = ''SUCCEEDED''" and "\<not> acknowledged w"
    and "req_fault env = None" and "req_size_fault env = None" and "req_read_fault env = NoReadFault"
  shows "(serving s = Received request \<and> frame_type request = Result \<and> w \<in> set (works (store (kernel s)))
            \<and> metadata_value request ''work_id'' = Inr (work_id w) \<longrightarrow>
            request_step env (serving s) (kernel s) = (ReadingResult request w, kernel s))
    \<and> (serving s = ReadingResult request w \<longrightarrow>
         (\<exists>data. files (kernel s) (result_path w) = Some data \<and> length data \<le> kMaxPayload
            \<and> request_step env (serving s) (kernel s) =
                (Replied (Inr \<lparr>frame_type = ResultResponse, correlation_id = correlation_id request,
                    metadata = [(''available'', ''true''), (''state'', ''SUCCEEDED'')], payload = data\<rparr>), kernel s)))"
proof -
  have ok: "ok_data (kernel s) (pending (scheduler s) @ in_progress s)"
    and req: "ok_request (data_dir (kernel s)) (store (kernel s)) (serving s)"
    using sys_reachable_inv [OF assms(1)] by (simp_all add: sys_inv_def)
  have open_result: "unclaimed w"
    using assms(2,3) by (simp add: unclaimed_def)
  have found: "store_find None (work_id w) (store (kernel s)) = Inr (Some w)" if w: "w \<in> set (works (store (kernel s)))"
  proof -
    have wf: "wf_db (store (kernel s))" and "plain_id (work_id w)"
      using ok w by (simp_all add: ok_data_def ok_rows_def)
    have "select_work (\<lambda>v. work_id v = work_id w) (store (kernel s)) \<noteq> None"
      using w by (auto simp: select_work_def find_None_iff)
    then obtain v where v: "select_work (\<lambda>v. work_id v = work_id w) (store (kernel s)) = Some v"
      by blast
    then have "v = w"
      using select_work_SomeD [OF v] same_id_eq [OF wf _ w] by auto
    with v \<open>plain_id (work_id w)\<close> show ?thesis
      by (simp add: store_find_def plain_c_str)
  qed
  have result: "\<exists>data. files (kernel s) (result_path w) = Some data \<and> length data \<le> kMaxPayload"
    if "w \<in> set (works (store (kernel s)))"
    using ok that open_result by (auto simp: data_inv has_result_def)
  show ?thesis
  proof (intro conjI impI)
    assume *: "serving s = Received request \<and> frame_type request = Result \<and> w \<in> set (works (store (kernel s)))
        \<and> metadata_value request ''work_id'' = Inr (work_id w)"
    then show "request_step env (serving s) (kernel s) = (ReadingResult request w, kernel s)"
      using found assms(4) by (simp add: request_received_def find_received_def)
  next
    assume *: "serving s = ReadingResult request w"
    then obtain data where data: "files (kernel s) (result_path w) = Some data" "length data \<le> kMaxPayload"
      using req open_result result by auto
    then show "\<exists>data. files (kernel s) (result_path w) = Some data \<and> length data \<le> kMaxPayload
        \<and> request_step env (serving s) (kernel s) =
            (Replied (Inr \<lparr>frame_type = ResultResponse, correlation_id = correlation_id request,
                metadata = [(''available'', ''true''), (''state'', ''SUCCEEDED'')], payload = data\<rparr>), kernel s)"
      using assms(2,3,5,6) *
      by (simp add: result_reply_def read_binary_bounded_def require_c1_payload_size_def set_field_def response_def Let_def)
  qed
qed

theorem result_available_until_acknowledged_witness:
  "\<exists>s w. sys_reachable ''/d'' s \<and> state w = ''SUCCEEDED''
     \<and> request_step sample_request_env (serving s) (kernel s) =
         (ReadingResult \<lparr>frame_type = Result, correlation_id = 3,
            metadata = [(''work_id'', ''00000000000000010000000000000002'')], payload = []\<rparr> w, kernel s)"
proof -
  let ?s = "idle_system sample_done [(sample_task, Finished)]"
  let ?w = "sample_running_row\<lparr>state := ''SUCCEEDED''\<rparr>"
  let ?r = "\<lparr>frame_type = Result, correlation_id = 3,
          metadata = [(''work_id'', ''00000000000000010000000000000002'')], payload = []\<rparr>"
  let ?s1 = "?s\<lparr>serving := Received ?r\<rparr>"
  have "sys_step ?s ?s1"
    by (rule sys_step.received) (simp add: idle_system_def)
  then have reach: "sys_reachable ''/d'' ?s1"
    by (rule sys_reachable_step [OF sample_done_reachable])
  have w: "?w \<in> set (works (store (kernel ?s1)))" "metadata_value ?r ''work_id'' = Inr (work_id ?w)" "\<not> acknowledged ?w"
    by (simp_all add: idle_system_def sample_done_def metadata_value_def sample_running_row_def sample_row_def)
  have "request_step sample_request_env (serving ?s1) (kernel ?s1) = (ReadingResult ?r ?w, kernel ?s1)"
    using result_available_until_acknowledged [OF reach _ w(3), of sample_request_env ?r] w(1,2)
    by (simp add: sample_request_env_def)
  with reach show ?thesis
    by (intro exI [of _ ?s1] exI [of _ ?w]) simp
qed

text \<open>
  C3: The leases are those of the attempts: in every reachable state the resources counted as
  used are the sum of what the attempts in progress and the scheduler have reserved and never
  exceed the capacity, no two attempts hold the same worker process, and a worker of the pool is
  marked busy exactly while an attempt holds it.
\<close>

theorem leases_match_attempts:
  assumes "sys_reachable dir s"
  shows "used_of (resources (kernel s)) r = (\<Sum>q\<leftarrow>reserved (scheduler s). amount_of q r)
        + (\<Sum>(task, ph)\<leftarrow>in_progress s. amount_of (task_requirement task) r)
    \<and> used_of (resources (kernel s)) r \<le> limit_of (resources (kernel s)) r
    \<and> distinct (map (\<lambda>(task, ph). task_worker task) (in_progress s))
    \<and> (\<forall>i \<in> set (workers (worker_pool (kernel s))).
         busy (processes (worker_pool (kernel s)) ! i) \<longleftrightarrow> (\<exists>(task, ph) \<in> set (in_progress s). task_worker task = i))"
proof -
  have "rm.accounts (resources (kernel s)) (reserved (scheduler s) @ map (task_requirement \<circ> fst) (in_progress s))"
    and inv: "pool_inv (use_of (kernel s) (in_progress s))"
    using sys_reachable_inv [OF assms] by (simp_all add: sys_inv_def ok_leases_def)
  then have "used_of (resources (kernel s)) r = (\<Sum>q\<leftarrow>reserved (scheduler s). amount_of q r)
        + (\<Sum>(task, ph)\<leftarrow>in_progress s. amount_of (task_requirement task) r)"
    and "wf_manager (resources (kernel s))"
    by (simp_all add: rm.accounts_def comp_def case_prod_unfold)
  moreover from this(2) have "used_of (resources (kernel s)) r \<le> limit_of (resources (kernel s)) r"
    by (simp add: wf_manager_def)
  ultimately show ?thesis
    using inv by (auto simp: pool_inv_def use_of_def comp_def case_prod_unfold image_iff)
qed

theorem leases_match_attempts_witness:
  "\<exists>s. sys_reachable ''/d'' s \<and> in_progress s = [(sample_task, Executing)]
     \<and> used_of (resources (kernel s)) Ram = 60 \<and> used_of (resources (kernel s)) (Gpu ''g'') = 40"
  using leases_match_attempts [OF sample_begun_reachable, of Ram] leases_match_attempts [OF sample_begun_reachable, of "Gpu ''g''"]
    sample_begun_reachable
  by (intro exI [of _ "idle_system sample_begun [(sample_task, Executing)]"])
     (simp add: sample_task_def sample_requirement_def idle_system_def)

text \<open>
  C4: An attempt ends and settles its Work: under every interleaving, each step of an attempt
  brings it closer to its end, so it takes at most five; and when an attempt ends while the Kernel
  is not stopping and SQLite works, its Work is no longer running but has succeeded, failed, been
  cancelled or been queued again. A step other than the exchange with the worker always returns.
\<close>

theorem attempt_ends_settled:
  assumes "sys_reachable dir s" and "in_progress s = us @ (task, ph) # vs" and "ph \<noteq> Finished" and "undisturbed env"
  shows "case attempt_step env task ph (kernel s) of
      (None, k) \<Rightarrow> ph = Executing
    | (Some ph', k) \<Rightarrow> steps_left ph' < steps_left ph \<and> steps_left ph \<le> 5
        \<and> (ph' = Finished \<longrightarrow> (\<forall>w \<in> set (works (store k)).
             work_id w = work_id (task_work task) \<longrightarrow> state w \<noteq> ''RUNNING''))"
proof -
  let ?key = "work_id (task_work task)"
  let ?k = "kernel s"
  have "ok_tasks (data_dir ?k) (store ?k) (pending (scheduler s) @ us @ (task, ph) # vs)"
    using sys_reachable_inv [OF assms(1)] assms(2) by (simp add: sys_inv_def ok_data_def)
  then have key: "c_str ?key = ?key"
    using ok_tasks_path [of _ _ _ task ph] by (auto simp: task_id_def plain_c_str)
  note settles = finish_settles [OF key]
  have calm: "att_fault env = None" "\<not> att_stopping env"
    using assms(4) by (simp_all add: undisturbed_def)
  show ?thesis
  proof (cases ph)
    case Executing
    then show ?thesis
      using run_attempt_next [OF _ assms(4), of task ?k] by (auto split: prod.split option.split)
  next
    case Cancelling
    then show ?thesis
      using settles by (auto simp: or_rescue_def calm split: prod.split sum.split) (metis prod.collapse)
  next
    case (Failing st m)
    then show ?thesis
      using settles by (auto simp: or_rescue_def calm split: prod.split sum.split) (metis prod.collapse)
  next
    case (Checking data)
    then show ?thesis
      by (auto split: sum.split bool.split)
  next
    case (Writing data)
    then show ?thesis
      by (auto split: sum.split prod.split)
  next
    case Committing
    then show ?thesis
      using settles by (auto simp: or_rescue_def calm split: prod.split sum.split) (metis prod.collapse)
  next
    case (Rescuing e)
    let ?r = "store_finish_retryable_failure None ?key (task_number task) ''FAILED''
        (''WORKER_EXECUTION_FAILURE: '' @ what e) (att_now env) (store ?k)"
    have "fst ?r = Inr ()"
      by (simp add: store_finish_retryable_failure_def Let_def split: option.split)
    then have r: "?r = (Inr (), snd ?r)"
      by (simp add: prod_eq_iff)
    have "state w \<noteq> ''RUNNING''" if "w \<in> set (works (snd ?r))" "work_id w = ?key" for w
      using settles [OF that disjI2 [OF disjI2 [OF r]]] .
    moreover have "attempt_step env task ph ?k = (Some Finished, ?k\<lparr>store := snd ?r\<rparr>)"
      using Rescuing calm by simp
    ultimately show ?thesis
      using Rescuing by simp
  qed (use assms(3) in simp)
qed

theorem attempt_ends_settled_witness:
  "\<exists>k. attempt_step sample_attempt_env sample_task Executing sample_begun = (Some (Checking [5]), k)
     \<and> steps_left (Checking [5]) < steps_left Executing"
proof -
  have calm: "undisturbed sample_attempt_env"
    by (simp add: undisturbed_def sample_attempt_env_def sample_env_def sample_read_turn_def sample_write_turn_def)
  show ?thesis
    using attempt_ends_settled [OF sample_begun_reachable _ _ calm, of "[]" sample_task Executing "[]"] sample_executed
    by (simp add: idle_system_def)
qed

text \<open>
  C5: The scheduler is never stuck: in every reachable state in which some Work is eligible, an
  uninterrupted round either finds the resources of the chosen Work taken by an attempt in
  progress, or takes that Work out of the queue or leaves it there with one attempt more. So the
  queue cannot block while nothing runs.
\<close>

theorem scheduler_never_stuck:
  assumes "sys_reachable dir s" and "scheduler s = Reaping" and "faultless env"
    and "\<forall>engine \<in> set (engine_inventory (kernel s)). validate_requirement (engine_resources engine) = Inr ()"
    and "v \<in> set (works (store (kernel s)))" and "eligible_now (sch_now env) v" and "\<not> deadline_reached v (sch_now env)"
    and "scheduler_round env (kernel s) = (res, k)"
  shows "res = NoCapacity \<and> in_progress s \<noteq> []
    \<or> (\<exists>w \<in> set (works (store (kernel s))). eligible_now (sch_now env) w \<and> advanced w (store k) \<and> taken_up res)"
proof -
  let ?k = "kernel s" and ?now = "sch_now env"
  let ?pool = "pool_reap_idle (sch_reap_wait env) (sch_reap_status env) ?now (worker_pool ?k)"
  have inv: "sys_inv s"
    by (rule sys_reachable_inv [OF assms(1)])
  then have wf: "wf_db (store ?k)" and rows: "ok_rows (data_dir ?k) (store ?k)"
    and acc: "rm.accounts (resources ?k) (map (task_requirement \<circ> fst) (in_progress s))"
    using assms(2) by (simp_all add: sys_inv_def ok_data_def ok_leases_def)
  obtain db where expired: "store_expire_queued_deadlines None ?now (store ?k) = (Inr (), db)"
    by (auto simp: store_expire_queued_deadlines_def)
  then have wf': "wf_db db"
    using store_expire_wf [OF wf, of None ?now] by simp
  have stays: "w \<in> set (works (store ?k))" if "w \<in> set (works db)" "state w = ''QUEUED''" for w
    using that expired by (auto simp: store_expire_queued_deadlines_def update_works_def split: if_splits)
  have "v \<in> set (works db)"
    using expired assms(5,7) by (force simp: store_expire_queued_deadlines_def update_works_def deadline_reached_def split: option.splits)
  then have "filter (eligible_now ?now) (works db) \<noteq> []"
    using assms(6) by (auto simp: filter_empty_conv)
  then obtain w where "store_next_eligible None ?now db = Inr (Some w)"
    using first_least_Some [of "filter (eligible_now ?now) (works db)" queue_before] by (auto simp: store_next_eligible_def)
  note chosen = this next_eligible_row [OF this]
  have w: "w \<in> set (works (store ?k))" "state w = ''QUEUED''" "eligible_now ?now w" "\<not> cancel_requested w"
    using stays [OF chosen(2)] chosen(3) by (simp_all add: eligible_now_def)
  have key: "c_str (work_id w) = work_id w" and count: "0 \<le> attempt_count w"
    using rows wf_db_rowD [OF wf w(1)] w(1) by (auto simp: ok_rows_def plain_c_str wf_row_def)
  let ?k2 = "?k\<lparr>worker_pool := ?pool, store := db\<rparr>"
  have step: "schedule_work env w ?k2 = (res, k)"
    using assms(3,8) expired chosen(1) by (simp add: scheduler_round_def faultless_def Let_def)
  have mgr: "wf_manager (resources ?k)"
    using acc by (simp add: rm.accounts_def)
  have idle: "used_of (resources ?k) j = 0" if "in_progress s = []" for j
    using acc that by (simp add: rm.accounts_def)
  show ?thesis
    using schedule_work_advances [OF step assms(3) _ _ _ _ w(2) key count] assms(4) mgr wf' chosen(2) idle w(1,3) by auto
qed

theorem scheduler_never_stuck_witness:
  "\<exists>s w. sys_reachable ''/d'' s \<and> in_progress s = [] \<and> eligible_now 600 w
     \<and> advanced w (store (snd (scheduler_round sample_round (kernel s))))"
proof -
  let ?s = "idle_system sample_queued []"
  have calm: "faultless sample_round"
    by (simp add: faultless_def sample_round_def)
  have row: "sample_row \<in> set (works (store (kernel ?s)))" "eligible_now (sch_now sample_round) sample_row"
    "\<not> deadline_reached sample_row (sch_now sample_round)"
    by (simp_all add: idle_system_def sample_queued_def eligible_now_def deadline_reached_def sample_row_def sample_round_def)
  have engines: "\<forall>engine \<in> set (engine_inventory (kernel ?s)). validate_requirement (engine_resources engine) = Inr ()"
    by (simp add: idle_system_def sample_queued_def sample_started_def sample_inventory_def resource_eval)
  have "scheduler_round sample_round (kernel ?s) = (Begun sample_task, sample_begun)"
    using sample_scheduled by (simp add: idle_system_def)
  from scheduler_never_stuck [OF sample_queued_reachable _ calm engines row this] show ?thesis
    using sample_queued_reachable sample_scheduled
    by (intro exI [of _ ?s]) (auto simp: idle_system_def sample_round_def)
qed

end
