(* ===== verification/Endpoint.thy ===== *)
theory Endpoint
  imports Prelude
begin

text \<open>
  The local endpoint of \<open>kernel/src/local_ipc.cpp\<close> (POSIX branches): the construction of a
  \<open>LocalIpcServer\<close>, its cleanup and \<open>accept_for\<close>. Several Kernel processes may be started on the
  same endpoint; between any two system calls of one, others make theirs, and a process may be
  killed at any point.

  The operating system keeps two facts about the endpoint: which process holds the advisory lock
  on the lock file, and whose socket the endpoint path names. \<open>flock\<close> fails while another
  process holds the lock, \<open>bind\<close> fails while the path exists, and the end of a process closes its
  descriptors but leaves the path.
\<close>

section \<open>State\<close>

text \<open>The system call that comes next; an exception starts the cleanup.\<close>

datatype endpoint_phase =
    MakeLockDir | OpenLock | Flock | CheckPath | RemoveStale | MakeSocket | Bind | Chmod | Listen
  | Serving
  | CloseServer | RemoveOwned | CloseLock
  | Ended

record Impl =
  phase :: endpoint_phase
  lock_fd :: bool
  server_fd :: bool
  endpoint_owned :: bool
  thrown_error :: "exn option"

record Os =
  lock_holder :: "nat option"
  bound_to :: "nat option"

datatype call_answer = Done | Failed string

definition new_impl :: Impl where
  "new_impl = \<lparr>phase = MakeLockDir, lock_fd = False, server_fd = False, endpoint_owned = False, thrown_error = None\<rparr>"

definition raise :: "string \<Rightarrow> Impl \<Rightarrow> Impl" where
  "raise m impl = impl\<lparr>phase := CloseServer, thrown_error := Some (RuntimeError m)\<rparr>"

definition sun_path_size :: nat where
  "sun_path_size = 108"

section \<open>Construction, cleanup\<close>

text \<open>
  One system call of process \<open>i\<close> (\<open>MakeLockDir\<close> and \<open>CheckPath\<close> stand for
  \<open>create_directories\<close> of the two parent directories). The answer matters only where the state of
  the operating system does not decide. Cleanup ignores failures; \<open>len\<close> is the length of the path.
\<close>

fun impl_call :: "nat \<Rightarrow> call_answer \<Rightarrow> nat \<Rightarrow> endpoint_phase \<Rightarrow> Impl \<Rightarrow> Os \<Rightarrow> Impl \<times> Os" where
  "impl_call len a i MakeLockDir impl os =
     (case a of Failed m \<Rightarrow> (raise m impl, os) | Done \<Rightarrow> (impl\<lparr>phase := OpenLock\<rparr>, os))"
| "impl_call len a i OpenLock impl os =
     (case a of
        Failed m \<Rightarrow> (raise (''open Kernel endpoint lock failed: '' @ m) impl, os)
      | Done \<Rightarrow> (impl\<lparr>phase := Flock, lock_fd := True\<rparr>, os))"
| "impl_call len a i Flock impl os =
     (if lock_holder os \<noteq> None then (raise ''Kernel endpoint lock is already held'' impl, os)
      else case a of
        Failed m \<Rightarrow> (raise (''acquire Kernel endpoint lock failed: '' @ m) impl, os)
      | Done \<Rightarrow> (impl\<lparr>phase := CheckPath\<rparr>, os\<lparr>lock_holder := Some i\<rparr>))"
| "impl_call len a i CheckPath impl os =
     (if len \<ge> sun_path_size then (raise ''Unix-domain socket path is too long'' impl, os)
      else case a of
        Failed m \<Rightarrow> (raise m impl, os)
      | Done \<Rightarrow> (impl\<lparr>phase := RemoveStale\<rparr>, os))"
| "impl_call len a i RemoveStale impl os =
     (impl\<lparr>phase := MakeSocket\<rparr>, case a of Failed m \<Rightarrow> os | Done \<Rightarrow> os\<lparr>bound_to := None\<rparr>)"
| "impl_call len a i MakeSocket impl os =
     (case a of
        Failed m \<Rightarrow> (raise (''create Unix-domain socket failed: '' @ m) impl, os)
      | Done \<Rightarrow> (impl\<lparr>phase := Bind, server_fd := True\<rparr>, os))"
| "impl_call len a i Bind impl os =
     (if bound_to os \<noteq> None then (raise ''bind Unix-domain socket failed: Address already in use'' impl, os)
      else case a of
        Failed m \<Rightarrow> (raise (''bind Unix-domain socket failed: '' @ m) impl, os)
      | Done \<Rightarrow> (impl\<lparr>phase := Chmod, endpoint_owned := True\<rparr>, os\<lparr>bound_to := Some i\<rparr>))"
| "impl_call len a i Chmod impl os =
     (case a of
        Failed m \<Rightarrow> (raise (''set owner-only Unix-domain socket permissions failed: '' @ m) impl, os)
      | Done \<Rightarrow> (impl\<lparr>phase := Listen\<rparr>, os))"
| "impl_call len a i Listen impl os =
     (case a of
        Failed m \<Rightarrow> (raise (''listen on Unix-domain socket failed: '' @ m) impl, os)
      | Done \<Rightarrow> (impl\<lparr>phase := Serving\<rparr>, os))"
| "impl_call len a i Serving impl os = (impl\<lparr>phase := CloseServer\<rparr>, os)"
| "impl_call len a i CloseServer impl os = (impl\<lparr>phase := RemoveOwned, server_fd := False\<rparr>, os)"
| "impl_call len a i RemoveOwned impl os =
     (impl\<lparr>phase := CloseLock, endpoint_owned := False\<rparr>,
      if endpoint_owned impl \<and> a = Done then os\<lparr>bound_to := None\<rparr> else os)"
| "impl_call len a i CloseLock impl os =
     (impl\<lparr>phase := Ended, lock_fd := False\<rparr>,
      if lock_fd impl \<and> lock_holder os = Some i then os\<lparr>lock_holder := None\<rparr> else os)"
| "impl_call len a i Ended impl os = (impl, os)"

definition endpoint_step :: "nat \<Rightarrow> call_answer \<Rightarrow> nat \<Rightarrow> Impl \<Rightarrow> Os \<Rightarrow> Impl \<times> Os" where
  "endpoint_step len a i impl os = impl_call len a i (phase impl) impl os"

text \<open>The process is killed: the operating system closes its descriptors, and the object is gone.\<close>

definition kill_process :: "nat \<Rightarrow> Impl \<Rightarrow> Os \<Rightarrow> Impl \<times> Os" where
  "kill_process i impl os =
     (impl\<lparr>phase := Ended, lock_fd := False, server_fd := False, endpoint_owned := False\<rparr>,
      os\<lparr>lock_holder := if lock_holder os = Some i then None else lock_holder os\<rparr>)"

section \<open>accept_for\<close>

datatype poll_answer = PollTimeout | PollReady | PollInterrupted | PollFailed string
datatype accept_answer = Accepted int | AcceptInterrupted | AcceptFailed string

definition accept_for :: "poll_answer \<Rightarrow> accept_answer \<Rightarrow> int result" where
  "accept_for p a =
     (case p of
        PollInterrupted \<Rightarrow> Inr (- 1)
      | PollFailed m \<Rightarrow> Inl (RuntimeError (''poll local IPC socket failed: '' @ m))
      | PollTimeout \<Rightarrow> Inr (- 1)
      | PollReady \<Rightarrow>
          (case a of
             Accepted fd \<Rightarrow> Inr fd
           | AcceptInterrupted \<Rightarrow> Inr (- 1)
           | AcceptFailed m \<Rightarrow> Inl (RuntimeError (''accept local IPC client failed: '' @ m))))"

section \<open>Several processes\<close>

record Machine =
  machine_os :: Os
  impls :: "Impl list"

inductive machine_step :: "nat \<Rightarrow> Machine \<Rightarrow> Machine \<Rightarrow> bool" for len where
  launched: "machine_step len m (m\<lparr>impls := impls m @ [new_impl]\<rparr>)"
| called: "i < length (impls m) \<Longrightarrow> endpoint_step len a i (impls m ! i) (machine_os m) = (impl, os') \<Longrightarrow>
    machine_step len m \<lparr>machine_os = os', impls = (impls m)[i := impl]\<rparr>"
| killed: "i < length (impls m) \<Longrightarrow> kill_process i (impls m ! i) (machine_os m) = (impl, os') \<Longrightarrow>
    machine_step len m \<lparr>machine_os = os', impls = (impls m)[i := impl]\<rparr>"

definition machine_start :: "Machine \<Rightarrow> bool" where
  "machine_start m \<longleftrightarrow> impls m = [] \<and> lock_holder (machine_os m) = None"

section \<open>Invariant\<close>

primrec holds_lock :: "endpoint_phase \<Rightarrow> bool" where
  "holds_lock MakeLockDir = False" | "holds_lock OpenLock = False" | "holds_lock Flock = False" | "holds_lock CheckPath = True"
| "holds_lock RemoveStale = True" | "holds_lock MakeSocket = True" | "holds_lock Bind = True"
| "holds_lock Chmod = True" | "holds_lock Listen = True" | "holds_lock Serving = True"
| "holds_lock CloseServer = False" | "holds_lock RemoveOwned = False" | "holds_lock CloseLock = False"
| "holds_lock Ended = False"

text \<open>The phases in which the path is the process's own, and those in which it may be.\<close>

primrec owns_path :: "endpoint_phase \<Rightarrow> bool option" where
  "owns_path MakeLockDir = Some False" | "owns_path OpenLock = Some False" | "owns_path Flock = Some False" | "owns_path CheckPath = Some False"
| "owns_path RemoveStale = Some False" | "owns_path MakeSocket = Some False" | "owns_path Bind = Some False"
| "owns_path Chmod = Some True" | "owns_path Listen = Some True" | "owns_path Serving = Some True"
| "owns_path CloseServer = None" | "owns_path RemoveOwned = None" | "owns_path CloseLock = Some False"
| "owns_path Ended = Some False"

text \<open>What holds of one process.\<close>

definition impl_ok :: "nat \<Rightarrow> Impl \<Rightarrow> Os \<Rightarrow> bool" where
  "impl_ok i impl os \<longleftrightarrow>
     (holds_lock (phase impl) \<longrightarrow> lock_holder os = Some i)
     \<and> (owns_path (phase impl) = Some True \<longrightarrow> endpoint_owned impl \<and> server_fd impl)
     \<and> (owns_path (phase impl) = Some False \<longrightarrow> \<not> endpoint_owned impl)
     \<and> (endpoint_owned impl \<longrightarrow> lock_holder os = Some i \<and> bound_to os = Some i)
     \<and> (phase impl = Bind \<longrightarrow> server_fd impl)
     \<and> (lock_holder os = Some i \<longrightarrow> lock_fd impl \<and> phase impl \<noteq> MakeLockDir \<and> phase impl \<noteq> OpenLock \<and> phase impl \<noteq> Flock \<and> phase impl \<noteq> Ended)
     \<and> (phase impl = Flock \<longrightarrow> lock_fd impl)"

definition machine_ok :: "Machine \<Rightarrow> bool" where
  "machine_ok m \<longleftrightarrow>
     (\<forall>i < length (impls m). impl_ok i (impls m ! i) (machine_os m))
     \<and> (\<forall>i. lock_holder (machine_os m) = Some i \<longrightarrow> i < length (impls m))"

lemmas endpoint_defs = impl_ok_def raise_def

text \<open>A call of one process keeps its own facts and those of every other.\<close>

lemma endpoint_step_own:
  assumes "impl_ok i impl os" and "endpoint_step len a i impl os = (impl', os')"
  shows "impl_ok i impl' os'"
  using assms unfolding endpoint_step_def
  by (cases "phase impl"; cases a) (auto simp: endpoint_defs split: if_splits)

lemma impl_ok_frame:
  assumes "impl_ok j other os" and "lock_holder os' = Some j \<longleftrightarrow> lock_holder os = Some j"
    and "lock_holder os = Some j \<Longrightarrow> bound_to os' = bound_to os"
  shows "impl_ok j other os'"
  using assms by (cases "lock_holder os = Some j") (auto simp: impl_ok_def)

lemma endpoint_step_frame:
  assumes "impl_ok i impl os" and "i \<noteq> j" and "endpoint_step len a i impl os = (impl', os')"
  shows "lock_holder os' = Some j \<longleftrightarrow> lock_holder os = Some j"
    and "lock_holder os = Some j \<Longrightarrow> bound_to os' = bound_to os"
  using assms unfolding endpoint_step_def
  by (cases "phase impl"; auto simp: impl_ok_def split: call_answer.splits if_splits)+

lemma endpoint_step_other:
  assumes "impl_ok i impl os" and "impl_ok j other os" and "i \<noteq> j" and "endpoint_step len a i impl os = (impl', os')"
  shows "impl_ok j other os'"
  using impl_ok_frame [OF assms(2) endpoint_step_frame [OF assms(1,3,4)]] .

lemma endpoint_step_holder:
  assumes "endpoint_step len a i impl os = (impl', os')"
  shows "lock_holder os' = lock_holder os \<or> lock_holder os' = None \<or> lock_holder os' = Some i"
  using assms unfolding endpoint_step_def
  by (cases "phase impl") (auto split: call_answer.splits if_splits)

lemma killed_own: "kill_process i impl os = (impl', os') \<Longrightarrow> impl_ok i impl' os'"
  by (auto simp: kill_process_def endpoint_defs split: if_splits)

lemma killed_other:
  assumes "impl_ok j other os" and "i \<noteq> j" and "kill_process i impl os = (impl', os')"
  shows "impl_ok j other os'"
  using assms(2,3) by (intro impl_ok_frame [OF assms(1)]) (auto simp: kill_process_def split: if_splits)

lemma killed_holder: "kill_process i impl os = (impl', os') \<Longrightarrow> lock_holder os' = lock_holder os \<or> lock_holder os' = None"
  by (auto simp: kill_process_def split: if_splits)

lemma machine_update:
  assumes ok: "machine_ok m" and i: "i < length (impls m)" and own: "impl_ok i impl os'"
    and other: "\<And>j. j < length (impls m) \<Longrightarrow> i \<noteq> j \<Longrightarrow> impl_ok j (impls m ! j) os'"
    and holder: "\<And>j. lock_holder os' = Some j \<Longrightarrow> lock_holder (machine_os m) = Some j \<or> j = i"
  shows "machine_ok \<lparr>machine_os = os', impls = (impls m)[i := impl]\<rparr>"
  using assms unfolding machine_ok_def by (auto simp: nth_list_update)

lemma machine_step_ok: "machine_step len m m' \<Longrightarrow> machine_ok m \<Longrightarrow> machine_ok m'"
proof (induction rule: machine_step.induct)
  case (launched m)
  have "lock_holder (machine_os m) \<noteq> Some (length (impls m))"
    using launched unfolding machine_ok_def by blast
  then have "impl_ok (length (impls m)) new_impl (machine_os m)"
    by (simp add: new_impl_def endpoint_defs)
  then show ?case
    using launched unfolding machine_ok_def by (auto simp: nth_append less_Suc_eq)
next
  case (called i m a impl os')
  have ok: "impl_ok j (impls m ! j) (machine_os m)" if "j < length (impls m)" for j
    using called(3) that by (simp add: machine_ok_def)
  show ?case
    using endpoint_step_own [OF ok [OF called(1)] called(2)]
      endpoint_step_other [OF ok [OF called(1)] ok _ called(2)] endpoint_step_holder [OF called(2)]
    by (intro machine_update [OF called(3,1)]) auto
next
  case (killed i m impl os')
  have ok: "impl_ok j (impls m ! j) (machine_os m)" if "j < length (impls m)" for j
    using killed(3) that by (simp add: machine_ok_def)
  show ?case
    using killed_own [OF killed(2)] killed_other [OF ok _ killed(2)] killed_holder [OF killed(2)]
    by (intro machine_update [OF killed(3,1)]) auto
qed

interpretation machines: step_system "machine_step len" machine_start machine_ok for len
proof
  show "machine_ok m" if "machine_start m" for m
    using that by (simp add: machine_start_def machine_ok_def)
qed (rule machine_step_ok)

section \<open>Properties\<close>

text \<open>
  C19: An endpoint has one server: however many Kernel processes are started, fail, end or are
  killed on it, at most one of them serves, the endpoint path names the socket of that one, so the
  start or failure of another process never takes a client away from it; and when no process is
  left the lock is free, so a killed Kernel does not keep a new one from starting.
\<close>

theorem endpoint_has_one_server:
  assumes "machine_start m0" and "(machine_step len)\<^sup>*\<^sup>* m0 m"
  shows "(\<forall>i < length (impls m). phase (impls m ! i) = Serving \<longrightarrow>
            lock_holder (machine_os m) = Some i \<and> bound_to (machine_os m) = Some i \<and> server_fd (impls m ! i)
            \<and> (\<forall>j < length (impls m). phase (impls m ! j) = Serving \<longrightarrow> j = i))
    \<and> ((\<forall>impl \<in> set (impls m). phase impl = Ended) \<longrightarrow> lock_holder (machine_os m) = None)"
proof -
  have ok: "machine_ok m"
    by (rule machines.reachable_invar [OF assms])
  have serving: "lock_holder (machine_os m) = Some i \<and> bound_to (machine_os m) = Some i \<and> server_fd (impls m ! i)"
    if "i < length (impls m)" "phase (impls m ! i) = Serving" for i
  proof -
    have "impl_ok i (impls m ! i) (machine_os m)"
      using ok that(1) by (simp add: machine_ok_def)
    then show ?thesis
      using that(2) by (simp add: endpoint_defs)
  qed
  have "lock_holder (machine_os m) = None" if ended: "\<forall>impl \<in> set (impls m). phase impl = Ended"
  proof (rule ccontr)
    assume "lock_holder (machine_os m) \<noteq> None"
    then obtain i where i: "lock_holder (machine_os m) = Some i" "i < length (impls m)"
      using ok by (auto simp: machine_ok_def)
    then have "impl_ok i (impls m ! i) (machine_os m)" "phase (impls m ! i) = Ended"
      using ok ended by (simp_all add: machine_ok_def)
    then show False
      using i(1) by (simp add: impl_ok_def)
  qed
  moreover have "j = i" if "i < length (impls m)" "phase (impls m ! i) = Serving"
      "j < length (impls m)" "phase (impls m ! j) = Serving" for i j
    using serving [OF that(1,2)] serving [OF that(3,4)] by simp
  ultimately show ?thesis
    using serving by blast
qed

text \<open>A first process serves, a second one is started and finds the lock held.\<close>

fun run_calls :: "nat \<Rightarrow> nat list \<Rightarrow> Machine \<Rightarrow> Machine" where
  "run_calls len [] m = m"
| "run_calls len (i # is) m =
     (case endpoint_step len Done i (impls m ! i) (machine_os m) of
        (impl, os') \<Rightarrow> run_calls len is \<lparr>machine_os = os', impls = (impls m)[i := impl]\<rparr>)"

lemma run_calls_steps:
  "list_all (\<lambda>i. i < length (impls m)) is \<Longrightarrow> (machine_step len)\<^sup>*\<^sup>* m (run_calls len is m)"
proof (induction "is" arbitrary: m)
  case (Cons i "is")
  obtain impl os' where call: "endpoint_step len Done i (impls m ! i) (machine_os m) = (impl, os')"
    by fastforce
  have "machine_step len m \<lparr>machine_os = os', impls = (impls m)[i := impl]\<rparr>"
    using Cons.prems call by (intro machine_step.called) simp_all
  moreover have "(machine_step len)\<^sup>*\<^sup>* \<lparr>machine_os = os', impls = (impls m)[i := impl]\<rparr> (run_calls len (i # is) m)"
    using Cons call by simp
  ultimately show ?case
    by (rule converse_rtranclp_into_rtranclp)
qed simp

definition sample_machine :: Machine where
  "sample_machine = \<lparr>machine_os = \<lparr>lock_holder = None, bound_to = Some 9\<rparr>, impls = []\<rparr>"

theorem endpoint_has_one_server_witness:
  "let m = run_calls 20 ([0, 0, 0, 0, 0, 0, 0, 0, 0] @ [1, 1, 1, 1, 1, 1]) (sample_machine\<lparr>impls := [new_impl, new_impl]\<rparr>)
   in phase (impls m ! 0) = Serving \<and> phase (impls m ! 1) = Ended
      \<and> thrown_error (impls m ! 1) = Some (RuntimeError ''Kernel endpoint lock is already held'')
      \<and> bound_to (machine_os m) = Some 0"
proof -
  let ?m1 = "sample_machine\<lparr>impls := [new_impl, new_impl]\<rparr>"
  let ?calls = "[0, 0, 0, 0, 0, 0, 0, 0, 0] @ [1, 1, 1, 1, 1, 1]"
  let ?m = "run_calls 20 ?calls ?m1"
  have start: "machine_start sample_machine"
    by (simp add: machine_start_def sample_machine_def)
  have "machine_step 20 sample_machine (sample_machine\<lparr>impls := [new_impl]\<rparr>)"
    "machine_step 20 (sample_machine\<lparr>impls := [new_impl]\<rparr>) ?m1"
    using machine_step.launched [of 20 sample_machine] machine_step.launched [of 20 "sample_machine\<lparr>impls := [new_impl]\<rparr>"]
    by (simp_all add: sample_machine_def)
  then have "(machine_step 20)\<^sup>*\<^sup>* sample_machine ?m"
    using run_calls_steps [of ?m1 ?calls 20] by (simp add: converse_rtranclp_into_rtranclp del: run_calls.simps)
  from endpoint_has_one_server [OF start this]
  have "\<forall>i < length (impls ?m). phase (impls ?m ! i) = Serving \<longrightarrow> bound_to (machine_os ?m) = Some i"
    by blast
  moreover have "length (impls ?m) = 2" "phase (impls ?m ! 0) = Serving" "phase (impls ?m ! 1) = Ended"
    "thrown_error (impls ?m ! 1) = Some (RuntimeError ''Kernel endpoint lock is already held'')"
    by (simp_all add: endpoint_step_def sample_machine_def new_impl_def raise_def sun_path_size_def)
  ultimately show ?thesis
    by (simp add: Let_def del: run_calls.simps)
qed

end
