(* ===== verification/Options.thy ===== *)
theory Options
  imports Kernel
begin

text \<open>
  The command line of \<open>madre-kernel\<close> (\<open>kernel/src/main.cpp\<close>): the options, their checks, and
  the engine inventory and launch table built from them, up to the construction of the Kernel in
  \<open>main\<close>.
\<close>

section \<open>Options\<close>

record Options =
  opt_data_dir :: string
  opt_endpoint :: string
  opt_fake_worker :: string
  opt_fake_delay_ms :: int
  opt_worker_idle_ms :: i64
  opt_capacity :: ResourceCapacity
  opt_worker_engine_id :: string
  opt_worker_executable :: string
  opt_worker_model_id :: string
  opt_worker_arguments :: "string list"
  opt_worker_work_types :: "string list"
  opt_worker_capabilities :: "string list"
  opt_worker_efforts :: "string list"
  opt_worker_cpu_slots :: int
  opt_worker_ram_bytes :: u64
  opt_worker_gpu_id :: string
  opt_worker_gpu_vram_bytes :: u64

definition default_options :: Options where
  "default_options =
     \<lparr>opt_data_dir = [], opt_endpoint = [], opt_fake_worker = [], opt_fake_delay_ms = 250,
      opt_worker_idle_ms = 1000,
      opt_capacity = \<lparr>cap_cpu_slots = 2, cap_ram_bytes = 512 * kMiB, cap_gpu_vram_bytes = []\<rparr>,
      opt_worker_engine_id = [], opt_worker_executable = [], opt_worker_model_id = [],
      opt_worker_arguments = [], opt_worker_work_types = [''text-generation/v1''],
      opt_worker_capabilities = [''basic-text''], opt_worker_efforts = [''STANDARD''],
      opt_worker_cpu_slots = 1, opt_worker_ram_bytes = 256 * kMiB, opt_worker_gpu_id = [],
      opt_worker_gpu_vram_bytes = 0\<rparr>"

text \<open>\<open>substr\<close> before and after the first equals sign.\<close>

definition add_gpu_capacity :: "ResourceCapacity \<Rightarrow> string \<Rightarrow> ResourceCapacity result" where
  "add_gpu_capacity cap spec =
     (let key = takeWhile (\<lambda>c. c \<noteq> CHR ''='') spec;
          equals = length key
      in if equals = length spec \<or> equals = 0 \<or> equals + 1 \<ge> length spec
         then Inl (RuntimeError ''GPU capacity must use ID=MiB'')
         else bind_result (stoull (drop (equals + 1) spec)) (\<lambda>mib.
           if mib = 0 \<or> map_of (cap_gpu_vram_bytes cap) key \<noteq> None
           then Inl (RuntimeError ''GPU capacity identity must be unique and positive'')
           else Inr (cap\<lparr>cap_gpu_vram_bytes := map_emplace key (mib * kMiB) (cap_gpu_vram_bytes cap)\<rparr>)))"

definition has_configured_worker :: "Options \<Rightarrow> bool" where
  "has_configured_worker opts \<longleftrightarrow>
     opt_worker_engine_id opts \<noteq> [] \<or> opt_worker_executable opts \<noteq> []
     \<or> opt_worker_model_id opts \<noteq> [] \<or> opt_worker_arguments opts \<noteq> []"

definition configured_engine :: "Options \<Rightarrow> EngineDescriptorFacts" where
  "configured_engine opts =
     \<lparr>engine_id = opt_worker_engine_id opts, work_types = opt_worker_work_types opts,
      capabilities = opt_worker_capabilities opts,
      model_ids = (if opt_worker_model_id opts = [] then [] else [opt_worker_model_id opts]),
      supported_efforts = opt_worker_efforts opts, placement = ''LOCAL_WORKER_PROCESS'',
      availability = ''AVAILABLE'',
      engine_resources = \<lparr>req_cpu_slots = opt_worker_cpu_slots opts, req_ram_bytes = opt_worker_ram_bytes opts,
                          req_gpu_id = opt_worker_gpu_id opts, req_gpu_vram_bytes = opt_worker_gpu_vram_bytes opts\<rparr>\<rparr>"

definition build_engine_inventory :: "Options \<Rightarrow> EngineDescriptorFacts list result" where
  "build_engine_inventory opts =
     (let inventory = (if opt_fake_worker opts \<noteq> [] then fake_engine_inventory else [])
      in if \<not> has_configured_worker opts then Inr inventory
         else if list_ex (\<lambda>e. engine_id e = opt_worker_engine_id opts) inventory
         then Inl (RuntimeError ''configured worker engine identity duplicates an existing engine'')
         else Inr (inventory @ [configured_engine opts]))"

definition build_worker_launches :: "Options \<Rightarrow> (string, WorkerLaunchSpec) std_assoc" where
  "build_worker_launches opts =
     (let fake = (if opt_fake_worker opts = [] then []
        else fold (\<lambda>e. map_emplace (engine_id e)
               \<lparr>executable = opt_fake_worker opts,
                arguments = [''--engine-id'', engine_id e, ''--delay-ms'', string_of_int (opt_fake_delay_ms opts)]\<rparr>)
               fake_engine_inventory [])
      in if has_configured_worker opts
         then map_emplace (opt_worker_engine_id opts)
                \<lparr>executable = opt_worker_executable opts, arguments = opt_worker_arguments opts\<rparr> fake
         else fake)"

section \<open>Parsing\<close>

definition usage_error :: exn where
  "usage_error = RuntimeError (''usage: madre-kernel --data-dir <path> --endpoint <local-endpoint> ''
     @ ''[--fake-worker <path>] [--fake-delay-ms N] [--worker-idle-ms N] ''
     @ ''[--cpu-capacity N] [--ram-capacity-mib N] ''
     @ ''[--gpu-capacity ID=MiB]... ''
     @ ''[--worker-engine-id ID --worker-executable PATH [--worker-model-id ID] ''
     @ ''[--worker-arg ARG]... [--worker-work-types CSV] ''
     @ ''[--worker-capabilities CSV] [--worker-efforts CSV] ''
     @ ''[--worker-cpu-slots N] [--worker-ram-mib N] ''
     @ ''[--worker-gpu-id ID --worker-gpu-vram-mib N]]'')"

text \<open>One option with its value.\<close>

definition parse_option :: "string \<Rightarrow> string \<Rightarrow> Options \<Rightarrow> Options result" where
  "parse_option argument v opts =
     (if argument = ''--data-dir'' then Inr (opts\<lparr>opt_data_dir := v\<rparr>)
      else if argument = ''--endpoint'' then Inr (opts\<lparr>opt_endpoint := v\<rparr>)
      else if argument = ''--fake-worker'' then Inr (opts\<lparr>opt_fake_worker := v\<rparr>)
      else if argument = ''--fake-delay-ms'' then bind_result (stoi v) (\<lambda>n. Inr (opts\<lparr>opt_fake_delay_ms := n\<rparr>))
      else if argument = ''--worker-idle-ms'' then bind_result (stoll v) (\<lambda>(n, _). Inr (opts\<lparr>opt_worker_idle_ms := n\<rparr>))
      else if argument = ''--cpu-capacity''
      then bind_result (stoi v) (\<lambda>n. Inr (opts\<lparr>opt_capacity := (opt_capacity opts)\<lparr>cap_cpu_slots := n\<rparr>\<rparr>))
      else if argument = ''--ram-capacity-mib''
      then bind_result (stoull v) (\<lambda>n. Inr (opts\<lparr>opt_capacity := (opt_capacity opts)\<lparr>cap_ram_bytes := n * kMiB\<rparr>\<rparr>))
      else if argument = ''--gpu-capacity''
      then bind_result (add_gpu_capacity (opt_capacity opts) v) (\<lambda>cap. Inr (opts\<lparr>opt_capacity := cap\<rparr>))
      else if argument = ''--worker-engine-id'' then Inr (opts\<lparr>opt_worker_engine_id := v\<rparr>)
      else if argument = ''--worker-executable'' then Inr (opts\<lparr>opt_worker_executable := v\<rparr>)
      else if argument = ''--worker-model-id'' then Inr (opts\<lparr>opt_worker_model_id := v\<rparr>)
      else if argument = ''--worker-arg'' then Inr (opts\<lparr>opt_worker_arguments := opt_worker_arguments opts @ [v]\<rparr>)
      else if argument = ''--worker-work-types'' then Inr (opts\<lparr>opt_worker_work_types := split_csv v\<rparr>)
      else if argument = ''--worker-capabilities'' then Inr (opts\<lparr>opt_worker_capabilities := split_csv v\<rparr>)
      else if argument = ''--worker-efforts'' then Inr (opts\<lparr>opt_worker_efforts := split_csv v\<rparr>)
      else if argument = ''--worker-cpu-slots'' then bind_result (stoi v) (\<lambda>n. Inr (opts\<lparr>opt_worker_cpu_slots := n\<rparr>))
      else if argument = ''--worker-ram-mib''
      then bind_result (stoull v) (\<lambda>n. Inr (opts\<lparr>opt_worker_ram_bytes := n * kMiB\<rparr>))
      else if argument = ''--worker-gpu-id'' then Inr (opts\<lparr>opt_worker_gpu_id := v\<rparr>)
      else if argument = ''--worker-gpu-vram-mib''
      then bind_result (stoull v) (\<lambda>n. Inr (opts\<lparr>opt_worker_gpu_vram_bytes := n * kMiB\<rparr>))
      else Inl usage_error)"

text \<open>The loop over \<open>argv\<close>; an option without a value is a usage error.\<close>

fun parse_arguments :: "string list \<Rightarrow> Options \<Rightarrow> Options result" where
  "parse_arguments [] opts = Inr opts"
| "parse_arguments [argument] opts = Inl usage_error"
| "parse_arguments (argument # v # rest) opts = bind_result (parse_option argument v opts) (parse_arguments rest)"

definition check_options :: "Options \<Rightarrow> Options result" where
  "check_options opts =
     (let configured = has_configured_worker opts
      in if opt_data_dir opts = [] \<or> opt_endpoint opts = [] \<or> opt_fake_delay_ms opts < 0
            \<or> opt_worker_idle_ms opts < 0 \<or> cap_cpu_slots (opt_capacity opts) < 1
            \<or> cap_ram_bytes (opt_capacity opts) = 0
         then Inl (RuntimeError ''invalid Kernel physical process/resource configuration'')
         else if configured \<and> (opt_worker_engine_id opts = [] \<or> opt_worker_executable opts = []
            \<or> opt_worker_work_types opts = [] \<or> opt_worker_efforts opts = []
            \<or> opt_worker_cpu_slots opts < 1 \<or> opt_worker_ram_bytes opts = 0)
         then Inl (RuntimeError ''configured worker requires engine, executable and positive physical resources'')
         else if configured \<and> ((opt_worker_gpu_id opts = []) \<noteq> (opt_worker_gpu_vram_bytes opts = 0))
         then Inl (RuntimeError ''configured worker GPU identity and VRAM must be declared together'')
         else Inr opts)"

definition parse_options :: "string list \<Rightarrow> Options result" where
  "parse_options argv = bind_result (parse_arguments argv default_options) check_options"

text \<open>\<open>main\<close> up to \<open>kernel.run()\<close>; an exception ends the process with status 1.\<close>

definition main_start :: "string list \<Rightarrow> sqlite_fault \<Rightarrow> i64 \<Rightarrow> Db \<Rightarrow> file_system \<Rightarrow> Kernel result \<times> Db" where
  "main_start argv fault now db fs =
     (case bind_result (parse_options argv) (\<lambda>opts.
             bind_result (build_engine_inventory opts) (\<lambda>inventory. Inr (opts, inventory))) of
        Inl e \<Rightarrow> (Inl e, db)
      | Inr (opts, inventory) \<Rightarrow>
          start_kernel (opt_data_dir opts) inventory (build_worker_launches opts) (opt_worker_idle_ms opts)
            (opt_capacity opts) fault now db fs)"

section \<open>Lemmas\<close>

definition sound_options :: "Options \<Rightarrow> bool" where
  "sound_options opts \<longleftrightarrow>
     opt_data_dir opts \<noteq> [] \<and> 0 \<le> opt_worker_idle_ms opts \<and> 1 \<le> cap_cpu_slots (opt_capacity opts)
     \<and> cap_ram_bytes (opt_capacity opts) \<noteq> 0
     \<and> (has_configured_worker opts \<longrightarrow>
          opt_worker_engine_id opts \<noteq> [] \<and> opt_worker_executable opts \<noteq> []
          \<and> validate_requirement (engine_resources (configured_engine opts)) = Inr ())"

lemma parse_options_sound: "parse_options argv = Inr opts \<Longrightarrow> sound_options opts"
  by (auto simp: parse_options_def bind_result_def check_options_def sound_options_def validate_requirement_def
      configured_engine_def Let_def split: sum.splits if_splits)

text \<open>An engine of the inventory that the pool can start and the resource manager can judge.\<close>

definition servable :: "(string, WorkerLaunchSpec) std_assoc \<Rightarrow> EngineDescriptorFacts \<Rightarrow> bool" where
  "servable launches e \<longleftrightarrow> validate_requirement (engine_resources e) = Inr () \<and> map_of launches (engine_id e) \<noteq> None"

lemma set_map_emplace: "set (map_emplace k v m) \<subseteq> insert (k, v) (set m)"
  by (induction k v m rule: map_emplace.induct) auto

lemma fake_inventory_sound:
  "distinct (map engine_id fake_engine_inventory)"
  "e \<in> set fake_engine_inventory \<Longrightarrow> engine_id e \<noteq> [] \<and> validate_requirement (engine_resources e) = Inr ()"
  by (auto simp: fake_engine_inventory_def validate_requirement_def kMiB_def)

lemma fold_emplace_keys:
  "fst ` set (fold (\<lambda>e. map_emplace (engine_id e) (g e)) es m) = engine_id ` set es \<union> fst ` set m"
  by (induction es arbitrary: m) (auto simp: fst_map_emplace)

lemma fold_emplace_entries:
  "set (fold (\<lambda>e. map_emplace (engine_id e) (g e)) es m) \<subseteq> (\<lambda>e. (engine_id e, g e)) ` set es \<union> set m"
proof (induction es arbitrary: m)
  case (Cons e es)
  then show ?case
    using set_map_emplace [of "engine_id e" "g e" m] by fastforce
qed simp

lemma launches_keys:
  "fst ` set (build_worker_launches opts) =
     (if opt_fake_worker opts = [] then {} else engine_id ` set fake_engine_inventory)
     \<union> (if has_configured_worker opts then {opt_worker_engine_id opts} else {})"
  by (simp add: build_worker_launches_def fst_map_emplace fold_emplace_keys Let_def)

lemma launches_sound:
  assumes "sound_options opts" and "(key, launch) \<in> set (build_worker_launches opts)"
  shows "key \<noteq> [] \<and> executable launch \<noteq> []"
proof -
  let ?g = "\<lambda>e. \<lparr>executable = opt_fake_worker opts,
      arguments = [''--engine-id'', engine_id e, ''--delay-ms'', string_of_int (opt_fake_delay_ms opts)]\<rparr>"
  let ?launch = "\<lparr>executable = opt_worker_executable opts, arguments = opt_worker_arguments opts\<rparr>"
  define fake where "fake = (if opt_fake_worker opts = [] then []
      else fold (\<lambda>e. map_emplace (engine_id e) (?g e)) fake_engine_inventory [])"
  have fake: "k \<noteq> [] \<and> executable l \<noteq> []" if "(k, l) \<in> set fake" for k l
  proof -
    have "opt_fake_worker opts \<noteq> []" and "(k, l) \<in> (\<lambda>e. (engine_id e, ?g e)) ` set fake_engine_inventory"
      using that fold_emplace_entries [of ?g fake_engine_inventory "[]"] by (auto simp: fake_def split: if_splits)
    then show ?thesis
      using fake_inventory_sound(2) by auto
  qed
  have launches: "build_worker_launches opts =
      (if has_configured_worker opts then map_emplace (opt_worker_engine_id opts) ?launch fake else fake)"
    by (simp add: build_worker_launches_def fake_def Let_def)
  show ?thesis
  proof (cases "has_configured_worker opts \<and> key = opt_worker_engine_id opts \<and> launch = ?launch")
    case True
    then show ?thesis
      using assms(1) by (simp add: sound_options_def)
  next
    case False
    then have "(key, launch) \<in> set fake"
      using assms(2) set_map_emplace [of "opt_worker_engine_id opts" ?launch fake]
      by (cases "has_configured_worker opts") (auto simp: launches)
    then show ?thesis by (rule fake)
  qed
qed

lemma inventory_sound:
  assumes "sound_options opts" and "build_engine_inventory opts = Inr inventory"
  shows "distinct (map engine_id inventory)"
    and "e \<in> set inventory \<Longrightarrow> servable (build_worker_launches opts) e"
proof -
  let ?fake = "if opt_fake_worker opts \<noteq> [] then fake_engine_inventory else []"
  have inv: "inventory = ?fake @ (if has_configured_worker opts then [configured_engine opts] else [])"
    and new: "has_configured_worker opts \<Longrightarrow> opt_worker_engine_id opts \<notin> engine_id ` set ?fake"
    using assms(2) by (auto simp: build_engine_inventory_def Let_def list_ex_iff split: if_splits)
  show "distinct (map engine_id inventory)"
    using fake_inventory_sound(1) new by (auto simp: inv configured_engine_def)
  show "servable (build_worker_launches opts) e" if "e \<in> set inventory"
    using that assms(1) fake_inventory_sound(2) launches_keys [of opts] unfolding servable_def map_of_eq_None_iff
    by (auto simp: inv sound_options_def configured_engine_def split: if_splits)
qed

section \<open>Properties\<close>



text \<open>
  The size in MiB is multiplied modulo \<open>2 ^ 64\<close>: the largest accepted numbers give the smallest
  capacities.
\<close>

lemma ram_capacity_wraps:
  "\<exists>opts. parse_options [''--data-dir'', ''/d'', ''--endpoint'', ''/e'', ''--ram-capacity-mib'', ''17592186044417'']
     = Inr opts \<and> cap_ram_bytes (opt_capacity opts) = 1048576"
proof -
  have "strto ''17592186044417'' = Some (False, 17592186044417, 14)"
    by (simp add: strto_def is_space_def is_digit_def digits_value_def digit_value_def)
  then have "stoull ''17592186044417'' = Inr 17592186044417"
    by (simp add: stoull_def)
  then show ?thesis
    by (simp add: parse_options_def parse_option_def bind_result_def check_options_def default_options_def kMiB_def
        has_configured_worker_def Let_def)
qed

end
