(* ===== verification/Kernel_Run.thy ===== *)
theory Kernel_Run
  imports Kernel_Guarantees Endpoint Options
begin

text \<open>
  The accept loop \<open>Kernel::run\<close> and the destructor of \<open>kernel/src/main.cpp\<close>, and what ties the
  loop to the transition system of theory \<open>Kernel_System\<close>: every connection it serves is at most
  one request of that system, taken through all its steps.
\<close>

section \<open>The loop\<close>

text \<open>
  One turn: whether a stop is asked for, what \<open>poll\<close> and \<open>accept4\<close> answer, and what happens on the
  accepted connection.
\<close>

record run_turn =
  turn_stop :: bool
  turn_poll :: poll_answer
  turn_accept :: accept_answer
  turn_connection :: connection_env

text \<open>
  \<open>StillServing\<close>: the loop waits, for a client or for the next byte of the client it serves.
\<close>

datatype run_end = RunStopped | RunThrew exn | StillServing

fun kernel_run :: "run_turn list \<Rightarrow> Kernel \<Rightarrow> run_end \<times> Kernel" where
  "kernel_run [] k = (StillServing, k)"
| "kernel_run (t # ts) k =
     (if turn_stop t then (RunStopped, k)
      else case accept_for (turn_poll t) (turn_accept t) of
        Inl e \<Rightarrow> (RunThrew e, k)
      | Inr fd \<Rightarrow>
          if fd < 0 then kernel_run ts k
          else (case serve_connection (turn_connection t) k of
                  ((sent, served), k1) \<Rightarrow> if served then kernel_run ts k1 else (StillServing, k1)))"

text \<open>
  The destructor, once the scheduler thread and the attempts are joined: the workers are ended.
\<close>

definition kernel_shutdown :: "(nat \<Rightarrow> int) \<Rightarrow> Kernel \<Rightarrow> Kernel" where
  "kernel_shutdown status k = k\<lparr>worker_pool := pool_shutdown status (worker_pool k)\<rparr>"

text \<open>
  \<open>main\<close>: the status of the process, what it prints and the Kernel it leaves behind, if it got that
  far; \<open>None\<close> while it runs. The Kernel is destroyed on both ways out of the loop. A signal, or
  on Windows one of four console events, sets the flag that the loop reads.
\<close>

definition kernel_main ::
    "string list \<Rightarrow> sqlite_fault \<Rightarrow> i64 \<Rightarrow> (nat \<Rightarrow> int) \<Rightarrow> run_turn list \<Rightarrow> Db \<Rightarrow> file_system \<Rightarrow>
     (int \<times> string) option \<times> Kernel option" where
  "kernel_main argv fault now killed turns db fs =
     (let failed = (\<lambda>e. Some (1, ''madre-kernel: '' @ what e @ [CHR 0x0A]))
      in case main_start argv fault now db fs of
           (Inl e, _) \<Rightarrow> (failed e, None)
         | (Inr k, _) \<Rightarrow>
             (case kernel_run turns k of
                (RunStopped, k1) \<Rightarrow> (Some (0, []), Some (kernel_shutdown killed k1))
              | (RunThrew e, k1) \<Rightarrow> (failed e, Some (kernel_shutdown killed k1))
              | (StillServing, k1) \<Rightarrow> (None, Some k1)))"

definition on_console_control :: "32 word \<Rightarrow> bool" where
  "on_console_control event \<longleftrightarrow> event = 0 \<or> event = 1 \<or> event = 2 \<or> event = 6"

section \<open>Connections are requests\<close>

text \<open>The state after a reply is the state before it or the one after what follows it.\<close>

lemma write_or_catch_state:
  "snd (write_or_catch env h out ws next k) = k \<or> (\<exists>sent. snd (write_or_catch env h out ws next k) = snd (next sent))"
proof (cases "write_frame out ws")
  case (Pair sent r)
  then show ?thesis
    by (cases r) (auto simp: write_or_catch_def split: prod.split)
qed

definition handled :: "request_env \<Rightarrow> Kernel \<Rightarrow> Kernel \<Rightarrow> bool" where
  "handled env k k' \<longleftrightarrow> k' = k \<or> (\<exists>f r. handle env f k = (r, k'))"

lemma serve_request_handles: "handled (con_request env) k (snd (serve_request env h reads sent k))"
proof (cases "read_frame reads")
  case (Pair a rest)
  show ?thesis
  proof (cases a)
    case (Return request)
    obtain r k1 where h: "handle (con_request env) request k = (r, k1)"
      by fastforce
    have "snd (serve_request env h reads sent k) = k1"
    proof (cases r)
      case (Inl e)
      then show ?thesis
        using Pair Return h by (simp add: serve_request_def split: prod.split)
    next
      case (Inr out)
      then show ?thesis
        using Pair Return h write_or_catch_state [of env h out "con_reply_writes env" "\<lambda>reply. ((sent @ reply, True), k1)" k1]
        by (auto simp: serve_request_def)
    qed
    with h show ?thesis by (auto simp: handled_def)
  qed (use Pair in \<open>simp_all add: serve_request_def handled_def split: prod.split\<close>)
qed

lemma serve_connection_handles: "handled (con_request env) k (snd (serve_connection env k))"
proof (cases "read_frame (con_reads env)")
  case (Pair a reads)
  show ?thesis
  proof (cases a)
    case (Return h)
    show ?thesis
    proof (cases "frame_type h = Hello")
      case False
      then show ?thesis
        using Pair Return write_or_catch_state [of env h _ _ "\<lambda>sent. ((sent, True), k)" k]
        by (auto simp: serve_connection_def handled_def)
    next
      case True
      show ?thesis
      proof (cases "hello h")
        case (Inl e)
        then show ?thesis
          using Pair Return True by (simp add: serve_connection_def handled_def)
      next
        case (Inr out)
        let ?next = "\<lambda>sent. if frame_type out = Error then ((sent, True), k) else serve_request env h reads sent k"
        have "handled (con_request env) k (snd (?next sent))" for sent
          using serve_request_handles [of env k h reads sent] by (simp add: handled_def)
        moreover have "handled (con_request env) k k"
          by (simp add: handled_def)
        ultimately have "handled (con_request env) k (snd (write_or_catch env h out (con_hello_writes env) ?next k))"
          using write_or_catch_state [of env h out "con_hello_writes env" ?next k]
          by (elim disjE exE) (simp_all only:)
        then show ?thesis
          using Pair Return True Inr by (simp add: serve_connection_def)
      qed
    qed
  qed (use Pair in \<open>simp_all add: serve_connection_def handled_def\<close>)
qed

lemma same_kernel [simp]: "s\<lparr>kernel := kernel s\<rparr> = (s :: System)"
  by simp

lemma handled_steps:
  assumes "handled env (kernel s) k" and "serving s = Waiting"
  shows "sys_step\<^sup>*\<^sup>* s (s\<lparr>kernel := k\<rparr>)"
  using assms(1) sys_request [OF _ assms(2)] unfolding handled_def by auto

section \<open>The loop is a run of the system\<close>

text \<open>Whatever the clients do, the accept loop takes the system through requests only.\<close>

lemma kernel_run_steps:
  "kernel_run ts (kernel s) = (res, k) \<Longrightarrow> serving s = Waiting \<Longrightarrow> sys_step\<^sup>*\<^sup>* s (s\<lparr>kernel := k\<rparr>)"
proof (induction ts arbitrary: s)
  case (Cons t ts)
  obtain sent served k1 where c: "serve_connection (turn_connection t) (kernel s) = ((sent, served), k1)"
    by (metis prod_cases3 prod.collapse)
  have first: "sys_step\<^sup>*\<^sup>* s (s\<lparr>kernel := k1\<rparr>)"
    using handled_steps serve_connection_handles [of "turn_connection t" "kernel s"] Cons.prems(2) by (simp add: c)
  have rest: "kernel_run ts k1 = (res, k) \<Longrightarrow> sys_step\<^sup>*\<^sup>* (s\<lparr>kernel := k1\<rparr>) (s\<lparr>kernel := k\<rparr>)"
    using Cons.IH [of "s\<lparr>kernel := k1\<rparr>"] Cons.prems(2) by simp
  consider "k = kernel s" | "kernel_run ts (kernel s) = (res, k)" | "kernel_run ts k1 = (res, k)" | "k = k1"
    using Cons.prems(1) c by (auto split: if_splits sum.splits)
  then show ?case
    using Cons.IH [of s] Cons.prems(2) first rest by cases (auto intro: rtranclp_trans)
qed auto

text \<open>What the way the loop ends says about its turns.\<close>

definition end_justified :: "run_turn list \<Rightarrow> run_end \<Rightarrow> bool" where
  "end_justified ts res \<longleftrightarrow>
     (case res of
        RunStopped \<Rightarrow> \<exists>t \<in> set ts. turn_stop t
      | RunThrew e \<Rightarrow> \<exists>t \<in> set ts. accept_for (turn_poll t) (turn_accept t) = Inl e
      | StillServing \<Rightarrow> (\<forall>t \<in> set ts. \<not> turn_stop t)
          \<or> (\<exists>t \<in> set ts. \<exists>k. \<not> snd (fst (serve_connection (turn_connection t) k))))"

lemma end_justified_Cons:
  "end_justified ts res \<Longrightarrow> \<not> turn_stop t \<Longrightarrow> end_justified (t # ts) res"
  by (auto simp: end_justified_def split: run_end.splits)

lemma kernel_run_end: "kernel_run ts k = (res, k') \<Longrightarrow> end_justified ts res"
proof (induction ts arbitrary: k)
  case (Cons t ts)
  obtain sent served k1 where c: "serve_connection (turn_connection t) k = ((sent, served), k1)"
    by (metis prod_cases3 prod.collapse)
  then have unserved: "end_justified (t # ts) StillServing" if "\<not> served"
    using that by (auto simp: end_justified_def intro!: exI [of _ k])
  have stopped: "end_justified (t # ts) RunStopped" if "turn_stop t"
    using that by (simp add: end_justified_def)
  have thrown: "end_justified (t # ts) (RunThrew e)" if "accept_for (turn_poll t) (turn_accept t) = Inl e" for e
    using that by (simp add: end_justified_def)
  show ?case
    using Cons c unserved stopped thrown end_justified_Cons [of ts res t] by (auto split: if_splits sum.splits)
qed (simp add: end_justified_def)

text \<open>
  A client that connects and sends nothing holds the loop: no later turn is taken, not even one
  that asks for a stop.
\<close>

lemma silent_client_blocks:
  assumes "\<not> turn_stop t" and "turn_poll t = PollReady" and "turn_accept t = Accepted fd" and "0 \<le> fd"
    and "con_reads (turn_connection t) = []"
  shows "kernel_run (t # ts) k = (StillServing, k)"
proof -
  have "read_frame [] = (Blocked, [])"
    by (simp add: read_frame_def read_exact_simps kHeaderSize_def)
  then show ?thesis
    using assms by (simp add: accept_for_def serve_connection_def)
qed

text \<open>
  The status is 0 exactly when a stop was seen; a process that has ended has no worker left, and
  says why when it failed.
\<close>

lemma kernel_main_ends:
  assumes "kernel_main argv fault now killed turns db fs = (Some (status, message), left)"
  shows "(status = 0 \<and> message = [] \<and> (\<exists>t \<in> set turns. turn_stop t) \<and> left \<noteq> None
         \<or> status = 1 \<and> (\<exists>e. message = ''madre-kernel: '' @ what e @ [CHR 0x0A]))
    \<and> (\<forall>k. left = Some k \<longrightarrow> workers (worker_pool k) = [])"
proof -
  have "\<exists>t \<in> set turns. turn_stop t" if "kernel_run turns k = (RunStopped, k1)" for k k1
    using kernel_run_end [OF that] by (simp add: end_justified_def)
  then show ?thesis
    using assms
    by (auto simp: kernel_main_def kernel_shutdown_def pool_shutdown_def Let_def
        split: prod.splits sum.splits run_end.splits)
qed

section \<open>Properties\<close>

text \<open>
  C25: The accept loop serves until it is told to stop: whatever the clients send, it takes a
  reachable state of the system to a reachable state, an error of a client never ends it, and it
  ends only because a stop was asked for or because \<open>poll\<close> or \<open>accept4\<close> failed; otherwise it waits
  for the next client, or for one that has not finished its request.
\<close>

theorem run_serves_until_stopped:
  assumes "sys_reachable dir s" and "serving s = Waiting" and "kernel_run ts (kernel s) = (res, k)"
  shows "sys_reachable dir (s\<lparr>kernel := k\<rparr>)
    \<and> (case res of
         RunStopped \<Rightarrow> \<exists>t \<in> set ts. turn_stop t
       | RunThrew e \<Rightarrow> \<exists>t \<in> set ts. accept_for (turn_poll t) (turn_accept t) = Inl e
       | StillServing \<Rightarrow> (\<forall>t \<in> set ts. \<not> turn_stop t)
           \<or> (\<exists>t \<in> set ts. \<exists>k. \<not> snd (fst (serve_connection (turn_connection t) k))))"
  using assms(1) kernel_run_steps [OF assms(3,2)] kernel_run_end [OF assms(3)]
  unfolding sys_reachable_def end_justified_def by (meson rtranclp_trans)

definition sample_turn :: run_turn where
  "sample_turn = \<lparr>turn_stop = False, turn_poll = PollReady, turn_accept = AcceptInterrupted,
     turn_connection = \<lparr>con_reads = [], con_hello_writes = [], con_reply_writes = [],
       con_error_writes = [], con_request = sample_request_env\<rparr>\<rparr>"

theorem run_serves_until_stopped_witness:
  "\<exists>s. sys_reachable ''/d'' s \<and> kernel_run [sample_turn, sample_turn\<lparr>turn_stop := True\<rparr>] (kernel s) = (RunStopped, kernel s)
     \<and> (\<exists>t \<in> {sample_turn, sample_turn\<lparr>turn_stop := True\<rparr>}. turn_stop t)"
proof -
  let ?s = "idle_system sample_done [(sample_task, Finished)]"
  have waiting: "serving ?s = Waiting"
    by (simp add: idle_system_def)
  have "kernel_run [sample_turn, sample_turn\<lparr>turn_stop := True\<rparr>] (kernel ?s) = (RunStopped, kernel ?s)"
    by (simp add: sample_turn_def accept_for_def)
  with run_serves_until_stopped [OF sample_done_reachable waiting this] sample_done_reachable show ?thesis
    by (intro exI [of _ ?s]) simp
qed

end
