(* ===== verification/Spawn.thy ===== *)
theory Spawn
  imports Workers "HOL-Library.AList"
begin

text \<open>
  The descriptors of a worker process: the constructor \<open>WorkerProcess\<close> of
  \<open>kernel/src/worker_runtime.cpp\<close> (POSIX branch) with the helpers it uses. Theory \<open>Workers\<close> takes
  the constructor as one call that succeeds or fails; here it is the sequence of its system calls
  on the descriptor table of the Kernel.

  A descriptor table maps each open descriptor to the object it refers to and its close-on-exec
  flag. A new descriptor is the lowest free one. The status flag \<open>O_NONBLOCK\<close> belongs to the
  object, as it is shared by all descriptors of an open pipe end.
\<close>

section \<open>Descriptors\<close>

datatype os_object = PipeReader nat | PipeWriter nat | OtherFile nat

type_synonym fd_table = "(nat \<times> os_object \<times> bool) list"

record child =
  child_pid :: int
  child_argv :: "string list"
  child_fds :: fd_table

record host =
  fds :: fd_table
  nonblocking :: "os_object list"
  pipes_made :: nat
  children :: "child list"

definition lowest_free :: "nat \<Rightarrow> fd_table \<Rightarrow> nat" where
  "lowest_free lo t = hd (filter (\<lambda>n. map_of t n = None) [lo..<lo + length t + 1])"

text \<open>
  Each system call that the code checks occurs at most once in a run of the constructor; the
  environment gives the error text of those that fail.
\<close>

datatype which_pipe = ParentToChild | ChildToParent

datatype spawn_call =
    PipeCall which_pipe | SetCloexec which_pipe nat | DupAbove which_pipe nat
  | ActionsInit | AddAction nat | SpawnCall | SetNonblock which_pipe

type_synonym spawn_env = "spawn_call \<Rightarrow> string option"

section \<open>Helpers\<close>

definition close_fd :: "nat \<Rightarrow> host \<Rightarrow> host" where
  "close_fd fd h = h\<lparr>fds := AList.delete fd (fds h)\<rparr>"

definition close_fds :: "nat list \<Rightarrow> host \<Rightarrow> host" where
  "close_fds = fold close_fd"

definition set_cloexec :: "spawn_env \<Rightarrow> which_pipe \<Rightarrow> nat \<Rightarrow> nat \<Rightarrow> host \<Rightarrow> unit result \<times> host" where
  "set_cloexec env p i fd h =
     (case (env (SetCloexec p i), map_of (fds h) fd) of
        (Some m, _) \<Rightarrow> (Inl (RuntimeError (''set worker pipe close-on-exec failed: '' @ m)), h)
      | (None, None) \<Rightarrow> (Inl (RuntimeError ''set worker pipe close-on-exec failed: Bad file descriptor''), h)
      | (None, Some (obj, _)) \<Rightarrow> (Inr (), h\<lparr>fds := AList.update fd (obj, True) (fds h)\<rparr>))"

text \<open>The result holds the value of the reference parameter \<open>fd\<close> after the call.\<close>

definition normalize_pipe_fd :: "spawn_env \<Rightarrow> which_pipe \<Rightarrow> nat \<Rightarrow> nat \<Rightarrow> host \<Rightarrow> unit result \<times> nat \<times> host" where
  "normalize_pipe_fd env p i fd h =
     (if fd > 2 then (case set_cloexec env p i fd h of (r, h1) \<Rightarrow> (r, fd, h1))
      else case (env (DupAbove p i), map_of (fds h) fd) of
        (Some m, _) \<Rightarrow> (Inl (RuntimeError (''move worker pipe above standard descriptors failed: '' @ m)), fd, h)
      | (None, None) \<Rightarrow>
          (Inl (RuntimeError ''move worker pipe above standard descriptors failed: Bad file descriptor''), fd, h)
      | (None, Some (obj, _)) \<Rightarrow>
          (let duplicate = lowest_free 3 (fds h)
           in (Inr (), duplicate, close_fd fd (h\<lparr>fds := AList.update duplicate (obj, True) (fds h)\<rparr>))))"

definition set_nonblocking :: "spawn_env \<Rightarrow> which_pipe \<Rightarrow> nat \<Rightarrow> host \<Rightarrow> unit result \<times> host" where
  "set_nonblocking env p fd h =
     (case (env (SetNonblock p), map_of (fds h) fd) of
        (Some m, _) \<Rightarrow> (Inl (RuntimeError (''set worker pipe nonblocking failed: '' @ m)), h)
      | (None, None) \<Rightarrow> (Inl (RuntimeError ''set worker pipe nonblocking failed: Bad file descriptor''), h)
      | (None, Some (obj, _)) \<Rightarrow> (Inr (), h\<lparr>nonblocking := List.insert obj (nonblocking h)\<rparr>))"

text \<open>After an exception both elements of the array are \<open>- 1\<close>.\<close>

definition make_cloexec_pipe :: "spawn_env \<Rightarrow> which_pipe \<Rightarrow> host \<Rightarrow> (nat \<times> nat) result \<times> host" where
  "make_cloexec_pipe env p h =
     (case env (PipeCall p) of
        Some m \<Rightarrow> (Inl (RuntimeError (''create worker pipe failed: '' @ m)), h)
      | None \<Rightarrow>
          (let n = pipes_made h;
               a = lowest_free 0 (fds h);
               t = AList.update a (PipeReader n, False) (fds h);
               b = lowest_free 0 t;
               h1 = h\<lparr>fds := AList.update b (PipeWriter n, False) t, pipes_made := Suc n\<rparr>
           in case normalize_pipe_fd env p 0 a h1 of
                (Inl e, a1, h2) \<Rightarrow> (Inl e, close_fds [a1, b] h2)
              | (Inr _, a1, h2) \<Rightarrow>
                  (case normalize_pipe_fd env p 1 b h2 of
                     (Inl e, b1, h3) \<Rightarrow> (Inl e, close_fds [a1, b1] h3)
                   | (Inr _, b1, h3) \<Rightarrow> (Inr (a1, b1), h3))))"

section \<open>posix_spawn\<close>

text \<open>The child starts with a copy of the table, performs the actions and drops the descriptors
  that are closed on exec.\<close>

datatype spawn_action = Dup2 nat nat | CloseAction nat

primrec child_action :: "spawn_action \<Rightarrow> fd_table \<Rightarrow> fd_table option" where
  "child_action (Dup2 a b) t =
     (case map_of t a of None \<Rightarrow> None | Some (obj, _) \<Rightarrow> Some (AList.update b (obj, False) t))"
| "child_action (CloseAction a) t = Some (AList.delete a t)"

primrec child_actions :: "spawn_action list \<Rightarrow> fd_table \<Rightarrow> fd_table option" where
  "child_actions [] t = Some t"
| "child_actions (x # xs) t = Option.bind (child_action x t) (child_actions xs)"

definition survives_exec :: "fd_table \<Rightarrow> nat \<Rightarrow> bool" where
  "survives_exec t fd = (case map_of t fd of None \<Rightarrow> False | Some (_, cloexec) \<Rightarrow> \<not> cloexec)"

definition exec_table :: "fd_table \<Rightarrow> fd_table" where
  "exec_table t = filter (\<lambda>(fd, _). survives_exec t fd) t"

definition posix_spawn ::
    "spawn_env \<Rightarrow> int \<Rightarrow> spawn_action list \<Rightarrow> string list \<Rightarrow> host \<Rightarrow> (string + int) \<times> host" where
  "posix_spawn env new_pid actions argv h =
     (case (env SpawnCall, child_actions actions (fds h)) of
        (Some m, _) \<Rightarrow> (Inl m, h)
      | (None, None) \<Rightarrow> (Inl ''Bad file descriptor'', h)
      | (None, Some t) \<Rightarrow>
          (Inr new_pid, h\<lparr>children := \<lparr>child_pid = new_pid, child_argv = argv, child_fds = exec_table t\<rparr> # children h\<rparr>))"

section \<open>The constructor\<close>

record spawned =
  spawned_pid :: int
  input_fd :: nat
  output_fd :: nat

definition action_texts :: "string list" where
  "action_texts = [''configure worker stdin'', ''configure worker stdout'', ''close worker inherited stdin pipe'',
     ''close worker inherited parent input pipe'', ''close worker inherited parent output pipe'',
     ''close worker inherited stdout pipe'']"

fun add_actions :: "spawn_env \<Rightarrow> nat \<Rightarrow> string list \<Rightarrow> unit result" where
  "add_actions env i [] = Inr ()"
| "add_actions env i (text # texts) =
     (case env (AddAction i) of
        Some m \<Rightarrow> Inl (RuntimeError (text @ '': '' @ m))
      | None \<Rightarrow> add_actions env (Suc i) texts)"

definition spawn_terminate :: "spawned \<Rightarrow> host \<Rightarrow> host" where
  "spawn_terminate w h =
     close_fds [input_fd w, output_fd w] (h\<lparr>children := filter (\<lambda>c. child_pid c \<noteq> spawned_pid w) (children h)\<rparr>)"

text \<open>After the spawn: the child's ends are closed, the Kernel's ends become nonblocking.\<close>

definition own_pipes :: "spawn_env \<Rightarrow> int \<Rightarrow> nat \<times> nat \<Rightarrow> nat \<times> nat \<Rightarrow> host \<Rightarrow> spawned result \<times> host" where
  "own_pipes env child ptc ctp h =
     (let w = \<lparr>spawned_pid = child, input_fd = snd ptc, output_fd = fst ctp\<rparr>;
          h1 = close_fds [fst ptc, snd ctp] h
      in case set_nonblocking env ParentToChild (input_fd w) h1 of
           (Inl e, h2) \<Rightarrow> (Inl e, spawn_terminate w h2)
         | (Inr _, h2) \<Rightarrow>
             (case set_nonblocking env ChildToParent (output_fd w) h2 of
                (Inl e, h3) \<Rightarrow> (Inl e, spawn_terminate w h3)
              | (Inr _, h3) \<Rightarrow> (Inr w, h3)))"

definition spawn_worker :: "spawn_env \<Rightarrow> int \<Rightarrow> nat \<times> nat \<Rightarrow> nat \<times> nat \<Rightarrow> WorkerLaunchSpec \<Rightarrow> host \<Rightarrow> spawned result \<times> host" where
  "spawn_worker env new_pid ptc ctp launch h =
     (let closed = close_fds [fst ptc, snd ptc, fst ctp, snd ctp]
      in case env ActionsInit of
           Some m \<Rightarrow> (Inl (RuntimeError (''initialize worker spawn actions failed: '' @ m)), closed h)
         | None \<Rightarrow>
             (case add_actions env 0 action_texts of
                Inl e \<Rightarrow> (Inl e, closed h)
              | Inr _ \<Rightarrow>
                  (case posix_spawn env new_pid
                          [Dup2 (fst ptc) 0, Dup2 (snd ctp) 1, CloseAction (fst ptc), CloseAction (snd ptc),
                           CloseAction (fst ctp), CloseAction (snd ctp)]
                          (executable launch # arguments launch) h of
                     (Inl m, h1) \<Rightarrow> (Inl (RuntimeError (''spawn worker failed: '' @ m)), closed h1)
                   | (Inr child, h1) \<Rightarrow> own_pipes env child ptc ctp h1)))"

definition construct_worker :: "spawn_env \<Rightarrow> int \<Rightarrow> WorkerLaunchSpec \<Rightarrow> host \<Rightarrow> spawned result \<times> host" where
  "construct_worker env new_pid launch h =
     (case make_cloexec_pipe env ParentToChild h of
        (Inl e, h1) \<Rightarrow> (Inl e, h1)
      | (Inr ptc, h1) \<Rightarrow>
          (case make_cloexec_pipe env ChildToParent h1 of
             (Inl e, h2) \<Rightarrow> (Inl e, close_fds [fst ptc, snd ptc] h2)
           | (Inr ctp, h2) \<Rightarrow> spawn_worker env new_pid ptc ctp launch h2))"

section \<open>Lemmas\<close>

lemma lowest_free_free: "lo \<le> lowest_free lo t \<and> map_of t (lowest_free lo t) = None"
proof -
  let ?range = "[lo..<lo + length t + 1]"
  let ?free = "filter (\<lambda>n. map_of t n = None) ?range"
  have "?free \<noteq> []"
  proof
    assume "?free = []"
    then have "set ?range \<subseteq> fst ` set t"
      by (auto simp: filter_empty_conv map_of_eq_None_iff simp del: upt_Suc)
    then have "card (set ?range) \<le> card (fst ` set t)"
      by (rule card_mono [OF finite_imageI [OF finite_set]])
    also have "\<dots> \<le> length t"
      by (metis card_length length_map set_map)
    finally show False by simp
  qed
  then have "hd ?free \<in> set ?free"
    by (rule hd_in_set)
  then show ?thesis
    by (simp add: lowest_free_def del: upt_Suc)
qed

lemmas lowest_free_lo = lowest_free_free [THEN conjunct1]
lemmas lowest_free_None [simp] = lowest_free_free [THEN conjunct2]

lemma close_fds_simps [simp]:
  "close_fds [] h = h" "close_fds (fd # rest) h = close_fds rest (close_fd fd h)"
  by (simp_all add: close_fds_def)

lemma close_fd_fds [simp]: "map_of (fds (close_fd fd h)) = (map_of (fds h))(fd := None)"
  by (simp add: close_fd_def delete_conv')

lemma close_fd_other [simp]:
  "nonblocking (close_fd fd h) = nonblocking h" "pipes_made (close_fd fd h) = pipes_made h"
  "children (close_fd fd h) = children h"
  by (simp_all add: close_fd_def)

text \<open>What a call leaves of the rest of the state.\<close>

definition same_rest :: "host \<Rightarrow> host \<Rightarrow> bool" where
  "same_rest h h' \<longleftrightarrow> nonblocking h' = nonblocking h \<and> children h' = children h"

lemma normalize_pipe_fd_spec:
  assumes "map_of (fds h) fd = Some (obj, c)" and "normalize_pipe_fd env p i fd h = (r, fd', h')"
  shows "same_rest h h' \<and> pipes_made h' = pipes_made h \<and>
    (case r of
       Inl e \<Rightarrow> fd' = fd \<and> h' = h
     | Inr _ \<Rightarrow> 2 < fd' \<and> (fd' = fd \<or> map_of (fds h) fd' = None)
         \<and> map_of (fds h') = (map_of (fds h))(fd := None, fd' \<mapsto> (obj, True)))"
proof (cases "fd > 2")
  case True
  then show ?thesis
    using assms by (auto simp: normalize_pipe_fd_def set_cloexec_def same_rest_def update_conv' fun_eq_iff
        split: option.splits prod.splits)
next
  case False
  then show ?thesis
    using assms lowest_free_lo [of 3 "fds h"]
    by (auto simp: normalize_pipe_fd_def same_rest_def update_conv' fun_eq_iff Let_def split: option.splits prod.splits)
qed

lemma make_cloexec_pipe_spec:
  assumes "make_cloexec_pipe env p h = (r, h')"
  shows "same_rest h h' \<and>
    (case r of
       Inl e \<Rightarrow> map_of (fds h') = map_of (fds h)
     | Inr (a, b) \<Rightarrow> 2 < a \<and> 2 < b \<and> a \<noteq> b \<and> map_of (fds h) a = None \<and> map_of (fds h) b = None
         \<and> pipes_made h' = Suc (pipes_made h)
         \<and> map_of (fds h') = (map_of (fds h))(a \<mapsto> (PipeReader (pipes_made h), True), b \<mapsto> (PipeWriter (pipes_made h), True)))"
proof (cases "env (PipeCall p)")
  case (Some m)
  then show ?thesis
    using assms by (auto simp: make_cloexec_pipe_def same_rest_def)
next
  case None
  define n where "n = pipes_made h"
  define a where "a = lowest_free 0 (fds h)"
  define t where "t = AList.update a (PipeReader n, False) (fds h)"
  define b where "b = lowest_free 0 t"
  define h1 where "h1 = h\<lparr>fds := AList.update b (PipeWriter n, False) t, pipes_made := Suc n\<rparr>"
  have a: "map_of (fds h) a = None"
    by (simp add: a_def)
  have "map_of t b = None"
    by (simp add: b_def)
  then have b: "map_of (fds h) b = None" "b \<noteq> a"
    by (auto simp: t_def update_conv' split: if_splits)
  have t1: "map_of (fds h1) = (map_of (fds h))(a \<mapsto> (PipeReader n, False), b \<mapsto> (PipeWriter n, False))"
    by (simp add: h1_def t_def update_conv')
  have rest1: "same_rest h h1"
    by (simp add: same_rest_def h1_def)
  obtain r1 a1 h2 where n1: "normalize_pipe_fd env p 0 a h1 = (r1, a1, h2)"
    by (metis prod_cases3)
  have "map_of (fds h1) a = Some (PipeReader n, False)"
    using b by (simp add: t1)
  note s1 = normalize_pipe_fd_spec [OF this n1]
  note run = assms [unfolded make_cloexec_pipe_def None option.case Let_def,
      folded n_def, folded a_def, folded t_def, folded b_def, folded h1_def, unfolded n1]
  show ?thesis
  proof (cases r1)
    case (Inl e)
    then show ?thesis
      using run s1 rest1 a b by (auto simp: t1 same_rest_def fun_eq_iff)
  next
    case (Inr u)
    obtain r2 b1 h3 where n2: "normalize_pipe_fd env p 1 b h2 = (r2, b1, h3)"
      by (metis prod_cases3)
    have a1: "2 < a1" "a1 = a \<or> map_of (fds h1) a1 = None" "same_rest h1 h2" "pipes_made h2 = pipes_made h1"
      "map_of (fds h2) = (map_of (fds h1))(a := None, a1 \<mapsto> (PipeReader n, True))"
      using s1 Inr by auto
    then have ab: "a1 \<noteq> b"
      using b by (auto simp: t1)
    then have "map_of (fds h2) b = Some (PipeWriter n, False)"
      using a1 b by (simp add: t1)
    note s2 = normalize_pipe_fd_spec [OF this n2]
    show ?thesis
    proof (cases r2)
      case (Inl e)
      then have "r = Inl e" "h' = close_fds [a1, b] h2"
        using run s2 n2 \<open>r1 = Inr u\<close> by auto
      then show ?thesis
        using a1 a b ab rest1 by (auto simp: t1 same_rest_def fun_eq_iff)
    next
      case (Inr u')
      then have "r = Inr (a1, b1)" "h' = h3"
        using run n2 \<open>r1 = Inr u\<close> by auto
      moreover have b1: "2 < b1" "b1 = b \<or> map_of (fds h2) b1 = None" "same_rest h2 h3" "pipes_made h3 = pipes_made h2"
        "map_of (fds h3) = (map_of (fds h2))(b := None, b1 \<mapsto> (PipeWriter n, True))"
        using s2 Inr by auto
      moreover have "same_rest h h3" "pipes_made h3 = Suc n"
        using b1(3,4) a1(3,4) rest1 by (simp_all add: same_rest_def h1_def)
      moreover have free: "map_of (fds h) a1 = None" "a1 \<noteq> b1"
        using a1 b1 a ab by (auto simp: t1 split: if_splits)
      moreover have "map_of (fds h) b1 = None"
        using a1(5) b1(2) free(2) a b by (auto simp: t1 split: if_splits)
      moreover have "map_of (fds h3) = (map_of (fds h))(a1 \<mapsto> (PipeReader n, True), b1 \<mapsto> (PipeWriter n, True))"
        unfolding b1(5) a1(5) t1 using a b ab free(2) by (intro ext) simp
      ultimately show ?thesis
        using a1(1) by (simp add: n_def)
    qed
  qed
qed

text \<open>The two pipes of a new worker, before it is started.\<close>

definition two_pipes :: "host \<Rightarrow> nat \<times> nat \<Rightarrow> nat \<times> nat \<Rightarrow> host \<Rightarrow> bool" where
  "two_pipes h ptc ctp h' \<longleftrightarrow> same_rest h h'
     \<and> distinct [fst ptc, snd ptc, fst ctp, snd ctp]
     \<and> (\<forall>fd \<in> {fst ptc, snd ptc, fst ctp, snd ctp}. 2 < fd \<and> map_of (fds h) fd = None)
     \<and> map_of (fds h') = (map_of (fds h))
          (fst ptc \<mapsto> (PipeReader (pipes_made h), True), snd ptc \<mapsto> (PipeWriter (pipes_made h), True),
           fst ctp \<mapsto> (PipeReader (Suc (pipes_made h)), True), snd ctp \<mapsto> (PipeWriter (Suc (pipes_made h)), True))"

lemma two_pipes_closed:
  "two_pipes h ptc ctp h' \<Longrightarrow> map_of (fds (close_fds [fst ptc, snd ptc, fst ctp, snd ctp] h')) = map_of (fds h)"
  by (auto simp: two_pipes_def fun_eq_iff)

lemma two_pipes_own:
  "two_pipes h ptc ctp h' \<Longrightarrow> map_of (fds (close_fds [fst ptc, snd ctp] h')) = (map_of (fds h))
     (snd ptc \<mapsto> (PipeWriter (pipes_made h), True), fst ctp \<mapsto> (PipeReader (Suc (pipes_made h)), True))"
  by (auto simp: two_pipes_def fun_eq_iff)

text \<open>The table of the child: its standard input and output, and what the Kernel leaves open to it.\<close>

definition inherited :: "host \<Rightarrow> nat \<Rightarrow> (os_object \<times> bool) option" where
  "inherited h fd =
     (if fd = 0 then Some (PipeReader (pipes_made h), False)
      else if fd = 1 then Some (PipeWriter (Suc (pipes_made h)), False)
      else case map_of (fds h) fd of Some (obj, False) \<Rightarrow> Some (obj, False) | _ \<Rightarrow> None)"

lemma two_pipes_child:
  assumes "two_pipes h ptc ctp h'"
  shows "\<exists>t. child_actions [Dup2 (fst ptc) 0, Dup2 (snd ctp) 1, CloseAction (fst ptc), CloseAction (snd ptc),
            CloseAction (fst ctp), CloseAction (snd ctp)] (fds h') = Some t
    \<and> map_of (exec_table t) = inherited h"
proof -
  let ?a = "fst ptc" and ?b = "snd ptc" and ?c = "fst ctp" and ?d = "snd ctp"
  let ?n = "pipes_made h"
  have far: "2 < ?a" "2 < ?b" "2 < ?c" "2 < ?d" "distinct [?a, ?b, ?c, ?d]"
    and free: "map_of (fds h) ?a = None" "map_of (fds h) ?b = None" "map_of (fds h) ?c = None" "map_of (fds h) ?d = None"
    and table: "map_of (fds h') = (map_of (fds h))(?a \<mapsto> (PipeReader ?n, True), ?b \<mapsto> (PipeWriter ?n, True),
      ?c \<mapsto> (PipeReader (Suc ?n), True), ?d \<mapsto> (PipeWriter (Suc ?n), True))"
    using assms by (simp_all add: two_pipes_def)
  then have apart: "?a \<noteq> 0" "?b \<noteq> 0" "?c \<noteq> 0" "?d \<noteq> 0" "?a \<noteq> 1" "?b \<noteq> 1" "?c \<noteq> 1" "?d \<noteq> 1"
    "?a \<noteq> ?b" "?a \<noteq> ?c" "?a \<noteq> ?d" "?b \<noteq> ?c" "?b \<noteq> ?d" "?c \<noteq> ?d"
    by auto
  let ?t1 = "AList.update 0 (PipeReader ?n, False) (fds h')"
  let ?t2 = "AList.update 1 (PipeWriter (Suc ?n), False) ?t1"
  let ?t = "AList.delete ?d (AList.delete ?c (AList.delete ?b (AList.delete ?a ?t2)))"
  have "child_action (Dup2 ?a 0) (fds h') = Some ?t1"
    using far by (simp add: table)
  moreover have "child_action (Dup2 ?d 1) ?t1 = Some ?t2"
    using far by (simp add: table update_conv')
  ultimately have run: "child_actions [Dup2 ?a 0, Dup2 ?d 1, CloseAction ?a, CloseAction ?b, CloseAction ?c, CloseAction ?d]
      (fds h') = Some ?t"
    by simp
  have t: "map_of ?t fd = (if fd = 0 then Some (PipeReader ?n, False) else if fd = 1 then Some (PipeWriter (Suc ?n), False)
      else map_of (fds h) fd)" for fd
  proof -
    have updates: "map_of ?t = (map_of (fds h'))(0 \<mapsto> (PipeReader ?n, False), 1 \<mapsto> (PipeWriter (Suc ?n), False),
        ?a := None, ?b := None, ?c := None, ?d := None)"
      by (simp only: delete_conv' update_conv')
    consider "fd = ?a" | "fd = ?b" | "fd = ?c" | "fd = ?d" | "fd \<noteq> ?a" "fd \<noteq> ?b" "fd \<noteq> ?c" "fd \<noteq> ?d"
      by blast
    then show ?thesis
    proof cases
      case 5
      then show ?thesis
        by (simp only: updates table fun_upd_apply if_False) auto
    qed (simp_all only: updates fun_upd_apply apart free if_True if_False simp_thms)
  qed
  have "map_of (exec_table ?t) = inherited h"
    by (rule ext)
       (simp only: exec_table_def map_of_filter_key survives_exec_def t inherited_def, simp split: option.split bool.split)
  with run show ?thesis by blast
qed

lemma set_nonblocking_spec:
  assumes "set_nonblocking env p fd h = (r, h')" and "map_of (fds h) fd = Some (obj, c)"
  shows "fds h' = fds h \<and> children h' = children h
    \<and> (r = Inr () \<longrightarrow> set (nonblocking h') = insert obj (set (nonblocking h)))"
  using assms by (auto simp: set_nonblocking_def split: option.splits)

text \<open>What the constructor ensures when the child has the given table.\<close>

definition worker_started :: "host \<Rightarrow> int \<Rightarrow> child \<Rightarrow> spawned \<Rightarrow> host \<Rightarrow> bool" where
  "worker_started h new_pid c w h' \<longleftrightarrow>
     spawned_pid w = new_pid \<and> children h' = c # children h
     \<and> map_of (fds h') = (map_of (fds h))
          (input_fd w \<mapsto> (PipeWriter (pipes_made h), True), output_fd w \<mapsto> (PipeReader (Suc (pipes_made h)), True))
     \<and> set (nonblocking h') = {PipeWriter (pipes_made h), PipeReader (Suc (pipes_made h))} \<union> set (nonblocking h)"

lemma own_pipes_spec:
  assumes pipes: "two_pipes h ptc ctp h1"
    and pid: "child_pid c = new_pid" "new_pid \<notin> child_pid ` set (children h)"
    and run: "own_pipes env new_pid ptc ctp (h1\<lparr>children := c # children h1\<rparr>) = (r, h')"
  shows "case r of
      Inl e \<Rightarrow> map_of (fds h') = map_of (fds h) \<and> children h' = children h
    | Inr w \<Rightarrow> input_fd w = snd ptc \<and> output_fd w = fst ctp \<and> worker_started h new_pid c w h'"
proof -
  let ?w = "\<lparr>spawned_pid = new_pid, input_fd = snd ptc, output_fd = fst ctp\<rparr>"
  define h2 where "h2 = close_fds [fst ptc, snd ctp] (h1\<lparr>children := c # children h1\<rparr>)"
  have rest: "nonblocking h2 = nonblocking h" "children h2 = c # children h"
    using pipes by (simp_all add: two_pipes_def same_rest_def h2_def)
  have table: "map_of (fds h2) = (map_of (fds h))
     (snd ptc \<mapsto> (PipeWriter (pipes_made h), True), fst ctp \<mapsto> (PipeReader (Suc (pipes_made h)), True))"
    using two_pipes_own [OF pipes] by (simp add: h2_def)
  have ends: "snd ptc \<noteq> fst ctp" "map_of (fds h) (snd ptc) = None" "map_of (fds h) (fst ctp) = None"
    using pipes by (auto simp: two_pipes_def)
  have gone: "map_of (fds (spawn_terminate ?w g)) = map_of (fds h) \<and> children (spawn_terminate ?w g) = children h"
    if "fds g = fds h2" "children g = children h2" for g
  proof -
    have "filter (\<lambda>x. child_pid x \<noteq> new_pid) (children g) = children h"
      using that(2) pid rest by (auto simp: filter_id_conv) (metis imageI)
    moreover have "map_of (fds (spawn_terminate ?w g)) = (map_of (fds h2))(snd ptc := None, fst ctp := None)"
      using that(1) by (simp add: spawn_terminate_def)
    moreover have "\<dots> = map_of (fds h)"
      unfolding table using ends by auto
    ultimately show ?thesis
      by (simp add: spawn_terminate_def)
  qed
  obtain r1 h3 where n1: "set_nonblocking env ParentToChild (snd ptc) h2 = (r1, h3)"
    by fastforce
  have s1: "fds h3 = fds h2" "children h3 = children h2"
    "r1 = Inr () \<Longrightarrow> set (nonblocking h3) = insert (PipeWriter (pipes_made h)) (set (nonblocking h2))"
    using set_nonblocking_spec [OF n1, of "PipeWriter (pipes_made h)" True] ends by (auto simp: table)
  obtain r2 h4 where n2: "set_nonblocking env ChildToParent (fst ctp) h3 = (r2, h4)"
    by fastforce
  have s2: "fds h4 = fds h2" "children h4 = children h2"
    "r2 = Inr () \<Longrightarrow> set (nonblocking h4) = insert (PipeReader (Suc (pipes_made h))) (set (nonblocking h3))"
    using set_nonblocking_spec [OF n2, of "PipeReader (Suc (pipes_made h))" True] s1 by (auto simp: table)
  have steps: "own_pipes env new_pid ptc ctp (h1\<lparr>children := c # children h1\<rparr>) =
      (case (r1, h3) of
         (Inl e, g) \<Rightarrow> (Inl e, spawn_terminate ?w g)
       | (Inr _, g) \<Rightarrow> (case (r2, h4) of (Inl e, g') \<Rightarrow> (Inl e, spawn_terminate ?w g') | (Inr _, g') \<Rightarrow> (Inr ?w, g')))"
    using n1 n2 unfolding own_pipes_def Let_def h2_def by (cases r1; cases r2) simp_all
  show ?thesis
  proof (cases r1; cases r2)
    fix u u' assume "r1 = Inr u" "r2 = Inr u'"
    then have "r = Inr ?w" "h' = h4"
      using run steps by simp_all
    then show ?thesis
      using s1 s2 rest \<open>r1 = Inr u\<close> \<open>r2 = Inr u'\<close> by (simp add: worker_started_def table insert_commute)
  qed (use run steps gone [OF s1(1,2)] gone [OF s2(1,2)] in auto)
qed

lemma spawn_worker_spec:
  assumes pipes: "two_pipes h ptc ctp h1"
    and pid: "new_pid \<notin> child_pid ` set (children h)"
    and run: "spawn_worker env new_pid ptc ctp launch h1 = (r, h')"
  shows "case r of
      Inl e \<Rightarrow> map_of (fds h') = map_of (fds h) \<and> children h' = children h
    | Inr w \<Rightarrow> input_fd w = snd ptc \<and> output_fd w = fst ctp
        \<and> (\<exists>c. child_pid c = new_pid \<and> child_argv c = executable launch # arguments launch
             \<and> map_of (child_fds c) = inherited h \<and> worker_started h new_pid c w h')"
proof -
  let ?closed = "close_fds [fst ptc, snd ptc, fst ctp, snd ctp]"
  have closed: "map_of (fds (?closed h1)) = map_of (fds h) \<and> children (?closed h1) = children h"
    using two_pipes_closed [OF pipes] pipes by (simp add: two_pipes_def same_rest_def)
  obtain t where t: "child_actions [Dup2 (fst ptc) 0, Dup2 (snd ctp) 1, CloseAction (fst ptc), CloseAction (snd ptc),
      CloseAction (fst ctp), CloseAction (snd ctp)] (fds h1) = Some t" "map_of (exec_table t) = inherited h"
    using two_pipes_child [OF pipes] by blast
  let ?c = "\<lparr>child_pid = new_pid, child_argv = executable launch # arguments launch, child_fds = exec_table t\<rparr>"
  consider (failed) e where "r = Inl e" "h' = ?closed h1"
    | (ran) "own_pipes env new_pid ptc ctp (h1\<lparr>children := ?c # children h1\<rparr>) = (r, h')"
    using run t(1) by (auto simp: spawn_worker_def posix_spawn_def Let_def simp del: child_actions.simps close_fds_simps
        split: option.splits sum.splits)
  then show ?thesis
  proof cases
    case failed
    with closed show ?thesis by simp
  next
    case ran
    show ?thesis
      using own_pipes_spec [OF pipes _ pid ran] t(2) by (cases r) (auto intro!: exI [of _ ?c])
  qed
qed

lemma make_two_pipes:
  assumes "make_cloexec_pipe env ParentToChild h = (Inr ptc, h1)" and "make_cloexec_pipe env ChildToParent h1 = (Inr ctp, h2)"
  shows "two_pipes h ptc ctp h2"
  using make_cloexec_pipe_spec [OF assms(1)] make_cloexec_pipe_spec [OF assms(2)]
  by (auto simp: two_pipes_def same_rest_def split: prod.splits if_splits)

section \<open>Properties\<close>

text \<open>
  C21: Starting a worker neither leaks nor lends descriptors. When any of its system calls fails,
  the Kernel has the descriptors and the children it had. When it succeeds, the Kernel has
  exactly two more, the writing end of one new pipe and the reading end of another, above the
  standard descriptors, closed on exec and nonblocking; and the worker runs with its arguments,
  the other two ends as its standard input and output, and otherwise only what the Kernel did not
  mark as closed on exec, so no worker holds an end of another worker's pipes. The operating
  system gives the child an identity that no other child has.
\<close>

theorem spawn_keeps_descriptors_apart:
  assumes "new_pid \<notin> child_pid ` set (children h)"
  shows "case construct_worker env new_pid launch h of
      (Inl e, h') \<Rightarrow> map_of (fds h') = map_of (fds h) \<and> children h' = children h
    | (Inr w, h') \<Rightarrow>
        2 < input_fd w \<and> 2 < output_fd w \<and> input_fd w \<noteq> output_fd w
        \<and> map_of (fds h) (input_fd w) = None \<and> map_of (fds h) (output_fd w) = None
        \<and> map_of (fds h') = (map_of (fds h))
             (input_fd w \<mapsto> (PipeWriter (pipes_made h), True), output_fd w \<mapsto> (PipeReader (Suc (pipes_made h)), True))
        \<and> set (nonblocking h') = {PipeWriter (pipes_made h), PipeReader (Suc (pipes_made h))} \<union> set (nonblocking h)
        \<and> (\<exists>c. children h' = c # children h \<and> child_pid c = new_pid \<and> spawned_pid w = new_pid
             \<and> child_argv c = executable launch # arguments launch
             \<and> (\<forall>fd. map_of (child_fds c) fd =
                  (if fd = 0 then Some (PipeReader (pipes_made h), False)
                   else if fd = 1 then Some (PipeWriter (Suc (pipes_made h)), False)
                   else case map_of (fds h) fd of Some (obj, False) \<Rightarrow> Some (obj, False) | _ \<Rightarrow> None)))"
proof -
  obtain r h' where run: "construct_worker env new_pid launch h = (r, h')"
    by fastforce
  obtain r1 h1 where p1: "make_cloexec_pipe env ParentToChild h = (r1, h1)"
    by fastforce
  note s1 = make_cloexec_pipe_spec [OF p1]
  obtain r2 h2 where p2: "make_cloexec_pipe env ChildToParent h1 = (r2, h2)"
    by fastforce
  note s2 = make_cloexec_pipe_spec [OF p2]
  consider (first) e where "r = Inl e" "r1 = Inl e" "h' = h1"
    | (second) e ptc where "r = Inl e" "r1 = Inr ptc" "r2 = Inl e" "h' = close_fds [fst ptc, snd ptc] h2"
    | (both) ptc ctp where "r1 = Inr ptc" "r2 = Inr ctp" "spawn_worker env new_pid ptc ctp launch h2 = (r, h')"
    using run p1 p2 by (auto simp: construct_worker_def simp del: close_fds_simps split: sum.splits)
  then show ?thesis
  proof cases
    case first
    then show ?thesis
      using run s1 by (simp add: same_rest_def)
  next
    case second
    then show ?thesis
      using run s1 s2 by (auto simp: same_rest_def split: prod.splits)
  next
    case both
    have pipes: "two_pipes h ptc ctp h2"
      using make_two_pipes p1 p2 both by blast
    then have ends: "2 < snd ptc" "2 < fst ctp" "snd ptc \<noteq> fst ctp" "map_of (fds h) (snd ptc) = None" "map_of (fds h) (fst ctp) = None"
      by (auto simp: two_pipes_def)
    show ?thesis
    proof (cases r)
      case (Inl e)
      then show ?thesis
        using run spawn_worker_spec [OF pipes assms both(3)] by simp
    next
      case (Inr w)
      then obtain c where "input_fd w = snd ptc" "output_fd w = fst ctp" "child_pid c = new_pid"
        "child_argv c = executable launch # arguments launch" "map_of (child_fds c) = inherited h" "worker_started h new_pid c w h'"
        using spawn_worker_spec [OF pipes assms both(3)] by auto
      then show ?thesis
        using run Inr ends by (simp add: worker_started_def inherited_def)
    qed
  qed
qed

text \<open>A Kernel without a standard input: the pipe takes descriptor 0 and is moved above 2.\<close>

definition sample_host :: host where
  "sample_host = \<lparr>fds = [(1, OtherFile 1, False), (2, OtherFile 2, False), (3, OtherFile 3, True)],
     nonblocking = [], pipes_made = 0, children = []\<rparr>"

theorem spawn_keeps_descriptors_apart_witness:
  "\<exists>w h' c. construct_worker (\<lambda>_. None) 7 \<lparr>executable = ''/w'', arguments = [''-x'']\<rparr> sample_host = (Inr w, h')
     \<and> 2 < input_fd w \<and> children h' = [c] \<and> child_argv c = [''/w'', ''-x'']
     \<and> map_of (child_fds c) 0 = Some (PipeReader 0, False) \<and> map_of (child_fds c) 3 = None"
proof -
  let ?run = "construct_worker (\<lambda>_. None) 7 \<lparr>executable = ''/w'', arguments = [''-x'']\<rparr> sample_host"
  obtain w h' where run: "?run = (Inr w, h')"
    by (simp add: construct_worker_def make_cloexec_pipe_def normalize_pipe_fd_def set_cloexec_def lowest_free_def
        sample_host_def Let_def spawn_worker_def action_texts_def posix_spawn_def own_pipes_def set_nonblocking_def
        close_fd_def upt_rec)
  show ?thesis
    using spawn_keeps_descriptors_apart [where h = sample_host and new_pid = 7 and env = "\<lambda>_. None"
        and launch = "\<lparr>executable = ''/w'', arguments = [''-x'']\<rparr>"] run
    by (auto simp: sample_host_def)
qed

end
