(* ===== verification/Worker_Leases.thy ===== *)
theory Worker_Leases
  imports Workers "HOL-Library.Multiset"
begin

text \<open>
  The lease objects of \<open>WorkerPool\<close>: the constructors, the assignment and the destructor of
  \<open>WorkerPool::Lease\<close> of \<open>kernel/src/worker_runtime.cpp\<close>. Theory \<open>Workers\<close> takes the workers that are
  held as a list; here they are what the objects of the program own, while these are created,
  moved and destroyed in any order.
\<close>

section \<open>Lease objects\<close>

text \<open>An object owns a worker (\<open>pool_\<close> and \<open>worker_\<close> are set) or nothing.\<close>

record LeaseObjects =
  lease_pool :: WorkerPool
  objects :: "nat option list"

definition lease_acquire ::
    "wait_env \<Rightarrow> (string \<Rightarrow> string list \<Rightarrow> int result) \<Rightarrow> i64 \<Rightarrow> string \<Rightarrow> LeaseObjects \<Rightarrow> LeaseObjects" where
  "lease_acquire env spawn now eid h =
     (case pool_acquire env spawn now eid (lease_pool h) of
        (Inl e, p) \<Rightarrow> h\<lparr>lease_pool := p\<rparr>
      | (Inr r, p) \<Rightarrow> \<lparr>lease_pool = p, objects = objects h @ [Some r]\<rparr>)"

definition lease_default :: "LeaseObjects \<Rightarrow> LeaseObjects" where
  "lease_default h = h\<lparr>objects := objects h @ [None]\<rparr>"

definition lease_destroy :: "wait_env \<Rightarrow> i64 \<Rightarrow> nat \<Rightarrow> LeaseObjects \<Rightarrow> LeaseObjects" where
  "lease_destroy env now i h =
     (case worker_lease_reset env now (objects h ! i) (lease_pool h) of
        (l, p) \<Rightarrow> \<lparr>lease_pool = p, objects = (objects h)[i := l]\<rparr>)"

definition worker_lease_move_construct :: "nat \<Rightarrow> LeaseObjects \<Rightarrow> LeaseObjects" where
  "worker_lease_move_construct i h = h\<lparr>objects := (objects h)[i := None] @ [objects h ! i]\<rparr>"

text \<open>\<open>objects[i] = std::move(objects[j])\<close>.\<close>

definition worker_lease_move_assign :: "wait_env \<Rightarrow> i64 \<Rightarrow> nat \<Rightarrow> nat \<Rightarrow> LeaseObjects \<Rightarrow> LeaseObjects" where
  "worker_lease_move_assign env now i j h =
     (if i = j then h
      else let h1 = lease_destroy env now i h
           in h1\<lparr>objects := (objects h1)[i := objects h1 ! j, j := None]\<rparr>)"

text \<open>\<open>pid()\<close>.\<close>

definition lease_pid :: "nat option \<Rightarrow> WorkerPool \<Rightarrow> int" where
  "lease_pid l p = (case l of None \<Rightarrow> - 1 | Some r \<Rightarrow> pid (processes p ! r))"

inductive lease_step :: "LeaseObjects \<Rightarrow> LeaseObjects \<Rightarrow> bool" where
  acquired: "lease_step h (lease_acquire env spawn now eid h)"
| defaulted: "lease_step h (lease_default h)"
| moved: "i < length (objects h) \<Longrightarrow> lease_step h (worker_lease_move_construct i h)"
| assigned: "i < length (objects h) \<Longrightarrow> j < length (objects h) \<Longrightarrow> lease_step h (worker_lease_move_assign env now i j h)"
| destroyed: "i < length (objects h) \<Longrightarrow> lease_step h (lease_destroy env now i h)"
| warmed: "pool_is_warm env eid (lease_pool h) = (b, p) \<Longrightarrow> lease_step h (h\<lparr>lease_pool := p\<rparr>)"
| swept: "lease_step h (h\<lparr>lease_pool := pool_reap_idle env killed now (lease_pool h)\<rparr>)"
| used: "Some r \<in> set (objects h) \<Longrightarrow> busy w = busy (processes (lease_pool h) ! r) \<Longrightarrow>
    worker_engine_id w = worker_engine_id (processes (lease_pool h) ! r) \<Longrightarrow>
    lease_step h (h\<lparr>lease_pool := (lease_pool h)\<lparr>processes := (processes (lease_pool h))[r := w]\<rparr>\<rparr>)"
| ended: "lease_step h (h\<lparr>lease_pool := pool_shutdown killed (lease_pool h)\<rparr>)"

section \<open>Refinement\<close>

definition owners :: "nat option list \<Rightarrow> nat multiset" where
  "owners ls = mset (List.map_filter id ls)"

definition implements :: "LeaseObjects \<Rightarrow> PoolUse \<Rightarrow> bool" where
  "implements h u \<longleftrightarrow> pool u = lease_pool h \<and> mset (held u) = owners (objects h)"

lemma owners_simps [simp]:
  "owners [] = {#}" "owners (None # ls) = owners ls" "owners (Some r # ls) = add_mset r (owners ls)"
  "owners (ls @ ms) = owners ls + owners ms"
  by (simp_all add: owners_def map_filter_simps) (induction ls; simp add: map_filter_simps split: option.split)

lemma owners_member: "r \<in># owners ls \<longleftrightarrow> Some r \<in> set ls"
proof (induction ls)
  case (Cons l ls)
  then show ?case by (cases l) auto
qed simp

lemma owners_update:
  assumes "i < length ls"
  shows "owners (ls[i := l]) + owners [ls ! i] = owners ls + owners [l]"
proof -
  have "ls = take i ls @ ls ! i # drop (Suc i) ls" and "ls[i := l] = take i ls @ l # drop (Suc i) ls"
    using assms by (simp_all add: id_take_nth_drop upd_conv_take_nth_drop)
  then have "owners ls = owners (take i ls) + owners ([ls ! i] @ drop (Suc i) ls)"
    and "owners (ls[i := l]) = owners (take i ls) + owners ([l] @ drop (Suc i) ls)"
    by (metis append_Cons append_Nil owners_simps(4))+
  then show ?thesis
    by (simp only: owners_simps(4)) (simp add: ac_simps)
qed

lemma destroy_implements:
  assumes "implements h u" and "i < length (objects h)"
  shows "\<exists>u'. pool_step\<^sup>*\<^sup>* u u' \<and> implements (lease_destroy env now i h) u'"
proof (cases "objects h ! i")
  case None
  then have "lease_destroy env now i h = h"
    by (simp add: lease_destroy_def worker_lease_reset_def list_update_same_conv assms(2))
  with assms(1) show ?thesis by auto
next
  case (Some r)
  have gone: "owners (objects h) = add_mset r (owners ((objects h)[i := None]))"
    using owners_update [OF assms(2), of None] Some by simp
  then have "r \<in># mset (held u)"
    using assms(1) by (simp add: implements_def)
  then have "pool_step u \<lparr>pool = pool_release env now r (pool u), held = remove1 r (held u)\<rparr>"
    by (intro pool_step.released) simp
  moreover have "implements (lease_destroy env now i h) \<lparr>pool = pool_release env now r (pool u), held = remove1 r (held u)\<rparr>"
    using assms(1) Some gone by (simp add: implements_def lease_destroy_def worker_lease_reset_def)
  ultimately show ?thesis by blast
qed

lemma move_implements:
  assumes "implements h u" and "i < length (objects h)" and "j < length (objects h)" and "i \<noteq> j" and "objects h ! i = None"
  shows "implements (h\<lparr>objects := (objects h)[i := objects h ! j, j := None]\<rparr>) u"
proof -
  have "owners ((objects h)[i := objects h ! j]) = owners (objects h) + owners [objects h ! j]"
    using owners_update [OF assms(2), of "objects h ! j"] assms(5) by simp
  moreover have "owners ((objects h)[i := objects h ! j, j := None]) + owners [objects h ! j] = owners ((objects h)[i := objects h ! j])"
    using owners_update [of j "(objects h)[i := objects h ! j]" None] assms(3,4) by simp
  ultimately show ?thesis
    using assms(1) by (simp add: implements_def)
qed

lemma lease_step_implements:
  "lease_step h h' \<Longrightarrow> implements h u \<Longrightarrow> \<exists>u'. pool_step\<^sup>*\<^sup>* u u' \<and> implements h' u'"
proof (induction rule: lease_step.induct)
  case (acquired h env spawn now eid)
  obtain r p where a: "pool_acquire env spawn now eid (pool u) = (r, p)"
    by fastforce
  show ?case
  proof (cases r)
    case (Inl e)
    then show ?thesis
      using a acquired pool_step.not_acquired [of env spawn now eid u e p]
      by (intro exI [of _ "u\<lparr>pool := p\<rparr>"]) (auto simp: implements_def lease_acquire_def)
  next
    case (Inr i)
    then show ?thesis
      using a acquired pool_step.acquired [of env spawn now eid u i p]
      by (intro exI [of _ "\<lparr>pool = p, held = i # held u\<rparr>"]) (auto simp: implements_def lease_acquire_def)
  qed
next
  case (defaulted h)
  then show ?case
    by (intro exI [of _ u]) (simp add: implements_def lease_default_def)
next
  case (moved i h)
  then show ?case
    using owners_update [of i "objects h" None]
    by (intro exI [of _ u]) (simp add: implements_def worker_lease_move_construct_def)
next
  case (assigned i h j env now)
  show ?case
  proof (cases "i = j")
    case True
    then show ?thesis
      using assigned by (auto simp: worker_lease_move_assign_def)
  next
    case False
    obtain u' where "pool_step\<^sup>*\<^sup>* u u'" "implements (lease_destroy env now i h) u'"
      using destroy_implements assigned by blast
    moreover have "objects (lease_destroy env now i h) ! i = None" "length (objects (lease_destroy env now i h)) = length (objects h)"
      using assigned by (simp_all add: lease_destroy_def worker_lease_reset_def)
    ultimately show ?thesis
      using move_implements [of "lease_destroy env now i h" u' i j] assigned False
      by (auto simp: worker_lease_move_assign_def Let_def)
  qed
next
  case (destroyed i h env now)
  then show ?case
    using destroy_implements by blast
next
  case (warmed env eid h b p)
  then show ?case
    using pool_step.warm [of env eid u b p] by (intro exI [of _ "u\<lparr>pool := p\<rparr>"]) (auto simp: implements_def)
next
  case (swept h env killed now)
  then show ?case
    using pool_step.reaped [of u env killed now]
    by (intro exI [of _ "u\<lparr>pool := pool_reap_idle env killed now (pool u)\<rparr>"]) (auto simp: implements_def)
next
  case (used r h w)
  then have "r \<in> set (held u)"
    by (metis implements_def owners_member set_mset_mset)
  then show ?case
    using used pool_step.used [of r u w]
    by (intro exI [of _ "u\<lparr>pool := (pool u)\<lparr>processes := (processes (pool u))[r := w]\<rparr>\<rparr>"]) (auto simp: implements_def)
next
  case (ended h killed)
  then show ?case
    using pool_step.shut [of u killed]
    by (intro exI [of _ "u\<lparr>pool := pool_shutdown killed (pool u)\<rparr>"]) (auto simp: implements_def)
qed

lemma lease_steps_implement:
  "lease_step\<^sup>*\<^sup>* h h' \<Longrightarrow> implements h u \<Longrightarrow> \<exists>u'. pool_step\<^sup>*\<^sup>* u u' \<and> implements h' u'"
proof (induction rule: rtranclp_induct)
  case (step h1 h2)
  then show ?case
    using lease_step_implements [of h1 h2] by (meson rtranclp_trans)
qed auto

section \<open>Properties\<close>

text \<open>
  C15: Lease objects own their workers exclusively: whatever leases are acquired, default
  constructed, moved and destroyed, in whatever order, and whatever the pool does meanwhile, the
  history is one of the pool with the workers that the objects own; no worker is owned by two
  objects, and a worker of the pool is busy exactly while an object owns it, so each acquired
  worker is given back once, when the object it was moved to last is destroyed or assigned.
\<close>

theorem lease_objects_own_exclusively:
  assumes "new_pool specs idle = Inr p" and "lease_step\<^sup>*\<^sup>* \<lparr>lease_pool = p, objects = []\<rparr> h"
  shows "(\<exists>u. pool_reachable p u \<and> pool u = lease_pool h \<and> mset (held u) = owners (objects h))
    \<and> (\<forall>i < length (objects h). \<forall>j < length (objects h). objects h ! i = objects h ! j \<longrightarrow> objects h ! i \<noteq> None \<longrightarrow> i = j)
    \<and> (\<forall>r \<in> set (workers (lease_pool h)). busy (processes (lease_pool h) ! r) \<longleftrightarrow> Some r \<in> set (objects h))"
proof -
  have "implements \<lparr>lease_pool = p, objects = []\<rparr> (pool_start p)"
    by (simp add: implements_def pool_start_def)
  then obtain u where u: "pool_reachable p u" "pool u = lease_pool h" "mset (held u) = owners (objects h)"
    using lease_steps_implement [OF assms(2)] by (auto simp: implements_def pool_reachable_def)
  have inv: "pool_inv u"
    by (rule pool_reachable_inv [OF assms(1) u(1)])
  have count: "count (owners (objects h)) r \<le> 1" for r
    using inv u(3) distinct_count_atmost_1 [of "held u"] by (simp add: pool_inv_def)
  have "i = j" if "i < length (objects h)" "j < length (objects h)" "objects h ! i = Some r" "objects h ! j = Some r" for i j r
  proof (rule ccontr)
    assume "i \<noteq> j"
    then have "Some r \<in> set ((objects h)[i := None])"
      using that(2,4) by (metis length_list_update nth_list_update_neq nth_mem)
    then have "0 < count (owners ((objects h)[i := None])) r"
      by (simp flip: owners_member)
    moreover have "owners (objects h) = add_mset r (owners ((objects h)[i := None]))"
      using owners_update [OF that(1), of None] that(3) by simp
    ultimately show False
      using count [of r] by (simp add: count_eq_zero_iff)
  qed
  moreover have "busy (processes (lease_pool h) ! r) \<longleftrightarrow> Some r \<in> set (objects h)" if "r \<in> set (workers (lease_pool h))" for r
    using inv that u(2,3) by (metis owners_member pool_inv_def set_mset_mset)
  ultimately show ?thesis
    using u by fastforce
qed

theorem lease_objects_own_exclusively_witness:
  "\<exists>h. lease_step\<^sup>*\<^sup>* \<lparr>lease_pool = sample_pool, objects = []\<rparr> h \<and> objects h = [None, Some 0]
     \<and> workers (lease_pool h) = [0] \<and> busy (processes (lease_pool h) ! 0)"
proof -
  let ?h0 = "\<lparr>lease_pool = sample_pool, objects = []\<rparr>"
  let ?h1 = "lease_acquire (\<lambda>_. Running) sample_spawn 10 ''e'' ?h0"
  let ?h2 = "worker_lease_move_construct 0 ?h1"
  have h1: "objects ?h1 = [Some 0]" "workers (lease_pool ?h1) = [0]"
    by (simp_all add: lease_acquire_def sample_acquire)
  have "lease_step ?h0 ?h1" "lease_step ?h1 ?h2"
    using h1 by (auto intro: lease_step.intros)
  then have steps: "lease_step\<^sup>*\<^sup>* ?h0 ?h2"
    by (meson r_into_rtranclp rtranclp_trans)
  have h2: "objects ?h2 = [None, Some 0]" "workers (lease_pool ?h2) = [0]"
    using h1 by (simp_all add: worker_lease_move_construct_def)
  show ?thesis
    using lease_objects_own_exclusively [OF sample_pool_new steps] steps h2 by (intro exI [of _ ?h2]) simp
qed

end
