(* ===== verification/Store_Transactions.thy ===== *)
theory Store_Transactions
  imports Store_Invariant
begin

text \<open>
  The transactions of \<open>kernel/src/store.cpp\<close>, call by call. Theory \<open>Store\<close> has each operation of
  the store as one step that takes effect or throws and leaves the tables as they were. Here the
  five operations with a transaction are what the source has: \<open>BEGIN IMMEDIATE\<close>, the checked calls
  of the SQLite interface one after the other, each with its effect on the tables, \<open>COMMIT\<close>, and
  the handler that rolls back and throws again. That both agree, on every fault, is the property
  at the end.

  A connection has the tables that its statements see and those that are committed, which are
  what a process that is started after a crash finds. Writes go to the former; \<open>COMMIT\<close> makes them
  the latter and \<open>ROLLBACK\<close> undoes them. \<open>ROLLBACK\<close> in a handler is not checked by the source; that
  it works is taken from SQLite.
\<close>

section \<open>Connections and programs\<close>

record connection =
  committed :: Db
  tables :: Db
  in_transaction :: bool
  sqlite_calls :: nat

definition idle :: "Db \<Rightarrow> connection" where
  "idle db = \<lparr>committed = db, tables = db, in_transaction = False, sqlite_calls = 0\<rparr>"

type_synonym 'a prog = "sqlite_fault \<Rightarrow> connection \<Rightarrow> 'a result \<times> connection"

definition ret :: "'a \<Rightarrow> 'a prog" where
  "ret v f c = (Inr v, c)"

definition then_do :: "'a prog \<Rightarrow> ('a \<Rightarrow> 'b prog) \<Rightarrow> 'b prog" where
  "then_do m g f c = (case m f c of (Inl e, c1) \<Rightarrow> (Inl e, c1) | (Inr v, c1) \<Rightarrow> g v f c1)"

text \<open>One checked call: the fault decides whether it fails, as \<open>check\<close> reports it.\<close>

definition sqlite :: "string \<Rightarrow> (connection \<Rightarrow> unit result \<times> connection) \<Rightarrow> unit prog" where
  "sqlite action effect f c =
     (case checks f (sqlite_calls c) [action] of
        Some e \<Rightarrow> (Inl e, c)
      | None \<Rightarrow> effect (c\<lparr>sqlite_calls := Suc (sqlite_calls c)\<rparr>))"

text \<open>A write; outside a transaction it is committed at once.\<close>

definition write_tables :: "(Db \<Rightarrow> Db) \<Rightarrow> connection \<Rightarrow> connection" where
  "write_tables g c =
     (let db = g (tables c) in c\<lparr>tables := db, committed := if in_transaction c then committed c else db\<rparr>)"

definition begin_immediate :: "connection \<Rightarrow> unit result \<times> connection" where
  "begin_immediate c = (Inr (), c\<lparr>in_transaction := True\<rparr>)"

definition commit_tables :: "connection \<Rightarrow> unit result \<times> connection" where
  "commit_tables c = (Inr (), c\<lparr>committed := tables c, in_transaction := False\<rparr>)"

definition roll_back :: "connection \<Rightarrow> connection" where
  "roll_back c = c\<lparr>tables := committed c, in_transaction := False\<rparr>"

text \<open>Consecutive checked calls, each with what it does to the tables: a bind does nothing.\<close>

fun script :: "(string \<times> (Db \<Rightarrow> Db)) list \<Rightarrow> unit prog" where
  "script [] = ret ()"
| "script ((action, g) # calls) = then_do (sqlite action (\<lambda>c. (Inr (), write_tables g c))) (\<lambda>_. script calls)"

definition binds :: "string list \<Rightarrow> (string \<times> (Db \<Rightarrow> Db)) list" where
  "binds = map (\<lambda>action. (action, id))"

text \<open>\<open>try \<dots> catch (...) { ROLLBACK; throw; }\<close> after \<open>BEGIN IMMEDIATE\<close>.\<close>

definition transaction :: "string \<Rightarrow> 'a prog \<Rightarrow> 'a prog" where
  "transaction action body =
     then_do (sqlite action begin_immediate)
       (\<lambda>_ f c. case body f c of (Inl e, c1) \<Rightarrow> (Inl e, roll_back c1) | (Inr v, c1) \<Rightarrow> (Inr v, c1))"

definition end_with :: "string \<Rightarrow> (connection \<Rightarrow> unit result \<times> connection) \<Rightarrow> 'a \<Rightarrow> 'a prog" where
  "end_with action effect v = then_do (sqlite action effect) (\<lambda>_. ret v)"

section \<open>begin_attempt\<close>

definition queued_row :: "string \<Rightarrow> WorkRecord \<Rightarrow> bool" where
  "queued_row key w \<longleftrightarrow> work_id w = c_str key \<and> state w = ''QUEUED'' \<and> \<not> cancel_requested w"

definition insert_attempt :: "AttemptRecord \<Rightarrow> connection \<Rightarrow> unit result \<times> connection" where
  "insert_attempt a c =
     (if list_ex (\<lambda>b. attempt_work_id b = attempt_work_id a \<and> attempt_number b = attempt_number a) (attempts (tables c))
      then (Inl (RuntimeError ''insert attempt: UNIQUE constraint failed: attempts.work_id, attempts.attempt_number''), c)
      else (Inr (), write_tables (\<lambda>db. db\<lparr>attempts := attempts db @ [a]\<rparr>) c))"

definition begin_attempt_body :: "string \<Rightarrow> string \<Rightarrow> string \<Rightarrow> i64 \<Rightarrow> int prog" where
  "begin_attempt_body key engine model started_at =
     then_do (script (binds [''prepare SQLite statement'', ''bind SQLite text'', ''read attempt count'']))
       (\<lambda>_ f c. (case select_work (queued_row key) (tables c) of
          None \<Rightarrow> end_with ''rollback absent attempt'' (\<lambda>c. (Inr (), roll_back c)) 0
        | Some w \<Rightarrow>
            (let n = attempt_count w + 1
             in then_do
               (script (binds [''prepare SQLite statement'', ''bind attempt number'', ''bind SQLite text'', ''bind SQLite text'',
                   ''bind SQLite text'']
                 @ [(''mark Work running'', update_works (queued_row key)
                      (\<lambda>w. w\<lparr>state := ''RUNNING'', attempt_count := n, selected_engine_id := c_str engine,
                             selected_model_id := c_str model, technical_failure := []\<rparr>))]))
               (\<lambda>_. if length (filter (queued_row key) (works (tables c))) \<noteq> 1
                    then end_with ''rollback lost attempt race'' (\<lambda>c. (Inr (), roll_back c)) 0
                    else then_do
                      (script (binds [''prepare SQLite statement'', ''bind SQLite text'', ''bind attempt number'', ''bind SQLite text'',
                         ''bind SQLite text'', ''bind attempt start'']))
                      (\<lambda>_. then_do
                        (sqlite ''insert attempt'' (insert_attempt
                           \<lparr>attempt_work_id = c_str key, attempt_number = n, attempt_engine_id = c_str engine,
                            attempt_model_id = c_str model, started_at_ms = started_at, ended_at_ms = None,
                            attempt_state = ''RUNNING'', attempt_failure = []\<rparr>))
                        (\<lambda>_. end_with ''commit attempt transaction'' commit_tables n))))) f c)"

definition txn_begin_attempt :: "string \<Rightarrow> string \<Rightarrow> string \<Rightarrow> i64 \<Rightarrow> int prog" where
  "txn_begin_attempt key engine model started_at =
     transaction ''begin attempt transaction'' (begin_attempt_body key engine model started_at)"

section \<open>finish_success, finish_cancelled\<close>

definition finish_success_body :: "string \<Rightarrow> int \<Rightarrow> i64 \<Rightarrow> unit prog" where
  "finish_success_body key n ended =
     then_do (script (binds [''prepare SQLite statement'', ''bind attempt end'', ''bind SQLite text'', ''bind attempt number'']
         @ [(''mark attempt succeeded'', update_attempts (running_attempt (c_str key) n) (end_attempt ''SUCCEEDED'' ended []))]
         @ binds [''prepare SQLite statement'', ''bind SQLite text'']
         @ [(''mark Work succeeded'', update_works (running_work (c_str key))
              (\<lambda>w. w\<lparr>state := ''SUCCEEDED'', technical_failure := []\<rparr>))]))
       (\<lambda>_. end_with ''commit success transaction'' commit_tables ())"

definition finish_cancelled_body :: "string \<Rightarrow> int \<Rightarrow> i64 \<Rightarrow> unit prog" where
  "finish_cancelled_body key n ended =
     then_do (script (binds [''prepare SQLite statement'', ''bind cancellation time'', ''bind SQLite text'', ''bind attempt number'']
         @ [(''cancel attempt'', update_attempts (running_attempt (c_str key) n) (end_attempt ''CANCELLED'' ended ''cancelled''))]
         @ binds [''prepare SQLite statement'', ''bind SQLite text'']
         @ [(''cancel Work'', update_works (running_work (c_str key))
              (\<lambda>w. w\<lparr>state := ''CANCELLED'', technical_failure := ''cancelled''\<rparr>))]))
       (\<lambda>_. end_with ''commit cancel transaction'' commit_tables ())"

definition txn_finish_success :: "string \<Rightarrow> int \<Rightarrow> i64 \<Rightarrow> unit prog" where
  "txn_finish_success key n ended = transaction ''begin success transaction'' (finish_success_body key n ended)"

definition txn_finish_cancelled :: "string \<Rightarrow> int \<Rightarrow> i64 \<Rightarrow> unit prog" where
  "txn_finish_cancelled key n ended = transaction ''begin cancel transaction'' (finish_cancelled_body key n ended)"

section \<open>finish_retryable_failure\<close>

text \<open>The three statements, of which the row that was read chooses one.\<close>

definition failed_calls :: "string \<Rightarrow> string \<Rightarrow> i64 \<Rightarrow> WorkRecord \<Rightarrow> (string \<times> (Db \<Rightarrow> Db)) list" where
  "failed_calls key failure ended w =
     (if cancel_requested w
      then binds [''bind SQLite text'']
        @ [(''cancel Work during failure finalization'', update_works (running_work (c_str key))
             (\<lambda>row. row\<lparr>state := ''CANCELLED'', technical_failure := ''cancelled''\<rparr>))]
      else if retry_permitted w ended
      then binds [''bind retry time'', ''bind SQLite text'', ''bind SQLite text'']
        @ [(''queue Work retry'', update_works (running_work (c_str key))
             (\<lambda>row. row\<lparr>state := ''QUEUED'', next_attempt_at_ms := add_i64 ended (retry_delay_ms w),
                technical_failure := c_str failure, selected_engine_id := [], selected_model_id := []\<rparr>))]
      else binds [''bind SQLite text'', ''bind SQLite text'']
        @ [(''fail Work after attempt'', update_works (running_work (c_str key))
             (\<lambda>row. row\<lparr>state := ''FAILED'', technical_failure := c_str failure\<rparr>))])"

definition finish_failure_body :: "string \<Rightarrow> int \<Rightarrow> string \<Rightarrow> string \<Rightarrow> i64 \<Rightarrow> unit prog" where
  "finish_failure_body key n st failure ended =
     then_do (script (binds [''prepare SQLite statement'', ''bind SQLite text'', ''read running Work'']))
       (\<lambda>_ f c. (case select_work (running_work (c_str key)) (tables c) of
          None \<Rightarrow> end_with ''rollback missing running Work'' (\<lambda>c. (Inr (), roll_back c)) ()
        | Some w \<Rightarrow>
            then_do
              (script (binds [''prepare SQLite statement'', ''bind SQLite text'', ''bind attempt end'', ''bind SQLite text'',
                  ''bind SQLite text'', ''bind attempt number'']
                @ [(''finish failed attempt'', update_attempts (running_attempt (c_str key) n) (end_attempt st ended (c_str failure)))]
                @ binds [''prepare SQLite statement''] @ failed_calls key failure ended w))
              (\<lambda>_. end_with ''commit failure transaction'' commit_tables ())) f c)"

definition txn_finish_retryable_failure :: "string \<Rightarrow> int \<Rightarrow> string \<Rightarrow> string \<Rightarrow> i64 \<Rightarrow> unit prog" where
  "txn_finish_retryable_failure key n st failure ended =
     (if st \<noteq> ''FAILED'' \<and> st \<noteq> ''TIMED_OUT''
      then (\<lambda>f c. (Inl (InvalidArgument ''retryable attempt state must be FAILED or TIMED_OUT''), c))
      else transaction ''begin failure transaction'' (finish_failure_body key n st failure ended))"

section \<open>recover_interrupted\<close>

definition recover_calls :: "i64 \<Rightarrow> WorkRecord \<Rightarrow> (string \<times> (Db \<Rightarrow> Db)) list" where
  "recover_calls now w =
     binds [''prepare SQLite statement'', ''bind interruption time'', ''bind SQLite text'', ''bind interrupted attempt number'']
     @ [(''interrupt running attempt'', update_attempts (running_attempt (work_id w) (attempt_count w))
          (end_attempt ''INTERRUPTED'' now restart_text))]
     @ binds [''prepare SQLite statement'']
     @ (if cancel_requested w
        then binds [''bind SQLite text'']
          @ [(''cancel interrupted Work with prior cancellation request'', update_works (running_work (work_id w))
               (\<lambda>row. row\<lparr>state := ''CANCELLED'', technical_failure := ''cancelled before restart recovery''\<rparr>))]
        else if retry_permitted w now
        then binds [''bind restart retry time'', ''bind SQLite text'']
          @ [(''queue interrupted Work retry'', update_works (running_work (work_id w))
               (\<lambda>row. row\<lparr>state := ''QUEUED'', next_attempt_at_ms := add_i64 now (retry_delay_ms w),
                  technical_failure := restart_text, selected_engine_id := [], selected_model_id := []\<rparr>))]
        else binds [''bind SQLite text'']
          @ [(''fail interrupted Work'', update_works (running_work (work_id w))
               (\<lambda>row. row\<lparr>state := ''FAILED'', technical_failure := restart_text\<rparr>))])"

definition recover_body :: "i64 \<Rightarrow> unit prog" where
  "recover_body now =
     then_do (script (binds [''prepare SQLite statement'']))
       (\<lambda>_ f c. (let running = filter (\<lambda>w. state w = ''RUNNING'') (works (tables c))
          in then_do (script (binds (replicate (length running + 1) ''read running Work for recovery'')
                 @ concat (map (recover_calls now) running)))
               (\<lambda>_. end_with ''commit restart recovery'' commit_tables ())) f c)"

definition txn_recover_interrupted :: "i64 \<Rightarrow> unit prog" where
  "txn_recover_interrupted now = transaction ''begin restart recovery'' (recover_body now)"

section \<open>Opening and closing\<close>

text \<open>
  The constructor \<open>WorkStore\<close>, with the number of open database handles: \<open>sqlite3_open_v2\<close> may fail
  with or without a handle. The destructor closes the handle, but it only runs for a store that was
  constructed.
\<close>

record open_env =
  directory_error :: "string option"
  open_error :: "(bool \<times> string) option"
  wal_error :: "string option"
  schema_error :: "string option"

definition open_store :: "open_env \<Rightarrow> nat \<Rightarrow> unit result \<times> nat" where
  "open_store env handles =
     (case directory_error env of
        Some m \<Rightarrow> (Inl (RuntimeError m), handles)
      | None \<Rightarrow>
          (case open_error env of
             Some (has_handle, m) \<Rightarrow>
               (Inl (RuntimeError (if has_handle then m else ''open SQLite database'')), handles)
           | None \<Rightarrow>
               (case wal_error env of
                  Some m \<Rightarrow> (Inl (RuntimeError (''enable SQLite WAL: '' @ m)), Suc handles)
                | None \<Rightarrow>
                    (case schema_error env of
                       Some m \<Rightarrow> (Inl (RuntimeError (''initialize C2 Work schema: '' @ m)), Suc handles)
                     | None \<Rightarrow> (Inr (), Suc handles)))))"

definition close_store :: "nat \<Rightarrow> nat" where
  "close_store handles = handles - 1"

section \<open>Lemmas\<close>

lemma checks_append: "checks f n (xs @ ys) = (case checks f n xs of Some e \<Rightarrow> Some e | None \<Rightarrow> checks f (n + length xs) ys)"
  by (induction xs arbitrary: n) (auto simp: checks.simps split: option.split)

definition effects :: "(string \<times> (Db \<Rightarrow> Db)) list \<Rightarrow> Db \<Rightarrow> Db" where
  "effects calls = fold snd calls"

text \<open>A script in a transaction: a fault stops it with nothing committed.\<close>

lemma script_spec:
  assumes "in_transaction c"
  shows "\<exists>db n. script calls f c =
     (case checks f (sqlite_calls c) (map fst calls) of
        Some e \<Rightarrow> (Inl e, c\<lparr>tables := db, sqlite_calls := n\<rparr>)
      | None \<Rightarrow> (Inr (), c\<lparr>tables := effects calls (tables c), sqlite_calls := sqlite_calls c + length calls\<rparr>))"
  using assms
proof (induction calls arbitrary: c)
  case Nil
  have "c\<lparr>tables := tables c, sqlite_calls := sqlite_calls c\<rparr> = c"
    by simp
  then show ?case
    by (simp add: ret_def effects_def checks.simps)
next
  case (Cons call calls)
  obtain action g where call: "call = (action, g)"
    by (cases call) auto
  show ?case
  proof (cases "checks f (sqlite_calls c) [action]")
    case (Some e)
    have "checks f (sqlite_calls c) (action # map fst calls) = Some e"
      using Some checks_append [of f "sqlite_calls c" "[action]"] by simp
    moreover have "c = c\<lparr>tables := tables c, sqlite_calls := sqlite_calls c\<rparr>"
      by simp
    ultimately show ?thesis
      using Some by (auto simp: call then_do_def sqlite_def intro!: exI [of _ "tables c"] exI [of _ "sqlite_calls c"])
  next
    case None
    let ?c1 = "write_tables g (c\<lparr>sqlite_calls := Suc (sqlite_calls c)\<rparr>)"
    have c1: "?c1 = c\<lparr>tables := g (tables c), sqlite_calls := Suc (sqlite_calls c)\<rparr>"
      using Cons.prems by (cases c) (simp add: write_tables_def Let_def)
    have rest: "checks f (sqlite_calls c) (action # map fst calls) = checks f (Suc (sqlite_calls c)) (map fst calls)"
      using None checks_append [of f "sqlite_calls c" "[action]"] by simp
    have "script (call # calls) f c = script calls f ?c1"
      using None by (simp add: call then_do_def sqlite_def)
    with Cons.IH [of ?c1] Cons.prems show ?thesis
      unfolding c1 by (auto simp: call rest effects_def split: option.splits)
  qed
qed

lemma map_fst_binds [simp]: "map fst (binds actions) = actions"
  by (induction actions) (simp_all add: binds_def)

lemma effects_simps [simp]:
  "effects [] db = db" "effects ((action, g) # calls) db = effects calls (g db)"
  "effects (xs @ ys) db = effects ys (effects xs db)" "effects (binds actions) db = db"
proof -
  show "effects (binds actions) db = db"
    by (induction actions) (simp_all add: effects_def binds_def)
qed (simp_all add: effects_def)

lemma length_binds [simp]: "length (binds actions) = length actions"
  by (simp add: binds_def)

text \<open>
  What a program does in an open transaction: when it throws, the transaction is still open and
  nothing is committed; when it returns, the transaction is closed and the committed tables are
  the second component of \<open>x\<close>.
\<close>

definition does :: "'a prog \<Rightarrow> sqlite_fault \<Rightarrow> connection \<Rightarrow> 'a result \<times> Db \<Rightarrow> bool" where
  "does m f c x \<longleftrightarrow>
     (case x of
        (Inl e, db) \<Rightarrow> db = committed c \<and> (\<exists>c1. m f c = (Inl e, c1) \<and> committed c1 = committed c \<and> in_transaction c1)
      | (Inr v, db) \<Rightarrow> \<exists>n. m f c = (Inr v, \<lparr>committed = db, tables = db, in_transaction = False, sqlite_calls = n\<rparr>))"

lemma does_script:
  assumes "in_transaction c"
    and "checks f (sqlite_calls c) (map fst calls) = None \<Longrightarrow>
      does (g ()) f (c\<lparr>tables := effects calls (tables c), sqlite_calls := sqlite_calls c + length calls\<rparr>) y"
    and "x = (case checks f (sqlite_calls c) (map fst calls) of Some e \<Rightarrow> (Inl e, committed c) | None \<Rightarrow> y)"
  shows "does (then_do (script calls) g) f c x"
proof (cases "checks f (sqlite_calls c) (map fst calls)")
  case None
  have "then_do (script calls) g f c =
      g () f (c\<lparr>tables := effects calls (tables c), sqlite_calls := sqlite_calls c + length calls\<rparr>)"
    using script_spec [OF assms(1), of calls f] None by (auto simp: then_do_def)
  then show ?thesis
    using assms(2) [OF None] None by (cases y; cases "fst y") (simp_all add: assms(3) does_def)
next
  case (Some e)
  then show ?thesis
    using script_spec [OF assms(1), of calls f] assms(1) by (auto simp: assms(3) does_def then_do_def)
qed

lemma does_commit:
  assumes "in_transaction c"
    and "x = (case checks f (sqlite_calls c) [action] of Some e \<Rightarrow> (Inl e, committed c) | None \<Rightarrow> (Inr v, tables c))"
  shows "does (end_with action commit_tables v) f c x"
  using assms
  by (cases c) (auto simp: does_def end_with_def then_do_def sqlite_def commit_tables_def ret_def split: option.split)

lemma does_rollback:
  assumes "in_transaction c"
    and "x = (case checks f (sqlite_calls c) [action] of Some e \<Rightarrow> (Inl e, committed c) | None \<Rightarrow> (Inr v, committed c))"
  shows "does (end_with action (\<lambda>c. (Inr (), roll_back c)) v) f c x"
  using assms
  by (cases c) (auto simp: does_def end_with_def then_do_def sqlite_def roll_back_def ret_def split: option.split)

text \<open>The connection just after \<open>BEGIN IMMEDIATE\<close>.\<close>

definition begun :: "Db \<Rightarrow> connection" where
  "begun db = \<lparr>committed = db, tables = db, in_transaction = True, sqlite_calls = Suc 0\<rparr>"

text \<open>A program on an idle connection does what an operation of the store does in one step.\<close>

definition does_as_stored :: "'a prog \<Rightarrow> (sqlite_fault \<Rightarrow> Db \<Rightarrow> 'a result \<times> Db) \<Rightarrow> bool" where
  "does_as_stored p op \<longleftrightarrow> (\<forall>f db. case p f (idle db) of (r, c) \<Rightarrow>
     (r, committed c) = op f db \<and> tables c = committed c \<and> \<not> in_transaction c)"

lemma checks_first:
  "checks f 0 (a # b # rest) = (case checks f 0 [a] of Some e \<Rightarrow> Some e | None \<Rightarrow> checks f (Suc 0) (b # rest))"
  using checks_append [of f 0 "[a]" "b # rest"] by (simp split: option.split)

lemma transaction_does:
  assumes fails: "\<And>f db e. checks f 0 [action] = Some e \<Longrightarrow> op f db = (Inl e, db)"
    and runs: "\<And>f db. checks f 0 [action] = None \<Longrightarrow> does body f (begun db) (op f db)"
  shows "does_as_stored (transaction action body) op"
  unfolding does_as_stored_def
proof (intro allI)
  fix f db
  have started: "begin_immediate ((idle db)\<lparr>sqlite_calls := Suc (sqlite_calls (idle db))\<rparr>) = (Inr (), begun db)"
    by (simp add: begin_immediate_def idle_def begun_def)
  show "case transaction action body f (idle db) of (r, c) \<Rightarrow>
      (r, committed c) = op f db \<and> tables c = committed c \<and> \<not> in_transaction c"
  proof (cases "checks f 0 [action]")
    case (Some e)
    then show ?thesis
      by (simp add: fails transaction_def then_do_def sqlite_def) (simp add: idle_def)
  next
    case None
    then have run: "transaction action body f (idle db) =
        (case body f (begun db) of (Inl e, c1) \<Rightarrow> (Inl e, roll_back c1) | (Inr v, c1) \<Rightarrow> (Inr v, c1))"
      using started by (simp add: transaction_def then_do_def sqlite_def) (simp add: idle_def)
    have "committed (begun db) = db"
      by (simp add: begun_def)
    then show ?thesis
      using runs [OF None, of db]
      by (cases "op f db"; cases "fst (op f db)") (auto simp: run does_def roll_back_def)
  qed
qed

lemma begun_fields [simp]:
  "committed (begun db) = db" "tables (begun db) = db" "in_transaction (begun db)" "sqlite_calls (begun db) = Suc 0"
  by (simp_all add: begun_def)

text \<open>Two stretches of checked calls, one after the other.\<close>

lemma checks_then:
  "(case checks f n xs of Some e \<Rightarrow> (Inl e, db) | None \<Rightarrow> (case checks f (n + length xs) ys of Some e \<Rightarrow> (Inl e, db) | None \<Rightarrow> y)) =
     (case checks f n (xs @ ys) of Some e \<Rightarrow> (Inl e, db) | None \<Rightarrow> y)"
  by (simp add: checks_append split: option.split)

lemma script_commit_does:
  assumes "x = (case checks f (sqlite_calls c) (map fst calls @ [action]) of
      Some e \<Rightarrow> (Inl e, committed c) | None \<Rightarrow> (Inr v, effects calls (tables c)))" and "in_transaction c"
  shows "does (then_do (script calls) (\<lambda>_. end_with action commit_tables v)) f c x"
  by (rule does_script [OF assms(2) does_commit [OF _ refl]]) (simp_all add: assms checks_then [symmetric] split: option.split)

lemma finish_success_body_does:
  assumes "checks f 0 [''begin success transaction''] = None"
  shows "does (finish_success_body key n ended) f (begun db) (store_finish_success f key n ended db)"
  using assms unfolding finish_success_body_def
  by (intro script_commit_does) (simp_all add: store_finish_success_def checks_first split: option.split)

lemma finish_success_does: "does_as_stored (txn_finish_success key n ended) (\<lambda>f. store_finish_success f key n ended)"
  unfolding txn_finish_success_def
  by (rule transaction_does [OF _ finish_success_body_does]) (simp add: store_finish_success_def checks_first)

lemma finish_cancelled_body_does:
  assumes "checks f 0 [''begin cancel transaction''] = None"
  shows "does (finish_cancelled_body key n ended) f (begun db) (store_finish_cancelled f key n ended db)"
  using assms unfolding finish_cancelled_body_def
  by (intro script_commit_does) (simp_all add: store_finish_cancelled_def checks_first split: option.split)

lemma finish_cancelled_does: "does_as_stored (txn_finish_cancelled key n ended) (\<lambda>f. store_finish_cancelled f key n ended)"
  unfolding txn_finish_cancelled_def
  by (rule transaction_does [OF _ finish_cancelled_body_does]) (simp add: store_finish_cancelled_def checks_first)

lemma does_cong: "m f c = m' f c \<Longrightarrow> does m f c x \<Longrightarrow> does m' f c x"
  by (simp add: does_def split: prod.splits sum.splits)

text \<open>A read that decides what follows: the tables are those at the start of the transaction.\<close>

lemma read_does:
  assumes "checks f (Suc 0) reads = None \<Longrightarrow>
      does (g db) f \<lparr>committed = db, tables = db, in_transaction = True, sqlite_calls = Suc (length reads)\<rparr> y"
    and "x = (case checks f (Suc 0) reads of Some e \<Rightarrow> (Inl e, db) | None \<Rightarrow> y)"
  shows "does (then_do (script (binds reads)) (\<lambda>_ f c. g (tables c) f c)) f (begun db) x"
proof (rule does_script)
  let ?c = "\<lparr>committed = db, tables = db, in_transaction = True, sqlite_calls = Suc (length reads)\<rparr>"
  have c: "(begun db)\<lparr>tables := effects (binds reads) (tables (begun db)),
      sqlite_calls := sqlite_calls (begun db) + length (binds reads)\<rparr> = ?c"
    by (simp add: begun_def)
  assume "checks f (sqlite_calls (begun db)) (map fst (binds reads)) = None"
  then have "does (g db) f ?c y"
    using assms(1) by simp
  then show "does (\<lambda>f c. g (tables c) f c) f ((begun db)\<lparr>tables := effects (binds reads) (tables (begun db)),
      sqlite_calls := sqlite_calls (begun db) + length (binds reads)\<rparr>) y"
    unfolding c by (rule does_cong [rotated]) simp
qed (simp_all add: assms(2) split: option.split)

lemma checks_opening:
  assumes "checks f 0 [a] = None"
  shows "(case checks f 0 ((a # b # reads) @ rest) of Some e \<Rightarrow> (Inl e, db) | None \<Rightarrow> y) =
    (case checks f (Suc 0) (b # reads) of
       Some e \<Rightarrow> (Inl e, db)
     | None \<Rightarrow> (case checks f (Suc (length (b # reads))) rest of Some e \<Rightarrow> (Inl e, db) | None \<Rightarrow> y))"
  by (simp add: checks_append checks_first assms flip: append_Cons split: option.split)

lemma failed_calls_settle:
  "effects (failed_calls key failure ended w) db =
     update_works (running_work (c_str key)) (settle_failed ''cancelled'' (c_str failure) ended w) db"
  by (simp add: failed_calls_def settle_failed_def update_works_def)

lemma failed_calls_actions:
  "map fst (failed_calls key failure ended w) =
     (if cancel_requested w then [''bind SQLite text'', ''cancel Work during failure finalization'']
      else if retry_permitted w ended
      then [''bind retry time'', ''bind SQLite text'', ''bind SQLite text'', ''queue Work retry'']
      else [''bind SQLite text'', ''bind SQLite text'', ''fail Work after attempt''])"
  by (simp add: failed_calls_def)

lemma finish_failure_body_does:
  assumes none: "checks f 0 [''begin failure transaction''] = None" and st: "st = ''FAILED'' \<or> st = ''TIMED_OUT''"
  shows "does (finish_failure_body key n st failure ended) f (begun db) (store_finish_retryable_failure f key n st failure ended db)"
proof -
  have st': "\<not> (st \<noteq> ''FAILED'' \<and> st \<noteq> ''TIMED_OUT'')"
    using st by blast
  show ?thesis
  proof (cases "select_work (running_work (c_str key)) db")
    case None
    show ?thesis
      unfolding finish_failure_body_def store_finish_retryable_failure_def if_not_P [OF st'] Let_def None option.case
        checks_opening [OF none]
      by (rule read_does [OF _ refl]) (unfold None option.case, rule does_rollback, simp_all split: option.split)
  next
    case (Some w)
    show ?thesis
      unfolding finish_failure_body_def store_finish_retryable_failure_def if_not_P [OF st'] Let_def Some option.case
        checks_opening [OF none]
      by (rule read_does [OF _ refl]) (unfold Some option.case, rule script_commit_does,
          simp_all add: failed_calls_settle failed_calls_actions split: option.split)
  qed
qed

lemma finish_failure_does:
  "does_as_stored (txn_finish_retryable_failure key n st failure ended)
     (\<lambda>f. store_finish_retryable_failure f key n st failure ended)"
proof (cases "st = ''FAILED'' \<or> st = ''TIMED_OUT''")
  case False
  then show ?thesis
    by (auto simp: does_as_stored_def txn_finish_retryable_failure_def store_finish_retryable_failure_def idle_def)
next
  case True
  have "does_as_stored (transaction ''begin failure transaction'' (finish_failure_body key n st failure ended))
      (\<lambda>f. store_finish_retryable_failure f key n st failure ended)"
    by (rule transaction_does)
       (use True finish_failure_body_does in \<open>auto simp: store_finish_retryable_failure_def checks_first Let_def split: option.split\<close>)
  then show ?thesis
    using True by (auto simp: txn_finish_retryable_failure_def)
qed

lemma does_insert:
  assumes "in_transaction c"
    and "\<not> list_ex (\<lambda>b. attempt_work_id b = attempt_work_id a \<and> attempt_number b = attempt_number a) (attempts (tables c)) \<Longrightarrow>
      does (g ()) f (c\<lparr>tables := (tables c)\<lparr>attempts := attempts (tables c) @ [a]\<rparr>, sqlite_calls := Suc (sqlite_calls c)\<rparr>) y"
    and "x = (case checks f (sqlite_calls c) [action] of
        Some e \<Rightarrow> (Inl e, committed c)
      | None \<Rightarrow> if list_ex (\<lambda>b. attempt_work_id b = attempt_work_id a \<and> attempt_number b = attempt_number a) (attempts (tables c))
          then (Inl (RuntimeError ''insert attempt: UNIQUE constraint failed: attempts.work_id, attempts.attempt_number''), committed c)
          else y)"
  shows "does (then_do (sqlite action (insert_attempt a)) g) f c x"
proof -
  let ?c = "c\<lparr>tables := (tables c)\<lparr>attempts := attempts (tables c) @ [a]\<rparr>, sqlite_calls := Suc (sqlite_calls c)\<rparr>"
  have w: "write_tables (\<lambda>db. db\<lparr>attempts := attempts db @ [a]\<rparr>) (c\<lparr>sqlite_calls := Suc (sqlite_calls c)\<rparr>) = ?c"
    using assms(1) by (cases c) (simp add: write_tables_def Let_def)
  have same: "does (g ()) f ?c y \<Longrightarrow> m f c = g () f ?c \<Longrightarrow> does m f c y" for m
    by (simp add: does_def split: prod.splits sum.splits)
  show ?thesis
  proof (cases "checks f (sqlite_calls c) [action]")
    case (Some e)
    then show ?thesis
      using assms(1) by (simp add: assms(3) does_def then_do_def sqlite_def)
  next
    case None
    show ?thesis
    proof (cases "list_ex (\<lambda>b. attempt_work_id b = attempt_work_id a \<and> attempt_number b = attempt_number a) (attempts (tables c))")
      case True
      then show ?thesis
        using assms(1) None by (simp add: assms(3) does_def then_do_def sqlite_def insert_attempt_def)
    next
      case False
      have "then_do (sqlite action (insert_attempt a)) g f c = g () f ?c"
        using None False w by (simp add: then_do_def sqlite_def insert_attempt_def)
      from same [of "then_do (sqlite action (insert_attempt a)) g", OF assms(2) [OF False] this] show ?thesis
        using None False by (simp add: assms(3))
    qed
  qed
qed

lemma queued_row_eq: "(\<lambda>w. work_id w = c_str key \<and> state w = ''QUEUED'' \<and> \<not> cancel_requested w) = queued_row key"
  by (simp add: fun_eq_iff queued_row_def)

lemma insert_actions:
  "[''prepare SQLite statement'', ''bind SQLite text'', ''bind attempt number'', ''bind SQLite text'', ''bind SQLite text'',
    ''bind attempt start'', ''insert attempt''] =
   [''prepare SQLite statement'', ''bind SQLite text'', ''bind attempt number'', ''bind SQLite text'', ''bind SQLite text'',
    ''bind attempt start''] @ [''insert attempt'']"
  by simp

lemma begin_attempt_body_does:
  assumes none: "checks f 0 [''begin attempt transaction''] = None"
  shows "does (begin_attempt_body key engine model t) f (begun db) (store_begin_attempt f key engine model t db)"
proof (cases "select_work (queued_row key) db")
  case None
  show ?thesis
    unfolding begin_attempt_body_def store_begin_attempt_def queued_row_eq Let_def None option.case checks_opening [OF none]
    by (rule read_does [OF _ refl]) (unfold None option.case, rule does_rollback, simp_all split: option.split)
next
  case (Some w)
  show ?thesis
  proof (cases "length (filter (queued_row key) (works db)) = 1")
    case False
    show ?thesis
      unfolding begin_attempt_body_def store_begin_attempt_def queued_row_eq Let_def Some option.case if_P [OF False] append_assoc
      unfolding checks_opening [OF none] unfolding checks_then [symmetric]
      by (rule read_does [OF _ refl], unfold Some option.case Let_def if_P [OF False],
          rule does_script, simp, rule does_rollback, simp, rule refl)
         (simp split: option.split)
  next
    case True
    then have one: "\<not> length (filter (queued_row key) (works db)) \<noteq> 1"
      by simp
    show ?thesis
      unfolding begin_attempt_body_def store_begin_attempt_def queued_row_eq Let_def Some option.case if_not_P [OF one] append_assoc
      unfolding insert_actions checks_opening [OF none] unfolding checks_then [symmetric]
      by (rule read_does [OF _ refl], unfold Some option.case Let_def if_not_P [OF one],
          rule does_script, simp, rule does_script, simp, rule does_insert, simp, rule does_commit, simp, rule refl, rule refl, rule refl)
         (simp add: update_works_def eval_nat_numeral cong: option.case_cong)
  qed
qed

lemma begin_attempt_does:
  "does_as_stored (txn_begin_attempt key engine model t) (\<lambda>f. store_begin_attempt f key engine model t)"
  unfolding txn_begin_attempt_def
  by (rule transaction_does [OF _ begin_attempt_body_does])
     (auto simp: store_begin_attempt_def checks_first Let_def split: option.split)

lemma recover_calls_does:
  "effects (recover_calls now w) db = recover_one now w db" "map fst (recover_calls now w) = recover_actions now w"
  by (simp_all add: recover_calls_def recover_one_def settle_failed_def recover_actions_def update_works_def)

lemma recover_all_calls:
  "effects (concat (map (recover_calls now) ws)) db = fold (recover_one now) ws db"
  "map fst (concat (map (recover_calls now) ws)) = concat (map (recover_actions now) ws)"
  by (induction ws arbitrary: db) (simp_all add: recover_calls_does)

lemma recover_body_does:
  assumes none: "checks f 0 [''begin restart recovery''] = None"
  shows "does (recover_body now) f (begun db) (store_recover_interrupted f now db)"
proof -
  let ?running = "filter (\<lambda>w. state w = ''RUNNING'') (works db)"
  let ?rest = "replicate (length ?running + 1) ''read running Work for recovery''
      @ concat (map (recover_actions now) ?running) @ [''commit restart recovery'']"
  have op: "store_recover_interrupted f now db =
      (case checks f (Suc 0) [''prepare SQLite statement''] of
         Some e \<Rightarrow> (Inl e, db)
       | None \<Rightarrow> (case checks f (Suc (length [''prepare SQLite statement''])) ?rest of
           Some e \<Rightarrow> (Inl e, db) | None \<Rightarrow> (Inr (), fold (recover_one now) ?running db)))"
    unfolding store_recover_interrupted_def Let_def checks_opening [OF none] ..
  show ?thesis
    unfolding recover_body_def op
    by (rule read_does [OF _ refl], unfold Let_def, rule script_commit_does)
       (simp_all add: recover_all_calls del: replicate_Suc split: option.split)
qed

lemma recover_does: "does_as_stored (txn_recover_interrupted now) (\<lambda>f. store_recover_interrupted f now)"
  unfolding txn_recover_interrupted_def
  by (rule transaction_does [OF _ recover_body_does])
     (auto simp: store_recover_interrupted_def checks_first Let_def split: option.split)

text \<open>
  A constructor that throws after the handle is open leaves it open; every other failure and a
  destructor give all handles back.
\<close>

lemma open_store_handles:
  "case open_store env handles of
     (Inr _, n) \<Rightarrow> close_store n = handles
   | (Inl e, n) \<Rightarrow> n = (if directory_error env = None \<and> open_error env = None then Suc handles else handles)"
  by (auto simp: open_store_def close_store_def split: option.split)

text \<open>
  The body of a transaction stopped at one of its calls, without the handler: this is the state in
  which a crash of the process at that call leaves the connection.
\<close>

definition crash_keeps :: "string \<Rightarrow> 'a prog \<Rightarrow> bool" where
  "crash_keeps action body \<longleftrightarrow>
     (\<forall>f db e c. checks f 0 [action] = None \<longrightarrow> body f (begun db) = (Inl e, c) \<longrightarrow> committed c = db)"

lemma does_crash_keeps:
  assumes "\<And>f db. checks f 0 [action] = None \<Longrightarrow> does body f (begun db) (op f db)"
  shows "crash_keeps action body"
  unfolding crash_keeps_def
proof (intro allI impI)
  fix f db e c
  assume "checks f 0 [action] = None" and "body f (begun db) = (Inl e, c)"
  then show "committed c = db"
    using assms [of f db] by (cases "op f db"; cases "fst (op f db)") (auto simp: does_def)
qed

section \<open>Properties\<close>

text \<open>
  C8: The operations of the store are transactions: each of the five that change both tables,
  run call by call on a connection, with whatever call failing, returns or throws what it does as
  one step, and leaves the connection idle with the tables of that step committed. And a crash does
  not tear the tables: wherever within its transaction one of them is stopped, the committed
  tables, which are what the next process finds, are those from before the operation.
\<close>

theorem operations_are_transactions:
  "does_as_stored (txn_begin_attempt key engine model t) (\<lambda>f. store_begin_attempt f key engine model t)
   \<and> does_as_stored (txn_finish_success key n t) (\<lambda>f. store_finish_success f key n t)
   \<and> does_as_stored (txn_finish_cancelled key n t) (\<lambda>f. store_finish_cancelled f key n t)
   \<and> does_as_stored (txn_finish_retryable_failure key n st failure t) (\<lambda>f. store_finish_retryable_failure f key n st failure t)
   \<and> does_as_stored (txn_recover_interrupted t) (\<lambda>f. store_recover_interrupted f t)
   \<and> crash_keeps ''begin attempt transaction'' (begin_attempt_body key engine model t)
   \<and> crash_keeps ''begin success transaction'' (finish_success_body key n t)
   \<and> crash_keeps ''begin cancel transaction'' (finish_cancelled_body key n t)
   \<and> crash_keeps ''begin failure transaction'' (finish_failure_body key n ''FAILED'' failure t)
   \<and> crash_keeps ''begin failure transaction'' (finish_failure_body key n ''TIMED_OUT'' failure t)
   \<and> crash_keeps ''begin restart recovery'' (recover_body t)"
  by (intro conjI begin_attempt_does finish_success_does finish_cancelled_does finish_failure_does recover_does
      does_crash_keeps [of "''begin attempt transaction''"] does_crash_keeps [of "''begin success transaction''"]
      does_crash_keeps [of "''begin cancel transaction''"] does_crash_keeps [of "''begin failure transaction''"]
      does_crash_keeps [of "''begin restart recovery''"];
      erule begin_attempt_body_does finish_success_body_does finish_cancelled_body_does recover_body_does
        finish_failure_body_does; simp)

end
