(* ===== verification/Store_Rows.thy ===== *)
theory Store_Rows
  imports Store_Invariant
begin

text \<open>
  The SQL of \<open>kernel/src/store.cpp\<close>: the statements that \<open>WorkStore\<close> prepares, with the values it
  binds to them, and \<open>read_work\<close>, which reads the columns of a row by their position. Theory \<open>Store\<close>
  models the tables as lists of records; here a row maps the names of its columns to SQL values,
  and each statement is shown to do to the rows what the operation does to the records.
\<close>

section \<open>Values, rows and statements\<close>

datatype sql_value = SqlNull | SqlInteger int | SqlText string

type_synonym row = "string \<Rightarrow> sql_value"

text \<open>An anonymous parameter \<open>?\<close> is numbered from 1; one that is not bound is \<open>NULL\<close>.\<close>

datatype operand = Param nat | Lit sql_value

fun operand_value :: "sql_value list \<Rightarrow> operand \<Rightarrow> sql_value" where
  "operand_value binds (Lit v) = v"
| "operand_value binds (Param i) = (if 1 \<le> i \<and> i \<le> length binds then binds ! (i - 1) else SqlNull)"

datatype condition = Equal string operand | NotNull string | AtMost string operand

text \<open>A comparison with \<open>NULL\<close> is not true. Only integers are compared by their order.\<close>

fun holds :: "sql_value list \<Rightarrow> row \<Rightarrow> condition \<Rightarrow> bool" where
  "holds binds r (Equal c x) \<longleftrightarrow> r c \<noteq> SqlNull \<and> r c = operand_value binds x"
| "holds binds r (NotNull c) \<longleftrightarrow> r c \<noteq> SqlNull"
| "holds binds r (AtMost c x) \<longleftrightarrow>
     (case (r c, operand_value binds x) of (SqlInteger i, SqlInteger j) \<Rightarrow> i \<le> j | _ \<Rightarrow> False)"

record update_statement =
  set_clause :: "(string \<times> operand) list"
  where_clause :: "condition list"

definition selected :: "update_statement \<Rightarrow> sql_value list \<Rightarrow> row \<Rightarrow> bool" where
  "selected st binds r = list_all (holds binds r) (where_clause st)"

definition assign_columns :: "update_statement \<Rightarrow> sql_value list \<Rightarrow> row \<Rightarrow> row" where
  "assign_columns st binds r = fold (\<lambda>(c, x) r. r(c := operand_value binds x)) (set_clause st) r"

definition execute_update :: "update_statement \<Rightarrow> sql_value list \<Rightarrow> row list \<Rightarrow> row list" where
  "execute_update st binds = map (\<lambda>r. if selected st binds r then assign_columns st binds r else r)"

text \<open>\<open>sqlite3_changes\<close> after it.\<close>

definition changed_rows :: "update_statement \<Rightarrow> sql_value list \<Rightarrow> row list \<Rightarrow> nat" where
  "changed_rows st binds rs = length (filter (selected st binds) rs)"

text \<open>\<open>INSERT\<close>: a column that is not named gets its default.\<close>

definition inserted_row :: "row \<Rightarrow> string list \<Rightarrow> operand list \<Rightarrow> sql_value list \<Rightarrow> row" where
  "inserted_row defaults columns values binds =
     fold (\<lambda>(c, x) r. r(c := operand_value binds x)) (zip columns values) defaults"

text \<open>What \<open>bind_text\<close> and \<open>bind_optional_i64\<close> bind.\<close>

definition bound_text :: "string \<Rightarrow> sql_value" where
  "bound_text s = SqlText (c_str s)"

definition bound_optional_i64 :: "i64 option \<Rightarrow> sql_value" where
  "bound_optional_i64 v = (case v of None \<Rightarrow> SqlNull | Some i \<Rightarrow> SqlInteger i)"

section \<open>Reading a row\<close>

text \<open>
  \<open>conv\<close> is how SQLite reads a text as an integer; the columns that are read as integers hold none.
  \<open>sqlite3_column_int\<close> keeps the lower 32 bits.
\<close>

definition wrap_i32 :: "int \<Rightarrow> int" where
  "wrap_i32 x = (x + 2147483648) mod 4294967296 - 2147483648"

definition column_text :: "sql_value \<Rightarrow> string" where
  "column_text v = (case v of SqlNull \<Rightarrow> [] | SqlInteger i \<Rightarrow> string_of_int i | SqlText s \<Rightarrow> s)"

definition column_int64 :: "(string \<Rightarrow> int) \<Rightarrow> sql_value \<Rightarrow> int" where
  "column_int64 conv v = (case v of SqlNull \<Rightarrow> 0 | SqlInteger i \<Rightarrow> i | SqlText s \<Rightarrow> conv s)"

definition column_int :: "(string \<Rightarrow> int) \<Rightarrow> sql_value \<Rightarrow> int" where
  "column_int conv v = wrap_i32 (column_int64 conv v)"

definition column_optional_i64 :: "(string \<Rightarrow> int) \<Rightarrow> sql_value \<Rightarrow> int option" where
  "column_optional_i64 conv v = (if v = SqlNull then None else Some (column_int64 conv v))"

definition kWorkColumns :: "string list" where
  "kWorkColumns =
     [''id'', ''work_type'', ''state'', ''effort'', ''urgency'', ''required_capabilities'', ''eligible_engine_ids'',
      ''exact_engine_id'', ''exact_model_id'', ''created_at_ms'', ''eligible_at_ms'', ''next_attempt_at_ms'',
      ''deadline_ms'', ''timeout_ms'', ''max_attempts'', ''retry_delay_ms'', ''attempt_count'', ''input_path'', ''result_path'',
      ''acknowledged'', ''cancel_requested'', ''selected_engine_id'', ''selected_model_id'', ''technical_failure'']"

definition read_work :: "(string \<Rightarrow> int) \<Rightarrow> sql_value list \<Rightarrow> WorkRecord" where
  "read_work conv columns =
     \<lparr>work_id = column_text (columns ! 0),
      work_type = column_text (columns ! 1),
      state = column_text (columns ! 2),
      effort = column_text (columns ! 3),
      urgency = column_text (columns ! 4),
      required_capabilities = column_text (columns ! 5),
      eligible_engine_ids = column_text (columns ! 6),
      exact_engine_id = column_text (columns ! 7),
      exact_model_id = column_text (columns ! 8),
      created_at_ms = column_int64 conv (columns ! 9),
      eligible_at_ms = column_int64 conv (columns ! 10),
      next_attempt_at_ms = column_int64 conv (columns ! 11),
      deadline_ms = column_optional_i64 conv (columns ! 12),
      timeout_ms = column_optional_i64 conv (columns ! 13),
      max_attempts = column_int conv (columns ! 14),
      retry_delay_ms = column_int64 conv (columns ! 15),
      attempt_count = column_int conv (columns ! 16),
      input_path = column_text (columns ! 17),
      result_path = column_text (columns ! 18),
      acknowledged = (column_int conv (columns ! 19) \<noteq> 0),
      cancel_requested = (column_int conv (columns ! 20) \<noteq> 0),
      selected_engine_id = column_text (columns ! 21),
      selected_model_id = column_text (columns ! 22),
      technical_failure = column_text (columns ! 23)\<rparr>"

section \<open>The statements on the table work\<close>

definition work_insert_columns :: "string list" where
  "work_insert_columns =
     [''id'', ''work_type'', ''state'', ''effort'', ''urgency'', ''required_capabilities'', ''eligible_engine_ids'',
      ''exact_engine_id'', ''exact_model_id'', ''created_at_ms'', ''eligible_at_ms'', ''next_attempt_at_ms'',
      ''deadline_ms'', ''timeout_ms'', ''max_attempts'', ''retry_delay_ms'', ''attempt_count'', ''input_path'', ''result_path'',
      ''acknowledged'', ''cancel_requested'', ''selected_engine_id'', ''selected_model_id'', ''technical_failure'']"

definition work_insert_values :: "operand list" where
  "work_insert_values =
     [Param 1, Param 2, Param 3, Param 4, Param 5, Param 6, Param 7, Param 8, Param 9, Param 10, Param 11, Param 12,
      Param 13, Param 14, Param 15, Param 16, Lit (SqlInteger 0), Param 17, Param 18, Lit (SqlInteger 0), Lit (SqlInteger 0),
      Lit (SqlText []), Lit (SqlText []), Lit (SqlText [])]"

definition submit_binds :: "WorkRecord \<Rightarrow> sql_value list" where
  "submit_binds w =
     [bound_text (work_id w), bound_text (work_type w), bound_text (state w), bound_text (effort w), bound_text (urgency w),
      bound_text (required_capabilities w), bound_text (eligible_engine_ids w), bound_text (exact_engine_id w),
      bound_text (exact_model_id w), SqlInteger (created_at_ms w), SqlInteger (eligible_at_ms w),
      SqlInteger (next_attempt_at_ms w), bound_optional_i64 (deadline_ms w), bound_optional_i64 (timeout_ms w),
      SqlInteger (max_attempts w), SqlInteger (retry_delay_ms w), bound_text (input_path w), bound_text (result_path w)]"

definition text_of :: "string \<Rightarrow> operand" where
  "text_of s = Lit (SqlText s)"

definition expire_statement :: update_statement where
  "expire_statement =
     \<lparr>set_clause = [(''state'', text_of ''FAILED''),
        (''technical_failure'', text_of ''DEADLINE_EXPIRED: Work deadline expired before dispatch'')],
      where_clause = [Equal ''state'' (text_of ''QUEUED''), NotNull ''deadline_ms'', AtMost ''deadline_ms'' (Param 1)]\<rparr>"

definition fail_queued_statement :: update_statement where
  "fail_queued_statement =
     \<lparr>set_clause = [(''state'', text_of ''FAILED''), (''technical_failure'', Param 1)],
      where_clause = [Equal ''id'' (Param 2), Equal ''state'' (text_of ''QUEUED'')]\<rparr>"

definition begin_statement :: update_statement where
  "begin_statement =
     \<lparr>set_clause = [(''state'', text_of ''RUNNING''), (''attempt_count'', Param 1), (''selected_engine_id'', Param 2),
        (''selected_model_id'', Param 3), (''technical_failure'', text_of [])],
      where_clause = [Equal ''id'' (Param 4), Equal ''state'' (text_of ''QUEUED''), Equal ''cancel_requested'' (Lit (SqlInteger 0))]\<rparr>"

definition succeed_statement :: update_statement where
  "succeed_statement =
     \<lparr>set_clause = [(''state'', text_of ''SUCCEEDED''), (''technical_failure'', text_of [])],
      where_clause = [Equal ''id'' (Param 1), Equal ''state'' (text_of ''RUNNING'')]\<rparr>"

text \<open>The same in \<open>finish_cancelled\<close>, \<open>finish_retryable_failure\<close> and, with another text, in \<open>recover_interrupted\<close>.\<close>

definition cancel_statement :: "string \<Rightarrow> update_statement" where
  "cancel_statement reason =
     \<lparr>set_clause = [(''state'', text_of ''CANCELLED''), (''technical_failure'', text_of reason)],
      where_clause = [Equal ''id'' (Param 1), Equal ''state'' (text_of ''RUNNING'')]\<rparr>"

definition retry_statement :: update_statement where
  "retry_statement =
     \<lparr>set_clause = [(''state'', text_of ''QUEUED''), (''next_attempt_at_ms'', Param 1), (''technical_failure'', Param 2),
        (''selected_engine_id'', text_of []), (''selected_model_id'', text_of [])],
      where_clause = [Equal ''id'' (Param 3), Equal ''state'' (text_of ''RUNNING'')]\<rparr>"

definition fail_statement :: update_statement where
  "fail_statement =
     \<lparr>set_clause = [(''state'', text_of ''FAILED''), (''technical_failure'', Param 1)],
      where_clause = [Equal ''id'' (Param 2), Equal ''state'' (text_of ''RUNNING'')]\<rparr>"

definition restart_retry_statement :: update_statement where
  "restart_retry_statement =
     \<lparr>set_clause = [(''state'', text_of ''QUEUED''), (''next_attempt_at_ms'', Param 1),
        (''technical_failure'', text_of ''Kernel restarted during active attempt''),
        (''selected_engine_id'', text_of []), (''selected_model_id'', text_of [])],
      where_clause = [Equal ''id'' (Param 2), Equal ''state'' (text_of ''RUNNING'')]\<rparr>"

definition restart_fail_statement :: update_statement where
  "restart_fail_statement =
     \<lparr>set_clause = [(''state'', text_of ''FAILED''), (''technical_failure'', text_of ''Kernel restarted during active attempt'')],
      where_clause = [Equal ''id'' (Param 1), Equal ''state'' (text_of ''RUNNING'')]\<rparr>"

definition cancel_queued_statement :: update_statement where
  "cancel_queued_statement =
     \<lparr>set_clause = [(''state'', text_of ''CANCELLED''), (''cancel_requested'', Lit (SqlInteger 1)),
        (''technical_failure'', text_of ''cancelled'')],
      where_clause = [Equal ''id'' (Param 1), Equal ''state'' (text_of ''QUEUED'')]\<rparr>"

definition request_cancel_statement :: update_statement where
  "request_cancel_statement =
     \<lparr>set_clause = [(''cancel_requested'', Lit (SqlInteger 1))],
      where_clause = [Equal ''id'' (Param 1), Equal ''state'' (text_of ''RUNNING'')]\<rparr>"

definition acknowledge_statement :: update_statement where
  "acknowledge_statement =
     \<lparr>set_clause = [(''acknowledged'', Lit (SqlInteger 1))],
      where_clause = [Equal ''id'' (Param 1), Equal ''state'' (text_of ''SUCCEEDED''), Equal ''acknowledged'' (Lit (SqlInteger 0))]\<rparr>"

section \<open>The statements on the table attempts\<close>

definition attempt_insert_columns :: "string list" where
  "attempt_insert_columns = [''work_id'', ''attempt_number'', ''engine_id'', ''model_id'', ''started_at_ms'', ''state'']"

definition attempt_insert_values :: "operand list" where
  "attempt_insert_values = [Param 1, Param 2, Param 3, Param 4, Param 5, text_of ''RUNNING'']"

text \<open>\<open>ended_at_ms\<close> has no default, \<open>technical_failure\<close> the empty text.\<close>

definition attempt_defaults :: row where
  "attempt_defaults = (\<lambda>_. SqlNull)(''technical_failure'' := SqlText [])"

definition succeed_attempt_statement :: update_statement where
  "succeed_attempt_statement =
     \<lparr>set_clause = [(''state'', text_of ''SUCCEEDED''), (''ended_at_ms'', Param 1), (''technical_failure'', text_of [])],
      where_clause = [Equal ''work_id'' (Param 2), Equal ''attempt_number'' (Param 3), Equal ''state'' (text_of ''RUNNING'')]\<rparr>"

definition cancel_attempt_statement :: update_statement where
  "cancel_attempt_statement =
     \<lparr>set_clause = [(''state'', text_of ''CANCELLED''), (''ended_at_ms'', Param 1), (''technical_failure'', text_of ''cancelled'')],
      where_clause = [Equal ''work_id'' (Param 2), Equal ''attempt_number'' (Param 3), Equal ''state'' (text_of ''RUNNING'')]\<rparr>"

definition fail_attempt_statement :: update_statement where
  "fail_attempt_statement =
     \<lparr>set_clause = [(''state'', Param 1), (''ended_at_ms'', Param 2), (''technical_failure'', Param 3)],
      where_clause = [Equal ''work_id'' (Param 4), Equal ''attempt_number'' (Param 5), Equal ''state'' (text_of ''RUNNING'')]\<rparr>"

definition interrupt_attempt_statement :: update_statement where
  "interrupt_attempt_statement =
     \<lparr>set_clause = [(''state'', text_of ''INTERRUPTED''), (''ended_at_ms'', Param 1),
        (''technical_failure'', text_of ''Kernel restarted during active attempt'')],
      where_clause = [Equal ''work_id'' (Param 2), Equal ''attempt_number'' (Param 3), Equal ''state'' (text_of ''RUNNING'')]\<rparr>"

section \<open>Which statement settles a failed attempt\<close>

definition failure_statement :: "string \<Rightarrow> string \<Rightarrow> i64 \<Rightarrow> WorkRecord \<Rightarrow> update_statement \<times> sql_value list" where
  "failure_statement key failure ended w =
     (if cancel_requested w then (cancel_statement ''cancelled'', [bound_text key])
      else if retry_permitted w ended
      then (retry_statement, [SqlInteger (add_i64 ended (retry_delay_ms w)), bound_text failure, bound_text key])
      else (fail_statement, [bound_text failure, bound_text key]))"

definition recovery_statement :: "i64 \<Rightarrow> WorkRecord \<Rightarrow> update_statement \<times> sql_value list" where
  "recovery_statement now w =
     (if cancel_requested w then (cancel_statement ''cancelled before restart recovery'', [bound_text (work_id w)])
      else if retry_permitted w now
      then (restart_retry_statement, [SqlInteger (add_i64 now (retry_delay_ms w)), bound_text (work_id w)])
      else (restart_fail_statement, [bound_text (work_id w)]))"

section \<open>Records as rows\<close>

definition row_from :: "(string \<times> sql_value) list \<Rightarrow> row" where
  "row_from cs c = (case map_of cs c of None \<Rightarrow> SqlNull | Some v \<Rightarrow> v)"

definition sql_bool :: "bool \<Rightarrow> sql_value" where
  "sql_bool b = SqlInteger (if b then 1 else 0)"

definition work_row :: "WorkRecord \<Rightarrow> row" where
  "work_row w = row_from
     [(''id'', SqlText (work_id w)), (''work_type'', SqlText (work_type w)), (''state'', SqlText (state w)),
      (''effort'', SqlText (effort w)), (''urgency'', SqlText (urgency w)),
      (''required_capabilities'', SqlText (required_capabilities w)), (''eligible_engine_ids'', SqlText (eligible_engine_ids w)),
      (''exact_engine_id'', SqlText (exact_engine_id w)), (''exact_model_id'', SqlText (exact_model_id w)),
      (''created_at_ms'', SqlInteger (created_at_ms w)), (''eligible_at_ms'', SqlInteger (eligible_at_ms w)),
      (''next_attempt_at_ms'', SqlInteger (next_attempt_at_ms w)), (''deadline_ms'', bound_optional_i64 (deadline_ms w)),
      (''timeout_ms'', bound_optional_i64 (timeout_ms w)), (''max_attempts'', SqlInteger (max_attempts w)),
      (''retry_delay_ms'', SqlInteger (retry_delay_ms w)), (''attempt_count'', SqlInteger (attempt_count w)),
      (''input_path'', SqlText (input_path w)), (''result_path'', SqlText (result_path w)),
      (''acknowledged'', sql_bool (acknowledged w)), (''cancel_requested'', sql_bool (cancel_requested w)),
      (''selected_engine_id'', SqlText (selected_engine_id w)), (''selected_model_id'', SqlText (selected_model_id w)),
      (''technical_failure'', SqlText (technical_failure w))]"

definition attempt_row :: "AttemptRecord \<Rightarrow> row" where
  "attempt_row a = row_from
     [(''work_id'', SqlText (attempt_work_id a)), (''attempt_number'', SqlInteger (attempt_number a)),
      (''engine_id'', SqlText (attempt_engine_id a)), (''model_id'', SqlText (attempt_model_id a)),
      (''started_at_ms'', SqlInteger (started_at_ms a)), (''ended_at_ms'', bound_optional_i64 (ended_at_ms a)),
      (''state'', SqlText (attempt_state a)), (''technical_failure'', SqlText (attempt_failure a))]"

definition rows :: "Db \<Rightarrow> row list \<times> row list" where
  "rows db = (map work_row (works db), map attempt_row (attempts db))"

lemma row_from_upd:
  "c \<in> fst ` set cs \<Longrightarrow> (row_from cs)(c := v) = row_from (map (\<lambda>(d, x). (d, if d = c then v else x)) cs)"
proof -
  have "map_of (map (\<lambda>(d, x). (d, if d = c then v else x)) cs) e = (if e = c then map_option (\<lambda>_. v) (map_of cs c) else map_of cs e)" for e
    by (induction cs) auto
  moreover assume "c \<in> fst ` set cs"
  then have "map_of cs c \<noteq> None"
    by (simp add: map_of_eq_None_iff)
  ultimately show ?thesis
    by (auto simp: row_from_def fun_eq_iff)
qed

lemma work_row_upd [simp]:
  "(work_row w)(''state'' := SqlText s) = work_row (w\<lparr>state := s\<rparr>)"
  "(work_row w)(''technical_failure'' := SqlText s) = work_row (w\<lparr>technical_failure := s\<rparr>)"
  "(work_row w)(''selected_engine_id'' := SqlText s) = work_row (w\<lparr>selected_engine_id := s\<rparr>)"
  "(work_row w)(''selected_model_id'' := SqlText s) = work_row (w\<lparr>selected_model_id := s\<rparr>)"
  "(work_row w)(''attempt_count'' := SqlInteger i) = work_row (w\<lparr>attempt_count := i\<rparr>)"
  "(work_row w)(''next_attempt_at_ms'' := SqlInteger i) = work_row (w\<lparr>next_attempt_at_ms := i\<rparr>)"
  "(work_row w)(''cancel_requested'' := SqlInteger 1) = work_row (w\<lparr>cancel_requested := True\<rparr>)"
  "(work_row w)(''acknowledged'' := SqlInteger 1) = work_row (w\<lparr>acknowledged := True\<rparr>)"
  unfolding work_row_def by (simp_all add: row_from_upd sql_bool_def)

lemma attempt_row_end:
  "(attempt_row a)(''state'' := SqlText s, ''ended_at_ms'' := SqlInteger i, ''technical_failure'' := SqlText m)
     = attempt_row (end_attempt s i m a)"
  unfolding attempt_row_def by (simp add: row_from_upd end_attempt_def bound_optional_i64_def)

lemma work_row_columns [simp]:
  "work_row w ''id'' = SqlText (work_id w)" "work_row w ''state'' = SqlText (state w)"
  "work_row w ''deadline_ms'' = bound_optional_i64 (deadline_ms w)"
  "work_row w ''acknowledged'' = sql_bool (acknowledged w)" "work_row w ''cancel_requested'' = sql_bool (cancel_requested w)"
  by (simp_all add: work_row_def row_from_def)

lemma attempt_row_columns [simp]:
  "attempt_row a ''work_id'' = SqlText (attempt_work_id a)" "attempt_row a ''attempt_number'' = SqlInteger (attempt_number a)"
  "attempt_row a ''state'' = SqlText (attempt_state a)"
  by (simp_all add: attempt_row_def row_from_def)

section \<open>The contract of a statement\<close>

text \<open>
  A statement, with the values bound to it, on the rows of records: it selects the rows of those
  that satisfy \<open>P\<close> and makes of each the row of its image under \<open>g\<close>.
\<close>

locale row_update =
  fixes row_of :: "'a \<Rightarrow> row" and st :: update_statement and binds :: "sql_value list"
    and P :: "'a \<Rightarrow> bool" and g :: "'a \<Rightarrow> 'a"
  assumes selects: "selected st binds (row_of x) \<longleftrightarrow> P x"
    and assigns: "assign_columns st binds (row_of x) = row_of (g x)"
begin

lemma executes: "execute_update st binds (map row_of xs) = map row_of (map (\<lambda>x. if P x then g x else x) xs)"
  by (simp add: execute_update_def selects assigns)

lemma changes: "changed_rows st binds (map row_of xs) = length (filter P xs)"
  by (simp add: changed_rows_def filter_map o_def selects)

end

locale work_update = row_update work_row st binds P g for st binds P g
begin

lemma rows_updated: "rows (update_works P g db) = apfst (execute_update st binds) (rows db)"
  by (simp add: rows_def executes)

lemma rows_changed: "changed_rows st binds (fst (rows db)) = length (filter P (works db))"
  by (simp add: rows_def changes)

end

locale attempt_update = row_update attempt_row st binds P g for st binds P g
begin

lemma rows_ended: "rows (update_attempts P g db) = apsnd (execute_update st binds) (rows db)"
  by (simp add: rows_def executes)

end

text \<open>Every statement of the store keeps it, with the condition and the change of the model.\<close>

lemmas statement_eval = selected_def assign_columns_def text_of_def bound_text_def running_work_def running_attempt_def sql_bool_def

interpretation expire: work_update expire_statement "[SqlInteger t]"
    "\<lambda>w. state w = ''QUEUED'' \<and> (case deadline_ms w of None \<Rightarrow> False | Some d \<Rightarrow> d \<le> t)"
    "\<lambda>w. w\<lparr>state := ''FAILED'', technical_failure := deadline_expired_text\<rparr>" for t
  by unfold_locales
    (auto simp: statement_eval expire_statement_def bound_optional_i64_def deadline_expired_text_def split: option.splits)

interpretation fail_queued: work_update fail_queued_statement "[bound_text failure, bound_text key]"
    "\<lambda>w. work_id w = c_str key \<and> state w = ''QUEUED''" "\<lambda>w. w\<lparr>state := ''FAILED'', technical_failure := c_str failure\<rparr>"
    for failure key
  by unfold_locales (auto simp: statement_eval fail_queued_statement_def)

interpretation begin_attempt: work_update begin_statement "[SqlInteger n, bound_text engine, bound_text model, bound_text key]"
    "\<lambda>w. work_id w = c_str key \<and> state w = ''QUEUED'' \<and> \<not> cancel_requested w"
    "\<lambda>w. w\<lparr>state := ''RUNNING'', attempt_count := n, selected_engine_id := c_str engine, selected_model_id := c_str model,
       technical_failure := []\<rparr>" for n engine model key
  by unfold_locales (auto simp: statement_eval begin_statement_def)

interpretation succeed: work_update succeed_statement "[bound_text key]" "running_work (c_str key)"
    "\<lambda>w. w\<lparr>state := ''SUCCEEDED'', technical_failure := []\<rparr>" for key
  by unfold_locales (auto simp: statement_eval succeed_statement_def)

interpretation cancel_running: work_update "cancel_statement reason" "[bound_text key]" "running_work (c_str key)"
    "\<lambda>w. w\<lparr>state := ''CANCELLED'', technical_failure := reason\<rparr>" for reason key
  by unfold_locales (auto simp: statement_eval cancel_statement_def)

interpretation retry: work_update retry_statement "[SqlInteger i, bound_text failure, bound_text key]" "running_work (c_str key)"
    "\<lambda>w. w\<lparr>state := ''QUEUED'', next_attempt_at_ms := i, technical_failure := c_str failure, selected_engine_id := [],
       selected_model_id := []\<rparr>" for i failure key
  by unfold_locales (auto simp: statement_eval retry_statement_def)

interpretation fail_running: work_update fail_statement "[bound_text failure, bound_text key]" "running_work (c_str key)"
    "\<lambda>w. w\<lparr>state := ''FAILED'', technical_failure := c_str failure\<rparr>" for failure key
  by unfold_locales (auto simp: statement_eval fail_statement_def)

interpretation restart_retry: work_update restart_retry_statement "[SqlInteger i, bound_text key]" "running_work (c_str key)"
    "\<lambda>w. w\<lparr>state := ''QUEUED'', next_attempt_at_ms := i, technical_failure := restart_text, selected_engine_id := [],
       selected_model_id := []\<rparr>" for i key
  by unfold_locales (auto simp: statement_eval restart_retry_statement_def restart_text_def)

interpretation restart_fail: work_update restart_fail_statement "[bound_text key]" "running_work (c_str key)"
    "\<lambda>w. w\<lparr>state := ''FAILED'', technical_failure := restart_text\<rparr>" for key
  by unfold_locales (auto simp: statement_eval restart_fail_statement_def restart_text_def)

interpretation cancel_queued: work_update cancel_queued_statement "[bound_text key]"
    "\<lambda>w. work_id w = c_str key \<and> state w = ''QUEUED''"
    "\<lambda>w. w\<lparr>state := ''CANCELLED'', cancel_requested := True, technical_failure := ''cancelled''\<rparr>" for key
  by unfold_locales (auto simp: statement_eval cancel_queued_statement_def)

interpretation request_cancel: work_update request_cancel_statement "[bound_text key]" "running_work (c_str key)"
    "\<lambda>w. w\<lparr>cancel_requested := True\<rparr>" for key
  by unfold_locales (auto simp: statement_eval request_cancel_statement_def)

interpretation acknowledge: work_update acknowledge_statement "[bound_text key]"
    "\<lambda>w. work_id w = c_str key \<and> state w = ''SUCCEEDED'' \<and> \<not> acknowledged w" "\<lambda>w. w\<lparr>acknowledged := True\<rparr>" for key
  by unfold_locales (auto simp: statement_eval acknowledge_statement_def)

interpretation succeed_attempt: attempt_update succeed_attempt_statement "[SqlInteger t, bound_text key, SqlInteger n]"
    "running_attempt (c_str key) n" "end_attempt ''SUCCEEDED'' t []" for t key n
  by unfold_locales (simp_all add: statement_eval attempt_row_end succeed_attempt_statement_def)

interpretation cancel_attempt: attempt_update cancel_attempt_statement "[SqlInteger t, bound_text key, SqlInteger n]"
    "running_attempt (c_str key) n" "end_attempt ''CANCELLED'' t ''cancelled''" for t key n
  by unfold_locales (simp_all add: statement_eval attempt_row_end cancel_attempt_statement_def)

interpretation fail_attempt: attempt_update fail_attempt_statement
    "[bound_text s, SqlInteger t, bound_text failure, bound_text key, SqlInteger n]"
    "running_attempt (c_str key) n" "end_attempt (c_str s) t (c_str failure)" for s t failure key n
  by unfold_locales (simp_all add: statement_eval attempt_row_end fail_attempt_statement_def)

interpretation interrupt_attempt: attempt_update interrupt_attempt_statement "[SqlInteger t, bound_text key, SqlInteger n]"
    "running_attempt (c_str key) n" "end_attempt ''INTERRUPTED'' t restart_text" for t key n
  by unfold_locales (simp_all add: statement_eval attempt_row_end interrupt_attempt_statement_def restart_text_def)

section \<open>The operations on rows\<close>

lemma inserted_work:
  "inserted_row (\<lambda>_. SqlNull) work_insert_columns work_insert_values (submit_binds w) = work_row (bound_row w)"
  by (simp add: inserted_row_def work_insert_columns_def work_insert_values_def submit_binds_def work_row_def bound_row_def
      bound_text_def fun_eq_iff row_from_def sql_bool_def)

lemma inserted_attempt:
  "inserted_row attempt_defaults attempt_insert_columns attempt_insert_values
     [bound_text key, SqlInteger n, bound_text engine, bound_text model, SqlInteger t] =
   attempt_row \<lparr>attempt_work_id = c_str key, attempt_number = n, attempt_engine_id = c_str engine,
     attempt_model_id = c_str model, started_at_ms = t, ended_at_ms = None, attempt_state = ''RUNNING'', attempt_failure = []\<rparr>"
  by (simp add: inserted_row_def attempt_defaults_def attempt_insert_columns_def attempt_insert_values_def attempt_row_def
      bound_text_def fun_eq_iff row_from_def text_of_def bound_optional_i64_def)

lemma rows_begin_attempt:
  "case store_begin_attempt None key engine model t db of
     (Inl e, db') \<Rightarrow> db' = db
   | (Inr n, db') \<Rightarrow> n = 0 \<and> db' = db
       \<or> changed_rows begin_statement [SqlInteger n, bound_text engine, bound_text model, bound_text key] (fst (rows db)) = 1
         \<and> rows db' = map_prod (execute_update begin_statement [SqlInteger n, bound_text engine, bound_text model, bound_text key])
             (\<lambda>rs. rs @ [inserted_row attempt_defaults attempt_insert_columns attempt_insert_values
                [bound_text key, SqlInteger n, bound_text engine, bound_text model, SqlInteger t]]) (rows db)"
proof -
  have added: "rows (d\<lparr>attempts := xs\<rparr>) = (fst (rows d), map attempt_row xs)" for d xs
    by (simp add: rows_def)
  have attempts: "snd (rows d) = map attempt_row (attempts d)" for d
    by (simp add: rows_def)
  show ?thesis
    by (auto simp: store_begin_attempt_def Let_def begin_attempt.rows_changed added attempts map_prod_def case_prod_unfold
        begin_attempt.rows_updated inserted_attempt split: option.split)
qed

lemma settle_failed_updates:
  "work_update (fst (failure_statement key failure t w)) (snd (failure_statement key failure t w)) (running_work (c_str key))
     (settle_failed ''cancelled'' (c_str failure) t w)"
  "work_update (fst (recovery_statement t w)) (snd (recovery_statement t w)) (running_work (c_str (work_id w)))
     (settle_failed ''cancelled before restart recovery'' restart_text t w)"
  using cancel_running.work_update_axioms retry.work_update_axioms fail_running.work_update_axioms
    restart_retry.work_update_axioms restart_fail.work_update_axioms
  by (auto simp: failure_statement_def recovery_statement_def settle_failed_def [abs_def])

lemma rows_finish_failure:
  assumes "st = ''FAILED'' \<or> st = ''TIMED_OUT''"
  shows "rows (snd (store_finish_retryable_failure None key n st failure t db)) =
    (case select_work (running_work (c_str key)) db of
       None \<Rightarrow> rows db
     | Some w \<Rightarrow>
         map_prod (execute_update (fst (failure_statement key failure t w)) (snd (failure_statement key failure t w)))
           (execute_update fail_attempt_statement [bound_text st, SqlInteger t, bound_text failure, bound_text key, SqlInteger n])
           (rows db))"
proof -
  have "c_str st = st"
    using assms by (auto simp: c_str_def)
  then have "rows (update_attempts (running_attempt (c_str key) n) (end_attempt st t (c_str failure)) db) =
      apsnd (execute_update fail_attempt_statement [bound_text st, SqlInteger t, bound_text failure, bound_text key, SqlInteger n]) (rows db)"
    using fail_attempt.rows_ended [of key n st t failure db] by simp
  then show ?thesis
    using assms work_update.rows_updated [OF settle_failed_updates(1)]
    by (auto simp: store_finish_retryable_failure_def Let_def rows_def split: option.split)
qed

lemma rows_recover_one:
  assumes "c_str (work_id w) = work_id w"
  shows "rows (recover_one t w db) =
    map_prod (execute_update (fst (recovery_statement t w)) (snd (recovery_statement t w)))
      (execute_update interrupt_attempt_statement [SqlInteger t, bound_text (work_id w), SqlInteger (attempt_count w)]) (rows db)"
  using work_update.rows_updated [OF settle_failed_updates(2) [of t w]] interrupt_attempt.rows_ended [of "work_id w" "attempt_count w" t] assms
  by (auto simp: recover_one_def rows_def)

lemma rows_cancel:
  "rows (snd (store_cancel None key db)) =
    (case select_work (\<lambda>w. work_id w = c_str key) db of
       None \<Rightarrow> rows db
     | Some w \<Rightarrow>
         if state w = ''QUEUED'' then apfst (execute_update cancel_queued_statement [bound_text key]) (rows db)
         else if state w = ''RUNNING'' then apfst (execute_update request_cancel_statement [bound_text key]) (rows db)
         else rows db)"
  using cancel_queued.rows_updated request_cancel.rows_updated
  by (auto simp: store_cancel_def Let_def split: option.split)

lemma wrap_i32_id: "- i32_max - 1 \<le> x \<Longrightarrow> x \<le> i32_max \<Longrightarrow> wrap_i32 x = x"
  by (simp add: wrap_i32_def i32_max_def)

section \<open>Properties\<close>


text \<open>A record that fills every column.\<close>

definition full_work :: WorkRecord where
  "full_work =
     \<lparr>work_id = ''w1'', work_type = ''text'', state = ''RUNNING'', effort = ''HIGH'', urgency = ''NORMAL'',
      required_capabilities = ''a,b'', eligible_engine_ids = ''e1,e2'', exact_engine_id = ''e1'', exact_model_id = ''m1'',
      created_at_ms = 1, eligible_at_ms = 2, next_attempt_at_ms = 3, deadline_ms = Some 4, timeout_ms = None,
      max_attempts = 5, retry_delay_ms = 6, attempt_count = 7, input_path = ''in'', result_path = ''out'',
      acknowledged = False, cancel_requested = True, selected_engine_id = ''e2'', selected_model_id = ''m2'',
      technical_failure = ''f''\<rparr>"


text \<open>
  C9: The SQL does what the model of the store does: on the rows of any tables, each statement
  that \<open>WorkStore\<close> executes, with the values it binds, changes the rows as the operation of the
  store changes the records, for every operation that writes and every branch of it. The count of
  changed rows decides whether an attempt begins and what an acknowledgement answers.
\<close>

theorem statements_implement_store:
  "rows (snd (store_expire_queued_deadlines None t db)) = apfst (execute_update expire_statement [SqlInteger t]) (rows db)
   \<and> rows (snd (store_fail_queued None key failure db)) =
       apfst (execute_update fail_queued_statement [bound_text failure, bound_text key]) (rows db)
   \<and> (case store_submit None w db of
        (Inl e, db') \<Rightarrow> db' = db
      | (Inr _, db') \<Rightarrow> rows db' =
          apfst (\<lambda>rs. rs @ [inserted_row (\<lambda>_. SqlNull) work_insert_columns work_insert_values (submit_binds w)]) (rows db))
   \<and> (case store_begin_attempt None key engine model t db of
        (Inl e, db') \<Rightarrow> db' = db
      | (Inr n, db') \<Rightarrow> n = 0 \<and> db' = db
          \<or> changed_rows begin_statement [SqlInteger n, bound_text engine, bound_text model, bound_text key] (fst (rows db)) = 1
            \<and> rows db' = map_prod (execute_update begin_statement [SqlInteger n, bound_text engine, bound_text model, bound_text key])
                (\<lambda>rs. rs @ [inserted_row attempt_defaults attempt_insert_columns attempt_insert_values
                   [bound_text key, SqlInteger n, bound_text engine, bound_text model, SqlInteger t]]) (rows db))
   \<and> rows (snd (store_finish_success None key n t db)) =
       map_prod (execute_update succeed_statement [bound_text key])
         (execute_update succeed_attempt_statement [SqlInteger t, bound_text key, SqlInteger n]) (rows db)
   \<and> rows (snd (store_finish_cancelled None key n t db)) =
       map_prod (execute_update (cancel_statement ''cancelled'') [bound_text key])
         (execute_update cancel_attempt_statement [SqlInteger t, bound_text key, SqlInteger n]) (rows db)
   \<and> (\<forall>st \<in> {''FAILED'', ''TIMED_OUT''}. rows (snd (store_finish_retryable_failure None key n st failure t db)) =
       (case select_work (running_work (c_str key)) db of
          None \<Rightarrow> rows db
        | Some v \<Rightarrow>
            map_prod (execute_update (fst (failure_statement key failure t v)) (snd (failure_statement key failure t v)))
              (execute_update fail_attempt_statement [bound_text st, SqlInteger t, bound_text failure, bound_text key, SqlInteger n])
              (rows db)))
   \<and> (c_str (work_id w) = work_id w \<longrightarrow> rows (recover_one t w db) =
       map_prod (execute_update (fst (recovery_statement t w)) (snd (recovery_statement t w)))
         (execute_update interrupt_attempt_statement [SqlInteger t, bound_text (work_id w), SqlInteger (attempt_count w)]) (rows db))
   \<and> rows (snd (store_cancel None key db)) =
       (case select_work (\<lambda>w. work_id w = c_str key) db of
          None \<Rightarrow> rows db
        | Some v \<Rightarrow>
            if state v = ''QUEUED'' then apfst (execute_update cancel_queued_statement [bound_text key]) (rows db)
            else if state v = ''RUNNING'' then apfst (execute_update request_cancel_statement [bound_text key]) (rows db)
            else rows db)
   \<and> store_acknowledge None key db =
       (Inr (changed_rows acknowledge_statement [bound_text key] (fst (rows db)) = 1), snd (store_acknowledge None key db))
   \<and> rows (snd (store_acknowledge None key db)) = apfst (execute_update acknowledge_statement [bound_text key]) (rows db)"
proof (intro conjI)
  show "case store_submit None w db of
        (Inl e, db') \<Rightarrow> db' = db
      | (Inr _, db') \<Rightarrow> rows db' =
          apfst (\<lambda>rs. rs @ [inserted_row (\<lambda>_. SqlNull) work_insert_columns work_insert_values (submit_binds w)]) (rows db)"
    by (simp add: store_submit_def Let_def inserted_work rows_def)
  show "\<forall>st \<in> {''FAILED'', ''TIMED_OUT''}. rows (snd (store_finish_retryable_failure None key n st failure t db)) =
       (case select_work (running_work (c_str key)) db of
          None \<Rightarrow> rows db
        | Some v \<Rightarrow>
            map_prod (execute_update (fst (failure_statement key failure t v)) (snd (failure_statement key failure t v)))
              (execute_update fail_attempt_statement [bound_text st, SqlInteger t, bound_text failure, bound_text key, SqlInteger n])
              (rows db))"
    using rows_finish_failure by simp
  show "rows (snd (store_finish_success None key n t db)) =
       map_prod (execute_update succeed_statement [bound_text key])
         (execute_update succeed_attempt_statement [SqlInteger t, bound_text key, SqlInteger n]) (rows db)"
    using succeed.rows_updated [of key] succeed_attempt.rows_ended [of key n t db]
    by (simp add: store_finish_success_def rows_def)
  show "rows (snd (store_finish_cancelled None key n t db)) =
       map_prod (execute_update (cancel_statement ''cancelled'') [bound_text key])
         (execute_update cancel_attempt_statement [SqlInteger t, bound_text key, SqlInteger n]) (rows db)"
    using cancel_running.rows_updated [of key "''cancelled''"] cancel_attempt.rows_ended [of key n t db]
    by (simp add: store_finish_cancelled_def rows_def)
qed (use rows_begin_attempt rows_recover_one rows_cancel expire.rows_updated fail_queued.rows_updated
      acknowledge.rows_updated acknowledge.rows_changed
    in \<open>simp_all add: store_expire_queued_deadlines_def store_fail_queued_def store_acknowledge_def Let_def\<close>)

text \<open>A running Work whose cancellation was requested, after a failure and after a restart.\<close>

theorem statements_implement_store_witness:
  "let db = \<lparr>works = [full_work], attempts = []\<rparr>
   in rows (recover_one 10 full_work db) =
        map_prod (execute_update (cancel_statement ''cancelled before restart recovery'') [SqlText ''w1''])
          (execute_update interrupt_attempt_statement [SqlInteger 10, SqlText ''w1'', SqlInteger 7]) (rows db)
      \<and> rows (snd (store_finish_retryable_failure None ''w1'' 7 ''FAILED'' ''x'' 10 db)) =
        map_prod (execute_update (cancel_statement ''cancelled'') [SqlText ''w1''])
          (execute_update fail_attempt_statement [SqlText ''FAILED'', SqlInteger 10, SqlText ''x'', SqlText ''w1'', SqlInteger 7]) (rows db)"
proof -
  let ?db = "\<lparr>works = [full_work], attempts = []\<rparr>"
  note at = statements_implement_store [where db = ?db and t = 10 and key = "''w1''" and failure = "''x''" and w = full_work and n = 7]
  have plain: "c_str ''w1'' = ''w1''" "c_str ''x'' = ''x''" "c_str ''FAILED'' = ''FAILED''"
    by (simp_all add: c_str_def)
  have full: "work_id full_work = ''w1''" "cancel_requested full_work" "attempt_count full_work = 7" "state full_work = ''RUNNING''"
    by (simp_all add: full_work_def)
  have found: "select_work (running_work (c_str ''w1'')) ?db = Some full_work"
    by (simp add: select_work_def running_work_def plain full)
  have "rows (recover_one 10 full_work ?db) =
      map_prod (execute_update (fst (recovery_statement 10 full_work)) (snd (recovery_statement 10 full_work)))
        (execute_update interrupt_attempt_statement [SqlInteger 10, bound_text ''w1'', SqlInteger 7]) (rows ?db)"
    using at plain full by metis
  moreover have "rows (snd (store_finish_retryable_failure None ''w1'' 7 ''FAILED'' ''x'' 10 ?db)) =
      map_prod (execute_update (fst (failure_statement ''w1'' ''x'' 10 full_work)) (snd (failure_statement ''w1'' ''x'' 10 full_work)))
        (execute_update fail_attempt_statement [bound_text ''FAILED'', SqlInteger 10, bound_text ''x'', bound_text ''w1'', SqlInteger 7])
        (rows ?db)"
    using at found by (metis (no_types, lifting) insertI1 option.simps(5))
  ultimately show ?thesis
    by (simp add: Let_def failure_statement_def recovery_statement_def bound_text_def plain full)
qed

end
