(* ===== verification/Llama_Worker.thy ===== *)
theory Llama_Worker
  imports Worker_Execute
begin

text \<open>
  The worker process of \<open>kernel/workers/llamacpp/main.cpp\<close>: its command line, the generation loop,
  the answer to one request and the loop over requests. The llama.cpp library is a parameter: a
  record of the functions the worker calls, over an arbitrary type of contexts. The calls that
  create, use and free library objects are recorded in a trace.
\<close>

section \<open>Options\<close>

record llama_options =
  lo_engine_id :: string
  lo_model_path :: string
  lo_n_predict :: int
  lo_context_size :: u32
  lo_gpu_layers :: int

definition default_llama_options :: llama_options where
  "default_llama_options =
     \<lparr>lo_engine_id = [], lo_model_path = [], lo_n_predict = 64, lo_context_size = 512, lo_gpu_layers = 0\<rparr>"

definition llama_usage :: exn where
  "llama_usage = RuntimeError (''usage: madre-llamacpp-worker --engine-id <id> --model <gguf> ''
     @ ''[--n-predict N] [--ctx-size N] [--gpu-layers N]'')"

text \<open>\<open>static_cast<std::uint32_t>(std::stoul(...))\<close> with a 64-bit \<open>unsigned long\<close>.\<close>

definition stoul_u32 :: "string \<Rightarrow> u32 result" where
  "stoul_u32 s =
     (case stoull s of
        Inr n \<Rightarrow> Inr (ucast n)
      | Inl (OutOfRange _) \<Rightarrow> Inl (OutOfRange ''stoul'')
      | Inl _ \<Rightarrow> Inl (InvalidArgument ''stoul''))"

fun parse_llama_arguments :: "string list \<Rightarrow> llama_options \<Rightarrow> llama_options result" where
  "parse_llama_arguments [] opts = Inr opts"
| "parse_llama_arguments [argument] opts = Inl llama_usage"
| "parse_llama_arguments (argument # v # rest) opts =
     bind_result
       (if argument = ''--engine-id'' then Inr (opts\<lparr>lo_engine_id := v\<rparr>)
        else if argument = ''--model'' then Inr (opts\<lparr>lo_model_path := v\<rparr>)
        else if argument = ''--n-predict'' then bind_result (stoi v) (\<lambda>n. Inr (opts\<lparr>lo_n_predict := n\<rparr>))
        else if argument = ''--ctx-size'' then bind_result (stoul_u32 v) (\<lambda>n. Inr (opts\<lparr>lo_context_size := n\<rparr>))
        else if argument = ''--gpu-layers'' then bind_result (stoi v) (\<lambda>n. Inr (opts\<lparr>lo_gpu_layers := n\<rparr>))
        else Inl llama_usage)
       (parse_llama_arguments rest)"

definition parse_llama_options :: "string list \<Rightarrow> llama_options result" where
  "parse_llama_options argv =
     bind_result (parse_llama_arguments argv default_llama_options) (\<lambda>opts.
       if lo_engine_id opts = [] \<or> lo_model_path opts = [] \<or> lo_n_predict opts < 1
          \<or> lo_context_size opts < 32 \<or> lo_gpu_layers opts < 0
       then Inl (RuntimeError ''invalid llama.cpp worker configuration'')
       else Inr opts)"

section \<open>The library\<close>

text \<open>
  \<open>api_tokenize\<close> and \<open>api_token_piece\<close> get the capacity of the caller's buffer and give the
  returned number with the content of the buffer after the call; a negative number asks for a
  larger buffer.
\<close>

type_synonym token = int

record 'c llama =
  api_tokenize :: "string \<Rightarrow> nat \<Rightarrow> int \<times> token list"
  api_new_context :: "u32 \<Rightarrow> u32 \<Rightarrow> 'c option"
  api_new_sampler :: bool
  api_decode :: "'c \<Rightarrow> token list \<Rightarrow> int \<times> 'c"
  api_sample :: "'c \<Rightarrow> token \<times> 'c"
  api_is_eog :: "token \<Rightarrow> bool"
  api_token_piece :: "token \<Rightarrow> nat \<Rightarrow> int \<times> byte list"

datatype llama_call = NewContext | NewSampler | Decode nat | FreeSampler | FreeContext

section \<open>Generation\<close>

definition token_piece :: "'c llama \<Rightarrow> token \<Rightarrow> byte list result" where
  "token_piece lib token =
     (case api_token_piece lib token 256 of
        (n, fixed) \<Rightarrow>
          if n \<ge> 0 then Inr (take (nat n) fixed)
          else (case api_token_piece lib token (nat (- n)) of
                  (n2, dynamic) \<Rightarrow>
                    if n2 < 0 then Inl (RuntimeError ''failed to convert generated token to bytes'')
                    else Inr (take (nat n2) dynamic)))"

definition tokenize :: "'c llama \<Rightarrow> string \<Rightarrow> token list result" where
  "tokenize lib prompt =
     (let required = - fst (api_tokenize lib prompt 0)
      in if required \<le> 0 then Inl (RuntimeError ''failed to size prompt tokenization'')
         else (case api_tokenize lib prompt (nat required) of
                 (actual, tokens) \<Rightarrow>
                   if actual < 0 then Inl (RuntimeError ''failed to tokenize prompt'')
                   else Inr (take (nat actual) (tokens @ replicate (nat actual) 0))))"

text \<open>The loop, with the number of tokens still to generate.\<close>

fun generate_loop :: "'c llama \<Rightarrow> nat \<Rightarrow> 'c \<Rightarrow> byte list \<Rightarrow> byte list result \<times> llama_call list" where
  "generate_loop lib 0 context result = (Inr result, [])"
| "generate_loop lib (Suc n) context result =
     (case api_sample lib context of
        (token, ctx1) \<Rightarrow>
          if api_is_eog lib token then (Inr result, [])
          else case token_piece lib token of
            Inl e \<Rightarrow> (Inl e, [])
          | Inr piece \<Rightarrow>
              if length result + length piece > kMaxPayload
              then (Inl (RuntimeError ''generated result exceeds bounded C1 payload''), [])
              else (case api_decode lib ctx1 [token] of
                      (rc, ctx2) \<Rightarrow>
                        if rc \<noteq> 0 then (Inl (RuntimeError ''failed to evaluate generated token''), [Decode 1])
                        else (case generate_loop lib n ctx2 (result @ piece) of
                                (r, calls) \<Rightarrow> (r, Decode 1 # calls))))"

definition generate :: "llama_options \<Rightarrow> 'c llama \<Rightarrow> byte list \<Rightarrow> byte list result \<times> llama_call list" where
  "generate opts lib data =
     (case tokenize lib (string_of_bytes data) of
        Inl e \<Rightarrow> (Inl e, [])
      | Inr prompt_tokens \<Rightarrow>
          if length prompt_tokens + nat (lo_n_predict opts) + 1 > unat (lo_context_size opts)
          then (Inl (RuntimeError ''prompt plus configured generation exceeds worker context size''), [])
          else
            (case api_new_context lib (lo_context_size opts)
                    (min (lo_context_size opts) (max 32 (of_nat (length prompt_tokens)))) of
               None \<Rightarrow> (Inl (RuntimeError ''failed to create llama context''), [])
             | Some context \<Rightarrow>
                 if \<not> api_new_sampler lib
                 then (Inl (RuntimeError ''failed to create llama sampler''), [NewContext, FreeContext])
                 else
                   (case api_decode lib context prompt_tokens of
                      (rc, ctx1) \<Rightarrow>
                        (case if rc \<noteq> 0 then (Inl (RuntimeError ''failed to evaluate prompt''), [])
                              else generate_loop lib (nat (lo_n_predict opts)) ctx1 [] of
                           (r, calls) \<Rightarrow>
                             (r, [NewContext, NewSampler, Decode (length prompt_tokens)] @ calls
                                 @ [FreeSampler, FreeContext])))))"

section \<open>Requests\<close>

definition failure_frame :: "Frame \<Rightarrow> string \<Rightarrow> Frame" where
  "failure_frame request m =
     \<lparr>frame_type = WorkerFailure, correlation_id = correlation_id request,
      metadata = [(''technical_failure'', ''LLAMACPP_WORKER_FAILURE: '' @ m)], payload = []\<rparr>"

definition send_failure :: "Frame \<Rightarrow> string \<Rightarrow> write_event list \<Rightarrow> byte list \<times> unit io" where
  "send_failure request m ws = write_frame (failure_frame request m) ws"

text \<open>
  \<open>execute\<close>: what is written to the standard output and how the call ends. The answer is written
  in the scope of the catch clause, which then writes a second frame.
\<close>

definition worker_execute ::
    "llama_options \<Rightarrow> 'c llama \<Rightarrow> Frame \<Rightarrow> write_event list \<Rightarrow> write_event list \<Rightarrow> byte list \<times> unit io" where
  "worker_execute opts lib request ws ws_failure =
     (if frame_type request \<noteq> WorkerExecute then send_failure request ''unsupported worker request'' ws
      else case metadata_value request ''engine_id'' of
        Inl e \<Rightarrow> ([], Throw e)
      | Inr eid \<Rightarrow>
          if eid \<noteq> lo_engine_id opts then send_failure request ''engine identity mismatch'' ws
          else (case fst (generate opts lib (payload request)) of
            Inl e \<Rightarrow> send_failure request (what e) ws
          | Inr result \<Rightarrow>
              (case write_frame \<lparr>frame_type = WorkerResult, correlation_id = correlation_id request,
                                  metadata = [], payload = result\<rparr> ws of
                 (sent, Throw e) \<Rightarrow>
                   (case send_failure request (what e) ws_failure of (more_sent, r) \<Rightarrow> (sent @ more_sent, r))
               | (sent, r) \<Rightarrow> (sent, r))))"

text \<open>The bytes that are still to be read, a bound on the requests that can follow.\<close>

definition pending_bytes :: "read_event list \<Rightarrow> nat" where
  "pending_bytes es = (\<Sum>e\<leftarrow>es. length (event_bytes e))"

lemma pending_bytes_simps [simp]:
  "pending_bytes [] = 0" "pending_bytes (e # es) = length (event_bytes e) + pending_bytes es"
  by (simp_all add: pending_bytes_def)

lemma pending_unread: "pending_bytes (unread bs es) = length bs + pending_bytes es"
  by (cases bs) (simp_all add: unread_def)

lemma read_exact_pending:
  "read_exact n es out = (Return bs, es') \<Longrightarrow> pending_bytes es' + n = pending_bytes es"
proof (induction es arbitrary: n out)
  case Nil
  then show ?case by (cases "n = 0") (simp_all add: read_exact_simps)
next
  case (Cons e es)
  consider "n = 0" | (whole) b xs where "e = Chunk b xs" "Suc (length xs) \<le> n"
    | (part) b xs where "0 < n" "e = Chunk b xs" "n \<le> length xs" | (other) "0 < n" "\<forall>b xs. e \<noteq> Chunk b xs"
    by (cases e) (auto, metis gr0I not_less_eq_eq)
  then show ?case
  proof cases
    case whole
    then show ?thesis
      using Cons.IH [of "n - Suc (length xs)"] Cons.prems by (fastforce simp: read_exact_simps)
  next
    case part
    then show ?thesis
      using Cons.prems by (auto simp: read_exact_simps pending_unread)
  next
    case other
    then show ?thesis
      using Cons.IH [of n] Cons.prems by (cases e) (auto simp: read_exact_simps read_exact.simps [of n])
  qed (use Cons.prems in \<open>simp add: read_exact_simps\<close>)
qed

lemma read_frame_pending:
  assumes "read_frame es = (Return f, es')"
  shows "pending_bytes es' < pending_bytes es"
proof -
  obtain hb es1 where h: "read_exact kHeaderSize es [] = (Return hb, es1)"
    using assms by (auto simp: read_frame_def split: prod.splits io.splits)
  then obtain h' :: header and md es2 pl where m: "read_exact (unat (h_metadata_length h')) es1 [] = (Return md, es2)"
    and p: "read_exact (unat (h_payload_length h')) es2 [] = (Return pl, es')"
    using assms by (auto simp: read_frame_def split: prod.splits io.splits sum.splits)
  show ?thesis
    using read_exact_pending [OF h] read_exact_pending [OF m] read_exact_pending [OF p] by (simp add: kHeaderSize_def)
qed

text \<open>
  The loop of \<open>main\<close>: the bytes written and the exit status, \<open>None\<close> while the worker waits for
  input or for its output to be read. Each request has its own script of write calls.
\<close>

function worker_main ::
    "llama_options \<Rightarrow> 'c llama \<Rightarrow> read_event list \<Rightarrow> (nat \<Rightarrow> write_event list \<times> write_event list) \<Rightarrow> byte list \<times> int option" where
  "worker_main opts lib es ws =
     (case read_frame es of
        (Blocked, _) \<Rightarrow> ([], None)
      | (Throw e, _) \<Rightarrow> ([], Some (if what e = ''peer closed framed IPC'' then 0 else 1))
      | (Return request, rest) \<Rightarrow>
          (case worker_execute opts lib request (fst (ws 0)) (snd (ws 0)) of
             (sent, Blocked) \<Rightarrow> (sent, None)
           | (sent, Throw e) \<Rightarrow> (sent, Some 1)
           | (sent, Return _) \<Rightarrow>
               (case worker_main opts lib rest (\<lambda>i. ws (Suc i)) of
                  (more_sent, status) \<Rightarrow> (sent @ more_sent, status))))"
  by pat_completeness auto
termination
  by (relation "measure (\<lambda>(opts, lib, es, ws). pending_bytes es)") (auto dest: read_frame_pending [OF sym])

declare worker_main.simps [simp del]

text \<open>\<open>main\<close>: whether the library loads the model file and finds a vocabulary in it are arguments.\<close>

definition llama_main ::
    "string list \<Rightarrow> (string \<Rightarrow> int \<Rightarrow> bool) \<Rightarrow> bool \<Rightarrow> 'c llama \<Rightarrow> read_event list \<Rightarrow>
     (nat \<Rightarrow> write_event list \<times> write_event list) \<Rightarrow> byte list \<times> int option" where
  "llama_main argv load vocab lib es ws =
     (case bind_result (parse_llama_options argv) (\<lambda>opts.
             if \<not> load (lo_model_path opts) (lo_gpu_layers opts)
             then Inl (RuntimeError ''failed to load configured GGUF model'')
             else if \<not> vocab then Inl (RuntimeError ''loaded model has no vocabulary'')
             else Inr opts) of
        Inl e \<Rightarrow> ([], Some 1)
      | Inr opts \<Rightarrow> worker_main opts lib es ws)"

section \<open>Lemmas\<close>

lemma generate_loop_calls:
  "generate_loop lib n ctx result = (r, calls) \<Longrightarrow> \<exists>k \<le> n. calls = replicate k (Decode 1)"
proof (induction n arbitrary: ctx result r calls)
  case (Suc n)
  obtain token ctx1 where sample: "api_sample lib ctx = (token, ctx1)"
    by fastforce
  obtain rc ctx2 where decode: "api_decode lib ctx1 [token] = (rc, ctx2)"
    by fastforce
  consider (none) "calls = []" | (one) "calls = [Decode 1]"
    | (more_calls) piece rest where "generate_loop lib n ctx2 (result @ piece) = (r, rest)" "calls = Decode 1 # rest"
    using Suc.prems sample decode by (auto split: if_splits sum.splits prod.splits)
  then show ?case
  proof cases
    case more_calls
    then obtain k where "k \<le> n" "rest = replicate k (Decode 1)"
      using Suc.IH by blast
    then show ?thesis
      using more_calls(2) by (intro exI [of _ "Suc k"]) simp
  qed (auto intro: exI [of _ "0 :: nat"] exI [of _ "1 :: nat"])
qed simp

lemma generate_loop_bounded:
  "generate_loop lib n ctx result = (Inr res, calls) \<Longrightarrow> length result \<le> kMaxPayload \<Longrightarrow> length res \<le> kMaxPayload"
proof (induction n arbitrary: ctx result calls)
  case (Suc n)
  obtain token ctx1 where sample: "api_sample lib ctx = (token, ctx1)"
    by fastforce
  obtain rc ctx2 where decode: "api_decode lib ctx1 [token] = (rc, ctx2)"
    by fastforce
  consider "res = result" | piece rest where "generate_loop lib n ctx2 (result @ piece) = (Inr res, rest)"
      "length (result @ piece) \<le> kMaxPayload"
    using Suc.prems(1) sample decode by (auto split: if_splits sum.splits prod.splits)
  then show ?case
    using Suc.IH Suc.prems(2) by cases auto
qed simp

text \<open>The texts the worker reports are short and have no line breaks.\<close>

definition plain_text :: "string \<Rightarrow> bool" where
  "plain_text m \<longleftrightarrow> \<not> bad_value m \<and> length m \<le> 100"

lemma generate_loop_error:
  "generate_loop lib n ctx result = (Inl e, calls) \<Longrightarrow> plain_text (what e)"
proof (induction n arbitrary: ctx result calls)
  case (Suc n)
  obtain token ctx1 where sample: "api_sample lib ctx = (token, ctx1)"
    by fastforce
  obtain rc ctx2 where decode: "api_decode lib ctx1 [token] = (rc, ctx2)"
    by fastforce
  have piece: "plain_text (what x)" if "token_piece lib token = Inl x" for x
    using that by (auto simp: token_piece_def plain_text_def bad_value_def split: prod.splits if_splits)
  show ?case
    using Suc.prems Suc.IH sample decode piece
    by (auto simp: plain_text_def bad_value_def split: if_splits sum.splits prod.splits)
qed simp

lemma generate_error:
  assumes "fst (generate opts lib data) = Inl e"
  shows "plain_text (what e)"
proof -
  have tok: "plain_text (what x)" if "tokenize lib p = Inl x" for p x
    using that by (auto simp: tokenize_def plain_text_def bad_value_def Let_def split: prod.splits if_splits)
  show ?thesis
    using assms tok generate_loop_error [of lib]
    by (auto simp: generate_def plain_text_def bad_value_def split: sum.splits if_splits option.splits prod.splits)
qed

lemma generate_result:
  assumes "fst (generate opts lib data) = Inr res"
  shows "length res \<le> kMaxPayload"
  using assms generate_loop_bounded [of lib]
  by (fastforce simp: generate_def split: sum.splits if_splits option.splits prod.splits)

definition reply_frame :: "llama_options \<Rightarrow> 'c llama \<Rightarrow> Frame \<Rightarrow> Frame" where
  "reply_frame opts lib request =
     (case fst (generate opts lib (payload request)) of
        Inl e \<Rightarrow> failure_frame request (what e)
      | Inr res \<Rightarrow> \<lparr>frame_type = WorkerResult, correlation_id = correlation_id request, metadata = [], payload = res\<rparr>)"

lemma failure_frame_encodes:
  assumes "plain_text m"
  shows "\<exists>bs. encode_frame (failure_frame request m) = Inr bs"
proof -
  have ok: "\<not> bad_key ''technical_failure''" "\<not> bad_value (''LLAMACPP_WORKER_FAILURE: '' @ m)" "length m \<le> 100"
    using assms by (auto simp: bad_key_def bad_value_def plain_text_def)
  then show ?thesis
    by (simp add: failure_frame_def encode_frame_def bind_result_def kMaxMetadata_def kMaxPayload_def Let_def)
qed

lemma reply_frame_encodes: "\<exists>bs. encode_frame (reply_frame opts lib request) = Inr bs"
proof (cases "fst (generate opts lib (payload request))")
  case (Inl e)
  then show ?thesis
    using failure_frame_encodes [OF generate_error [OF Inl]] by (simp add: reply_frame_def)
next
  case (Inr res)
  then show ?thesis
    using generate_result [OF Inr] by (simp add: reply_frame_def encode_frame_def bind_result_def kMaxMetadata_def Let_def)
qed

lemma reply_frame_wf: "wf_frame (reply_frame opts lib request)"
  by (simp add: reply_frame_def wf_frame_def failure_frame_def well_typed_def split: sum.split)

text \<open>Write calls that make progress.\<close>

fun progresses :: "write_event \<Rightarrow> bool" where
  "progresses (Accept n) = (0 < n)"
| "progresses WriteInterrupted = True"
| "progresses (WriteError m) = False"

lemma write_exact_progresses:
  "list_all progresses ws \<Longrightarrow> snd (write_exact data ws sent) \<noteq> Throw e"
proof (induction data ws sent rule: write_exact.induct)
  case (1 data ws sent)
  show ?case
  proof (cases ws)
    case Nil
    then show ?thesis by (simp add: write_exact.simps [of data])
  next
    case (Cons w ws')
    then show ?thesis
      using 1 by (cases w) (auto simp: write_exact.simps [of data "_ # _"])
  qed
qed

lemma worker_execute_reply:
  assumes "frame_type request = WorkerExecute" and "metadata_value request ''engine_id'' = Inr (lo_engine_id opts)"
    and "list_all progresses ws"
  shows "worker_execute opts lib request ws ws2 = write_frame (reply_frame opts lib request) ws"
proof (cases "fst (generate opts lib (payload request))")
  case (Inl e)
  then show ?thesis
    using assms by (simp add: worker_execute_def send_failure_def reply_frame_def)
next
  case (Inr res)
  obtain bs where "encode_frame (reply_frame opts lib request) = Inr bs"
    using reply_frame_encodes by blast
  then obtain sent r where w: "write_frame (reply_frame opts lib request) ws = (sent, r)" "\<And>e. r \<noteq> Throw e"
    using write_exact_progresses [OF assms(3), of bs "[]"] by (cases "write_exact bs ws []") (auto simp: write_frame_def)
  then show ?thesis
    using assms Inr by (cases r) (auto simp: worker_execute_def reply_frame_def)
qed

section \<open>Properties\<close>

text \<open>
  C20: The worker and the Kernel understand each other: a request that the Kernel writes for an
  engine is answered by the worker of that engine with one frame which the Kernel, however the
  bytes are cut on the way, takes as the end of that very attempt: as a success with the generated
  bytes, within the payload limit, or as a technical failure with the worker's message, never as a
  protocol violation, so the process stays in use.
\<close>

theorem worker_answers_kernel:
  assumes "lo_engine_id opts = worker_engine_id w"
    and "worker_execute opts lib (execute_request w (call_correlation call) started data) ws ws2 = (sent, Return ())"
    and "list_all progresses ws"
    and "list_all2 delivers ess bss" and "\<forall>xs \<in> set bss. length xs \<le> kReadBudget" and "concat bss = sent"
  shows "\<exists>reply. read_turns [] ess = (Inr (Some reply), [])
    \<and> (case fst (generate opts lib data) of
         Inr result \<Rightarrow> length result \<le> kMaxPayload \<and> finish_response call reply w =
           (\<lparr>outcome_kind = Succeeded, outcome_payload = result, technical_failure_text = []\<rparr>, w)
       | Inl e \<Rightarrow> finish_response call reply w =
           (outcome TechnicalFailure (''LLAMACPP_WORKER_FAILURE: '' @ what e), w))"
proof -
  let ?request = "execute_request w (call_correlation call) started data"
  let ?reply = "reply_frame opts lib ?request"
  have request: "frame_type ?request = WorkerExecute" "metadata_value ?request ''engine_id'' = Inr (lo_engine_id opts)"
    "correlation_id ?request = call_correlation call" "payload ?request = data"
    by (simp_all add: execute_request_def metadata_value_def map_assign_all_def assms(1))
  obtain bs where enc: "encode_frame ?reply = Inr bs"
    using reply_frame_encodes by blast
  have "write_exact bs ws [] = (sent, Return ())"
    using worker_execute_reply [OF request(1,2) assms(3), of lib ws2] assms(2) enc by (simp add: write_frame_def)
  then have sent: "sent = bs"
    using write_exact_prefix by fastforce
  then have "bss \<noteq> []"
    using assms(6) enc by (auto simp: encode_frame_def header_bytes_def kMagic_def bind_result_Inr_iff split: if_splits)
  then have "read_turns [] ess = (Inr (Some ?reply), [])"
    using read_turns_encoded [OF enc reply_frame_wf assms(4,5), of "[]"] assms(6) sent by simp
  moreover have "case fst (generate opts lib data) of
         Inr result \<Rightarrow> length result \<le> kMaxPayload \<and> finish_response call ?reply w =
           (\<lparr>outcome_kind = Succeeded, outcome_payload = result, technical_failure_text = []\<rparr>, w)
       | Inl e \<Rightarrow> finish_response call ?reply w =
           (outcome TechnicalFailure (''LLAMACPP_WORKER_FAILURE: '' @ what e), w)"
    using generate_result [of opts lib data] request(3,4)
    by (auto simp: reply_frame_def finish_response_def failure_frame_def split: sum.split)
  ultimately show ?thesis by blast
qed

text \<open>A library with one token, for concrete runs: every prompt is one token and \<open>7\<close> ends the text.\<close>

definition sample_llama :: "nat llama" where
  "sample_llama = \<lparr>api_tokenize = (\<lambda>prompt n. if n = 0 then (- 1, []) else (1, [3])),
     api_new_context = (\<lambda>n batch. Some 0), api_new_sampler = True,
     api_decode = (\<lambda>ctx tokens. (0, ctx + 1)), api_sample = (\<lambda>ctx. (if ctx = 3 then 7 else 5, ctx)),
     api_is_eog = (\<lambda>token. token = 7), api_token_piece = (\<lambda>token n. (1, [104]))\<rparr>"

definition sample_llama_options :: llama_options where
  "sample_llama_options = \<lparr>lo_engine_id = ''e'', lo_model_path = ''m'', lo_n_predict = 4, lo_context_size = 32, lo_gpu_layers = 0\<rparr>"

lemma sample_generated:
  "generate sample_llama_options sample_llama [1, 2] =
     (Inr [104, 104], [NewContext, NewSampler, Decode 1, Decode 1, Decode 1, FreeSampler, FreeContext])"
proof -
  have four: "nat (lo_n_predict sample_llama_options) = Suc (Suc (Suc (Suc 0)))"
    by (simp add: sample_llama_options_def)
  have loop: "generate_loop sample_llama (Suc (Suc (Suc (Suc 0)))) (Suc 0) [] = (Inr [104, 104], [Decode (Suc 0), Decode (Suc 0)])"
    by (simp add: token_piece_def sample_llama_def kMaxPayload_def)
  have "tokenize sample_llama p = Inr [3]" "api_new_context sample_llama a b = Some 0" "api_new_sampler sample_llama"
    "api_decode sample_llama 0 [3] = (0, Suc 0)" "lo_context_size sample_llama_options = 32" for p a b
    by (simp_all add: tokenize_def sample_llama_def sample_llama_options_def)
  then show ?thesis
    using loop by (simp add: generate_def four del: generate_loop.simps)
qed

theorem worker_answers_kernel_witness:
  "\<exists>sent reply. worker_execute sample_llama_options sample_llama (execute_request sample_worker 7 10 [1, 2]) [Accept 100000] []
       = (sent, Return ())
     \<and> finish_response sample_call reply sample_worker =
         (\<lparr>outcome_kind = Succeeded, outcome_payload = [104, 104], technical_failure_text = []\<rparr>, sample_worker)"
proof -
  let ?request = "execute_request sample_worker 7 10 [1, 2]"
  let ?reply = "\<lparr>frame_type = WorkerResult, correlation_id = 7, metadata = [], payload = [104, 104]\<rparr>"
  have req: "frame_type ?request = WorkerExecute" "metadata_value ?request ''engine_id'' = Inr ''e''" "payload ?request = [1, 2]"
    "correlation_id ?request = 7"
    by (simp_all add: execute_request_def metadata_value_def map_assign_all_def sample_worker_def)
  have call: "call_correlation sample_call = 7" "lo_engine_id sample_llama_options = worker_engine_id sample_worker"
    by (simp_all add: sample_call_def sample_llama_options_def sample_worker_def)
  obtain b bs where enc: "encode_frame ?reply = Inr (b # bs)" and len: "length (b # bs) \<le> 60000"
    by (simp add: frame_eval)
  then have "write_frame ?reply [Accept 100000] = (b # bs, Return ())"
    by (simp add: write_frame_def write_exact.simps [of "_ # _"] write_exact.simps [of "[]"])
  then have sent: "worker_execute sample_llama_options sample_llama ?request [Accept 100000] [] = (b # bs, Return ())"
    using req call(2) by (simp add: worker_execute_def sample_generated sample_worker_def)
  have "\<exists>reply. read_turns [] [[Chunk b bs]] = (Inr (Some reply), [])
    \<and> (case fst (generate sample_llama_options sample_llama [1, 2]) of
         Inr result \<Rightarrow> length result \<le> kMaxPayload \<and> finish_response sample_call reply sample_worker =
           (\<lparr>outcome_kind = Succeeded, outcome_payload = result, technical_failure_text = []\<rparr>, sample_worker)
       | Inl e \<Rightarrow> finish_response sample_call reply sample_worker =
           (outcome TechnicalFailure (''LLAMACPP_WORKER_FAILURE: '' @ what e), sample_worker))"
    by (rule worker_answers_kernel [of _ _ _ _ 10 "[1, 2]" "[Accept 100000]" "[]" "b # bs" _ "[b # bs]"])
       (use sent call len in \<open>simp_all add: delivers_def kReadBudget_def\<close>)
  with sent show ?thesis
    by (auto simp: sample_generated)
qed

text \<open>
  C36: The library is used within its bounds on every path, errors included: a context and a
  sampler are created at most once and then freed once, in the reverse order and after their last
  use; the tokens evaluated in a context are fewer than its configured size; and a generated
  result respects the payload limit.
\<close>

theorem generation_within_bounds:
  "case generate opts lib data of (r, calls) \<Rightarrow>
     (calls = [] \<or> calls = [NewContext, FreeContext]
      \<or> (\<exists>ns. calls = [NewContext, NewSampler] @ map Decode ns @ [FreeSampler, FreeContext]
            \<and> sum_list ns < unat (lo_context_size opts)))
     \<and> (case r of Inl e \<Rightarrow> True | Inr result \<Rightarrow> length result \<le> kMaxPayload)"
proof -
  obtain r calls where g: "generate opts lib data = (r, calls)"
    by fastforce
  have bounded: "case r of Inl e \<Rightarrow> True | Inr result \<Rightarrow> length result \<le> kMaxPayload"
    using generate_result [of opts lib data] g by (auto split: sum.split)
  consider "calls = [] \<or> calls = [NewContext, FreeContext]"
    | (ran) p ctx calls' r' where "p + nat (lo_n_predict opts) + 1 \<le> unat (lo_context_size opts)"
        "calls' = [] \<or> generate_loop lib (nat (lo_n_predict opts)) ctx [] = (r', calls')"
        "calls = [NewContext, NewSampler, Decode p] @ calls' @ [FreeSampler, FreeContext]"
    using g by (auto simp: generate_def split: sum.splits if_splits option.splits prod.splits) blast
  then show ?thesis
  proof cases
    case ran
    then obtain k where k: "k \<le> nat (lo_n_predict opts)" "calls' = replicate k (Decode 1)"
      using generate_loop_calls [of lib "nat (lo_n_predict opts)" ctx "[]" r' calls'] by force
    have "calls = [NewContext, NewSampler] @ map Decode (p # replicate k 1) @ [FreeSampler, FreeContext]"
      using ran(3) k(2) by simp
    moreover have "sum_list (p # replicate k 1) < unat (lo_context_size opts)"
      using ran(1) k(1) by (simp add: sum_list_replicate)
    ultimately show ?thesis
      unfolding g using bounded by blast
  qed (use g bounded in auto)
qed

end
