(* ===== verification/Windows_Command_Line.thy ===== *)
theory Windows_Command_Line
  imports Workers "HOL-Library.Word"
begin

text \<open>
  The command line of a worker on Windows: \<open>quote_windows_argument\<close> and \<open>worker_command_line\<close> of
  \<open>kernel/src/worker_runtime.cpp\<close>. Windows hands one string to a new process, and the C runtime of
  that process cuts it into \<open>argv\<close>; the reference here is the set of rules that the runtime
  documents for it. A \<open>wchar_t\<close> of Windows is a 16-bit word.

  The conversion of an argument from UTF-8 is a call of the operating system and a parameter.
\<close>

type_synonym wchar = "16 word"
type_synonym wstring = "wchar list"

abbreviation wspace :: wchar where "wspace \<equiv> 32"
abbreviation wtab :: wchar where "wtab \<equiv> 9"
abbreviation wquote :: wchar where "wquote \<equiv> 34"
abbreviation wslash :: wchar where "wslash \<equiv> 92"

section \<open>Quoting\<close>

text \<open>The loop of \<open>quote_windows_argument\<close> with its counter \<open>slashes\<close>, and what follows it.\<close>

fun quote_loop :: "nat \<Rightarrow> wstring \<Rightarrow> wstring" where
  "quote_loop slashes [] = replicate (slashes * 2) wslash @ [wquote]"
| "quote_loop slashes (ch # rest) =
     (if ch = wslash then quote_loop (Suc slashes) rest
      else if ch = wquote then replicate (slashes * 2 + 1) wslash @ wquote # quote_loop 0 rest
      else replicate slashes wslash @ ch # quote_loop 0 rest)"

definition needs_quotes :: "wstring \<Rightarrow> bool" where
  "needs_quotes s \<longleftrightarrow> list_ex (\<lambda>ch. ch = wspace \<or> ch = wtab \<or> ch = wquote) s"

definition quote_windows_argument :: "wstring \<Rightarrow> wstring" where
  "quote_windows_argument s =
     (if s = [] then [wquote, wquote]
      else if \<not> needs_quotes s then s
      else wquote # quote_loop 0 s)"

section \<open>The command line\<close>

text \<open>
  \<open>MultiByteToWideChar\<close> with \<open>MB_ERR_INVALID_CHARS\<close> is called twice: for the number of characters,
  which fails on a text that is not UTF-8, and for the characters.
\<close>

record utf8_calls =
  wide_count :: "string \<Rightarrow> string + nat"
  wide_chars :: "string \<Rightarrow> wstring"

definition utf8_to_wide :: "utf8_calls \<Rightarrow> string \<Rightarrow> wstring result" where
  "utf8_to_wide calls s =
     (if s = [] then Inr []
      else case wide_count calls s of
        Inl m \<Rightarrow> Inl (RuntimeError (''worker argument is not valid UTF-8: Windows error '' @ m))
      | Inr n \<Rightarrow>
          if length (wide_chars calls s) \<noteq> n
          then Inl (RuntimeError ''convert worker argument to Windows UTF-16 failed'')
          else Inr (wide_chars calls s))"

fun append_arguments :: "utf8_calls \<Rightarrow> string list \<Rightarrow> wstring \<Rightarrow> wstring result" where
  "append_arguments calls [] line = Inr line"
| "append_arguments calls (a # rest) line =
     (case utf8_to_wide calls a of
        Inl e \<Rightarrow> Inl e
      | Inr w \<Rightarrow> append_arguments calls rest (line @ [wspace] @ quote_windows_argument w))"

text \<open>\<open>program\<close> is \<open>launch.executable.wstring()\<close>, which a path of Windows holds as it is.\<close>

definition worker_command_line :: "utf8_calls \<Rightarrow> wstring \<Rightarrow> string list \<Rightarrow> wstring result" where
  "worker_command_line calls program args = append_arguments calls args (quote_windows_argument program)"

section \<open>What the worker receives\<close>

text \<open>
  The documented rules. Arguments are separated by spaces and tabs; a double quote opens or closes
  a quoted part, in which blanks are kept and two double quotes stand for one; backslashes stand
  for themselves unless a double quote follows: then each pair is one backslash, and the double
  quote is literal after an odd number of them. In the program name double quotes only protect
  blanks and backslashes stand for themselves. \<open>CreateProcessW\<close> takes the text up to the first
  null character.
\<close>

definition blank :: "wchar \<Rightarrow> bool" where
  "blank ch \<longleftrightarrow> ch = wspace \<or> ch = wtab"

fun crt_program :: "bool \<Rightarrow> wstring \<Rightarrow> wstring \<Rightarrow> wstring \<times> wstring" where
  "crt_program quoted acc [] = (acc, [])"
| "crt_program quoted acc (ch # rest) =
     (if ch = wquote then crt_program (\<not> quoted) acc rest
      else if blank ch \<and> \<not> quoted then (acc, ch # rest)
      else crt_program quoted (acc @ [ch]) rest)"

fun crt_argument :: "bool \<Rightarrow> nat \<Rightarrow> wstring \<Rightarrow> wstring \<Rightarrow> wstring \<times> wstring" where
  "crt_argument quoted slashes acc [] = (acc @ replicate slashes wslash, [])"
| "crt_argument quoted slashes acc (ch # rest) =
     (if ch = wslash then crt_argument quoted (Suc slashes) acc rest
      else if ch = wquote then
        (let acc1 = acc @ replicate (slashes div 2) wslash
         in if odd slashes then crt_argument quoted 0 (acc1 @ [wquote]) rest
            else if quoted \<and> rest \<noteq> [] \<and> hd rest = wquote then crt_argument quoted 0 (acc1 @ [wquote]) (tl rest)
            else crt_argument (\<not> quoted) 0 acc1 rest)
      else if blank ch \<and> \<not> quoted then (acc @ replicate slashes wslash, ch # rest)
      else crt_argument quoted 0 (acc @ replicate slashes wslash @ [ch]) rest)"

lemma crt_argument_shorter: "length (snd (crt_argument q n acc s)) \<le> length s"
proof (induction s arbitrary: q n acc rule: length_induct)
  case (1 s)
  show ?case
  proof (cases s)
    case (Cons ch rest)
    have "length rest < length s" "length (tl rest) < length s"
      by (auto simp: Cons)
    then have "length (snd (crt_argument q n acc rest)) \<le> Suc (length rest)"
      "length (snd (crt_argument q n acc (tl rest))) \<le> Suc (length rest)" for q n acc
      using 1 [rule_format, of rest q n acc] 1 [rule_format, of "tl rest" q n acc] by simp_all
    then show ?thesis
      by (simp add: Cons Let_def)
  qed simp
qed

function crt_arguments :: "wstring \<Rightarrow> wstring list" where
  "crt_arguments s =
     (case dropWhile blank s of
        [] \<Rightarrow> []
      | ch # rest \<Rightarrow> (case crt_argument False 0 [] (ch # rest) of (a, rest1) \<Rightarrow> a # crt_arguments rest1))"
  by pat_completeness auto

termination
proof (relation "measure length", goal_cases)
  case (2 s ch rest a rest1)
  have "\<not> blank ch"
    using 2(1) by (metis dropWhile_eq_Cons_conv)
  then have "length (snd (crt_argument False 0 [] (ch # rest))) \<le> length rest"
    using crt_argument_shorter [of _ _ _ rest] by (simp add: Let_def)
  moreover have "length (ch # rest) \<le> length s"
    using length_dropWhile_le [of blank s] 2(1) by simp
  ultimately show ?case
    by (simp del: crt_argument.simps flip: 2(2))
qed simp

declare crt_arguments.simps [simp del]

definition crt_argv :: "wstring \<Rightarrow> wstring list" where
  "crt_argv line = (case crt_program False [] (takeWhile (\<lambda>ch. ch \<noteq> 0) line) of (program, rest) \<Rightarrow> program # crt_arguments rest)"

section \<open>Lemmas\<close>

lemma crt_argument_slashes:
  "crt_argument q n acc (replicate k wslash @ s) = crt_argument q (n + k) acc s"
  by (induction k arbitrary: n) simp_all

text \<open>An argument ends where the line ends or a blank follows.\<close>

definition ends_argument :: "wstring \<Rightarrow> bool" where
  "ends_argument rest \<longleftrightarrow> (case rest of [] \<Rightarrow> True | ch # _ \<Rightarrow> blank ch)"

lemma crt_argument_quoted:
  assumes "ends_argument rest"
  shows "crt_argument True 0 acc (quote_loop n s @ rest) = (acc @ replicate n wslash @ s, rest)"
proof (induction n s arbitrary: acc rule: quote_loop.induct)
  case (1 n)
  show ?case
    using assms by (cases rest) (auto simp: crt_argument_slashes ends_argument_def blank_def)
next
  case (2 n ch s)
  have "crt_argument True 0 acc (replicate (n * 2 + 1) wslash @ wquote # quote_loop 0 s @ rest)
      = crt_argument True 0 (acc @ replicate n wslash @ [wquote]) (quote_loop 0 s @ rest)"
    by (subst crt_argument_slashes) simp
  then show ?case
    using 2 by (auto simp: crt_argument_slashes replicate_append_same)
qed

lemma crt_argument_plain:
  "\<not> needs_quotes s \<Longrightarrow> ends_argument rest \<Longrightarrow>
     crt_argument False n acc (s @ rest) = (acc @ replicate n wslash @ s, rest)"
proof (induction s arbitrary: n acc)
  case Nil
  then show ?case
    by (cases rest) (auto simp: ends_argument_def blank_def)
next
  case (Cons ch s)
  then show ?case
    by (auto simp: needs_quotes_def blank_def replicate_append_same)
qed

lemma crt_argument_quote:
  assumes "ends_argument rest"
  shows "crt_argument False 0 [] (quote_windows_argument s @ rest) = (s, rest)"
proof -
  have "crt_argument False 0 [] (wquote # t) = crt_argument True 0 [] t" for t
    by simp
  then show ?thesis
    using crt_argument_plain [OF _ assms, of s 0 "[]"] crt_argument_quoted [OF assms, of "[]" 0]
      crt_argument_quoted [OF assms, of "[]" 0 "[]"]
    by (simp add: quote_windows_argument_def del: crt_argument.simps)
qed

lemma quote_starts: "\<exists>ch rest. quote_windows_argument s = ch # rest \<and> \<not> blank ch"
  by (cases s) (auto simp: quote_windows_argument_def needs_quotes_def blank_def)

lemma dropWhile_quote: "dropWhile blank (wspace # quote_windows_argument s @ t) = quote_windows_argument s @ t"
  using quote_starts [of s] by (auto simp: blank_def)

text \<open>What follows the program on the line.\<close>

definition argument_text :: "wstring list \<Rightarrow> wstring" where
  "argument_text ws = concat (map (\<lambda>w. wspace # quote_windows_argument w) ws)"

lemma argument_text_ends: "ends_argument (argument_text ws)"
  by (cases ws) (simp_all add: argument_text_def ends_argument_def blank_def)

lemma crt_arguments_text: "crt_arguments (argument_text ws) = ws"
proof (induction ws)
  case (Cons w ws)
  obtain ch rest where "quote_windows_argument w @ argument_text ws = ch # rest"
    using quote_starts [of w] by auto
  then have "crt_arguments (wspace # quote_windows_argument w @ argument_text ws) = w # crt_arguments (argument_text ws)"
    using crt_argument_quote [OF argument_text_ends, of w ws] dropWhile_quote [of w "argument_text ws"]
    by (simp add: crt_arguments.simps [of "wspace # _"] del: crt_argument.simps dropWhile.simps)
  with Cons show ?case
    by (simp add: argument_text_def)
qed (simp add: argument_text_def crt_arguments.simps)

lemma append_arguments_text:
  "append_arguments calls args line = Inr line' \<longleftrightarrow>
     (\<exists>ws. map (utf8_to_wide calls) args = map Inr ws \<and> line' = line @ argument_text ws)"
proof (induction args arbitrary: line)
  case (Cons a args)
  show ?case
    by (cases "utf8_to_wide calls a") (auto simp: Cons argument_text_def Cons_eq_map_conv)
qed (auto simp: argument_text_def)

lemma crt_program_plain:
  "\<not> needs_quotes s \<Longrightarrow> ends_argument rest \<Longrightarrow> crt_program False acc (s @ rest) = (acc @ s, rest)"
proof (induction s arbitrary: acc)
  case Nil
  then show ?case
    by (cases rest) (auto simp: ends_argument_def blank_def)
qed (auto simp: needs_quotes_def blank_def)

text \<open>In a name without double quotes that does not end in a backslash, quoting adds only the quotes.\<close>

lemma quote_loop_name:
  "wquote \<notin> set s \<Longrightarrow> s = [] \<or> last s \<noteq> wslash \<Longrightarrow> s = [] \<longrightarrow> n = 0 \<Longrightarrow>
     quote_loop n s = replicate n wslash @ s @ [wquote]"
proof (induction s arbitrary: n)
  case (Cons ch s)
  then show ?case
    by (cases s) (auto simp: replicate_append_same)
qed simp

lemma crt_program_quoted:
  "wquote \<notin> set s \<Longrightarrow> crt_program True acc (s @ wquote # rest) = crt_program False (acc @ s) rest"
  by (induction s arbitrary: acc) auto

lemma crt_program_name:
  assumes "wquote \<notin> set s" and "s = [] \<or> last s \<noteq> wslash" and "ends_argument rest"
  shows "crt_program False [] (quote_windows_argument s @ rest) = (s, rest)"
proof -
  have stop: "crt_program False s rest = (s, rest)"
    using crt_program_plain [OF _ assms(3), of "[]" s] by (simp add: needs_quotes_def)
  show ?thesis
  proof (cases "s = [] \<or> needs_quotes s")
    case True
    then have "quote_windows_argument s = wquote # s @ [wquote]"
      using quote_loop_name [OF assms(1,2), of 0] by (auto simp: quote_windows_argument_def)
    then show ?thesis
      using crt_program_quoted [OF assms(1), of "[]" rest] stop by simp
  next
    case False
    then show ?thesis
      using crt_program_plain [OF _ assms(3), of s "[]"] by (simp add: quote_windows_argument_def)
  qed
qed

lemma quote_chars: "set (quote_windows_argument s) \<subseteq> set s \<union> {wquote, wslash}"
proof -
  have "set (quote_loop n s) \<subseteq> set s \<union> {wquote, wslash}" for n
    by (induction n s rule: quote_loop.induct) auto
  then show ?thesis
    by (auto simp: quote_windows_argument_def)
qed

lemma takeWhile_command_line:
  assumes "\<forall>s \<in> insert program (set ws). 0 \<notin> set s"
  shows "takeWhile (\<lambda>ch. ch \<noteq> 0) (quote_windows_argument program @ argument_text ws)
     = quote_windows_argument program @ argument_text ws"
  using assms quote_chars unfolding argument_text_def by (fastforce simp: takeWhile_eq_all_conv)

section \<open>Properties\<close>

text \<open>
  C22: On Windows a worker receives the arguments of its launch configuration, whatever blanks,
  double quotes and backslashes they hold: the command line the Kernel builds is cut by the
  documented rules into the program and exactly the arguments given, provided that no text holds a
  null character and that the path of the program, as every path of an executable file, holds no
  double quote and does not end in a backslash. The command line is built exactly when every
  argument is valid UTF-8.
\<close>

theorem command_line_preserves_arguments:
  assumes "wquote \<notin> set program" and "program = [] \<or> last program \<noteq> wslash" and "0 \<notin> set program"
    and "\<forall>a \<in> set args. \<forall>w. utf8_to_wide calls a = Inr w \<longrightarrow> 0 \<notin> set w"
  shows "case worker_command_line calls program args of
      Inl e \<Rightarrow> \<exists>a \<in> set args. utf8_to_wide calls a = Inl e
    | Inr line \<Rightarrow> \<exists>ws. map (utf8_to_wide calls) args = map Inr ws \<and> crt_argv line = program # ws"
proof (cases "worker_command_line calls program args")
  case (Inl e)
  have "append_arguments calls as line = Inl e \<Longrightarrow> \<exists>a \<in> set as. utf8_to_wide calls a = Inl e" for as line
    by (induction as arbitrary: line) (auto split: sum.splits)
  with Inl show ?thesis
    by (simp add: worker_command_line_def)
next
  case (Inr line)
  then obtain ws where ws: "map (utf8_to_wide calls) args = map Inr ws" "line = quote_windows_argument program @ argument_text ws"
    using append_arguments_text by (auto simp: worker_command_line_def)
  have "\<exists>a \<in> set args. utf8_to_wide calls a = Inr w" if "w \<in> set ws" for w
  proof -
    have "Inr w \<in> set (map (utf8_to_wide calls) args)"
      unfolding ws(1) using that by simp
    then show ?thesis by auto
  qed
  then have "\<forall>s \<in> insert program (set ws). 0 \<notin> set s"
    using assms(3,4) by auto
  then have "crt_argv line = program # ws"
    using crt_program_name [OF assms(1,2) argument_text_ends, of ws]
    by (simp add: crt_argv_def ws(2) takeWhile_command_line crt_arguments_text del: crt_program.simps)
  with Inr ws(1) show ?thesis by auto
qed

definition sample_utf8 :: utf8_calls where
  "sample_utf8 = \<lparr>wide_count = (\<lambda>s. Inr (length s)), wide_chars = map of_char\<rparr>"

theorem command_line_preserves_arguments_witness:
  "\<exists>line. worker_command_line sample_utf8 [67, 32, 68] [''a b'', [CHR 0x22, CHR 0x5C], []] = Inr line
     \<and> crt_argv line = [[67, 32, 68], [97, 32, 98], [34, 92], []]"
proof -
  let ?args = "[''a b'', [CHR 0x22, CHR 0x5C], []]"
  have wide: "map (utf8_to_wide sample_utf8) ?args = map Inr [[97, 32, 98], [34, 92], []]"
    by (simp add: utf8_to_wide_def sample_utf8_def)
  then obtain line where line: "worker_command_line sample_utf8 [67, 32, 68] ?args = Inr line"
    by (auto simp: worker_command_line_def)
  have "wquote \<notin> set [67, 32, 68 :: wchar]" "last [67, 32, 68 :: wchar] \<noteq> wslash" "0 \<notin> set [67, 32, 68 :: wchar]"
    by simp_all
  with command_line_preserves_arguments [of "[67, 32, 68]" ?args sample_utf8] line wide show ?thesis
    by auto
qed

end
