(* ===== verification/Windows_Handles.thy ===== *)
theory Windows_Handles
  imports Prelude "HOL-Library.AList"
begin

text \<open>
  The handles of a Windows process: what the Windows branches of \<open>kernel/src/worker_runtime.cpp\<close>
  and \<open>kernel/src/local_ipc.cpp\<close> open, close and pass to a child. A table maps each open handle to
  the object it refers to and to whether a child inherits it; the C runtime keeps a second table,
  from its descriptors to the handles they own.
\<close>

section \<open>Tables\<close>

datatype win_object =
    WinPipeReader nat | WinPipeWriter nat | WinNul | WinProcess nat | WinThread nat
  | WinNamedPipe nat | WinEvent nat | WinOther nat

type_synonym handle_table = "(nat \<times> win_object \<times> bool) list"

record win_child =
  win_pid :: nat
  win_line :: "16 word list"
  win_std :: "nat \<times> nat \<times> nat"
  win_inherited :: handle_table

record win_host =
  handles :: handle_table
  crt_fds :: "(nat \<times> nat) list"
  std_error :: "nat option"
  objects_made :: nat
  win_children :: "win_child list"

text \<open>A new handle or descriptor is one that is not in use.\<close>

definition unused_key :: "(nat \<times> 'a) list \<Rightarrow> nat" where
  "unused_key t = Suc (foldr max (map fst t) 0)"

definition open_handle :: "win_object \<Rightarrow> bool \<Rightarrow> win_host \<Rightarrow> nat \<times> win_host" where
  "open_handle obj inherit h =
     (let x = unused_key (handles h) in (x, h\<lparr>handles := (x, obj, inherit) # handles h\<rparr>))"

text \<open>\<open>CloseHandle\<close>.\<close>

definition close_handle :: "nat \<Rightarrow> win_host \<Rightarrow> win_host" where
  "close_handle x h = h\<lparr>handles := AList.delete x (handles h)\<rparr>"

definition close_handles :: "nat list \<Rightarrow> win_host \<Rightarrow> win_host" where
  "close_handles = fold close_handle"

text \<open>\<open>_open_osfhandle\<close> and \<open>_close\<close>: the descriptor owns the handle.\<close>

definition open_osfhandle :: "nat \<Rightarrow> win_host \<Rightarrow> nat \<times> win_host" where
  "open_osfhandle x h = (let fd = unused_key (crt_fds h) in (fd, h\<lparr>crt_fds := (fd, x) # crt_fds h\<rparr>))"

definition crt_close :: "nat \<Rightarrow> win_host \<Rightarrow> win_host" where
  "crt_close fd h =
     (case map_of (crt_fds h) fd of
        None \<Rightarrow> h
      | Some x \<Rightarrow> close_handle x (h\<lparr>crt_fds := AList.delete fd (crt_fds h)\<rparr>))"

definition inheritable :: "handle_table \<Rightarrow> nat \<Rightarrow> bool" where
  "inheritable t x = (case map_of t x of None \<Rightarrow> False | Some (_, inherit) \<Rightarrow> inherit)"

section \<open>Lemmas\<close>

lemma unused_key_None [simp]: "map_of t (unused_key t) = None"
proof -
  have "x \<le> foldr max ks 0" if "x \<in> set ks" for x and ks :: "nat list"
    using that by (induction ks) (auto simp: max_def)
  then have "unused_key t \<notin> fst ` set t"
    unfolding unused_key_def by (metis Suc_n_not_le_n list.set_map)
  then show ?thesis
    by (simp add: map_of_eq_None_iff)
qed

lemma close_handles_simps [simp]:
  "close_handles [] h = h" "close_handles (x # xs) h = close_handles xs (close_handle x h)"
  by (simp_all add: close_handles_def)

lemma close_handle_fields [simp]:
  "map_of (handles (close_handle x h)) = (map_of (handles h))(x := None)"
  "crt_fds (close_handle x h) = crt_fds h" "std_error (close_handle x h) = std_error h"
  "objects_made (close_handle x h) = objects_made h" "win_children (close_handle x h) = win_children h"
  by (simp_all add: close_handle_def delete_conv')

lemma open_handleE:
  assumes "open_handle obj inherit h = (x, h')"
  shows "map_of (handles h) x = None" "map_of (handles h') = (map_of (handles h))(x \<mapsto> (obj, inherit))"
    "crt_fds h' = crt_fds h" "std_error h' = std_error h" "objects_made h' = objects_made h" "win_children h' = win_children h"
  using assms by (auto simp: open_handle_def Let_def)

lemma open_osfhandleE:
  assumes "open_osfhandle x h = (fd, h')"
  shows "map_of (crt_fds h) fd = None" "map_of (crt_fds h') = (map_of (crt_fds h))(fd \<mapsto> x)"
    "handles h' = handles h" "std_error h' = std_error h" "objects_made h' = objects_made h" "win_children h' = win_children h"
  using assms by (auto simp: open_osfhandle_def Let_def)

lemma crt_close_open:
  assumes "map_of (crt_fds h) fd = Some x"
  shows "map_of (crt_fds (crt_close fd h)) = (map_of (crt_fds h))(fd := None)"
    "map_of (handles (crt_close fd h)) = (map_of (handles h))(x := None)"
    "std_error (crt_close fd h) = std_error h" "objects_made (crt_close fd h) = objects_made h"
    "win_children (crt_close fd h) = win_children h"
  using assms by (simp_all add: crt_close_def delete_conv' close_handle_def)

end
