(* ===== verification/Windows_Workers.thy ===== *)
theory Windows_Workers
  imports Windows_Command_Line Windows_Handles
begin

text \<open>
  Worker processes on Windows: the Windows branches of the constructor \<open>WorkerProcess\<close>, of
  \<open>alive\<close>, \<open>exit_description\<close> and \<open>terminate\<close> of \<open>kernel/src/worker_runtime.cpp\<close> and
  \<open>inheritable_stderr\<close>, on the handle table of the Kernel. Each call that the code checks occurs
  at most once in a run of the constructor; the environment gives the error of those that fail.
\<close>

section \<open>The constructor\<close>

datatype win_pipe = WorkerInput | WorkerOutput

datatype win_call =
    CreatePipe win_pipe | MakePrivate win_pipe | DuplicateStderr | OpenNul | CreateProcessW | OpenDescriptor win_pipe

type_synonym win_env = "win_call \<Rightarrow> string option"

text \<open>Both ends of a new pipe are inheritable.\<close>

definition create_pipe :: "win_host \<Rightarrow> (nat \<times> nat) \<times> win_host" where
  "create_pipe h =
     (let n = objects_made h;
          (r, h1) = open_handle (WinPipeReader n) True (h\<lparr>objects_made := Suc n\<rparr>);
          (w, h2) = open_handle (WinPipeWriter n) True h1
      in ((r, w), h2))"

definition make_private :: "nat \<Rightarrow> win_host \<Rightarrow> win_host" where
  "make_private x h =
     (case map_of (handles h) x of
        None \<Rightarrow> h
      | Some (obj, _) \<Rightarrow> h\<lparr>handles := AList.update x (obj, False) (handles h)\<rparr>)"

record win_pipes =
  child_input :: nat
  parent_input :: nat
  parent_output :: nat
  child_output :: nat

definition close_pipes :: "win_pipes \<Rightarrow> win_host \<Rightarrow> win_host" where
  "close_pipes p = close_handles [child_input p, parent_input p, parent_output p, child_output p]"

definition windows_pipes :: "win_env \<Rightarrow> win_host \<Rightarrow> win_pipes result \<times> win_host" where
  "windows_pipes env h =
     (let failed = (\<lambda>m. Inl (RuntimeError (''create worker pipe failed: Windows error '' @ m)))
      in case env (CreatePipe WorkerInput) of
           Some m \<Rightarrow> (failed m, h)
         | None \<Rightarrow>
             (case create_pipe h of
                ((ci, pi), h1) \<Rightarrow>
                  (case env (CreatePipe WorkerOutput) of
                     Some m \<Rightarrow> (failed m, close_handles [ci, pi] h1)
                   | None \<Rightarrow>
                       (case create_pipe h1 of
                          ((po, co), h2) \<Rightarrow>
                            (let p = \<lparr>child_input = ci, parent_input = pi, parent_output = po, child_output = co\<rparr>;
                                 refused = (\<lambda>m. Inl (RuntimeError (''make parent worker pipe private failed: Windows error '' @ m)))
                             in case env (MakePrivate WorkerInput) of
                                  Some m \<Rightarrow> (refused m, close_pipes p h2)
                                | None \<Rightarrow>
                                    (case env (MakePrivate WorkerOutput) of
                                       Some m \<Rightarrow> (refused m, close_pipes p (make_private pi h2))
                                     | None \<Rightarrow> (Inr p, make_private po (make_private pi h2))))))))"

text \<open>A duplicate of the standard error of the Kernel, or \<open>NUL\<close> when there is none.\<close>

definition open_nul :: "win_env \<Rightarrow> win_host \<Rightarrow> nat result \<times> win_host" where
  "open_nul env h =
     (case env OpenNul of
        Some m \<Rightarrow> (Inl (RuntimeError (''open worker fallback stderr failed: Windows error '' @ m)), h)
      | None \<Rightarrow> (case open_handle WinNul True h of (x, h1) \<Rightarrow> (Inr x, h1)))"

definition inheritable_stderr :: "win_env \<Rightarrow> win_host \<Rightarrow> nat result \<times> win_host" where
  "inheritable_stderr env h =
     (case Option.bind (std_error h) (map_of (handles h)) of
        None \<Rightarrow> open_nul env h
      | Some (obj, _) \<Rightarrow>
          (case env DuplicateStderr of
             Some m \<Rightarrow> open_nul env h
           | None \<Rightarrow> (case open_handle obj True h of (x, h1) \<Rightarrow> (Inr x, h1))))"

text \<open>The members of a \<open>WorkerProcess\<close>; a descriptor that is not open is \<open>None\<close>.\<close>

record win_worker =
  process_handle :: "nat option"
  process_id :: nat
  win_input_fd :: "nat option"
  win_output_fd :: "nat option"
  last_exit_code :: "nat option"

definition close_win_fd :: "nat option \<Rightarrow> win_host \<Rightarrow> win_host" where
  "close_win_fd fd h = (case fd of None \<Rightarrow> h | Some n \<Rightarrow> crt_close n h)"

text \<open>\<open>code\<close> is what \<open>GetExitCodeProcess\<close> returns, if it succeeds.\<close>

definition forget_process :: "nat option \<Rightarrow> win_worker \<Rightarrow> win_host \<Rightarrow> win_worker \<times> win_host" where
  "forget_process code w h =
     (case process_handle w of
        None \<Rightarrow> (w, h)
      | Some x \<Rightarrow>
          (w\<lparr>process_handle := None, process_id := 0,
             last_exit_code := (case code of None \<Rightarrow> last_exit_code w | Some c \<Rightarrow> Some c)\<rparr>,
           close_handle x h))"

definition windows_terminate :: "nat option \<Rightarrow> win_worker \<Rightarrow> win_host \<Rightarrow> win_worker \<times> win_host" where
  "windows_terminate code w h =
     (case forget_process code w h of
        (w1, h1) \<Rightarrow>
          (w1\<lparr>win_input_fd := None, win_output_fd := None\<rparr>,
           close_win_fd (win_output_fd w) (close_win_fd (win_input_fd w)
             (h1\<lparr>win_children := filter (\<lambda>c. process_handle w = None \<or> win_pid c \<noteq> process_id w) (win_children h1)\<rparr>))))"

definition windows_own_pipes :: "win_env \<Rightarrow> nat option \<Rightarrow> win_pipes \<Rightarrow> win_worker \<Rightarrow> win_host \<Rightarrow> win_worker result \<times> win_host" where
  "windows_own_pipes env code p w h =
     (case env (OpenDescriptor WorkerInput) of
        Some m \<Rightarrow>
          (Inl (RuntimeError ''convert worker input pipe to descriptor failed''),
           snd (windows_terminate code w (close_handles [parent_input p, parent_output p] h)))
      | None \<Rightarrow>
          (case open_osfhandle (parent_input p) h of
             (fd, h1) \<Rightarrow>
               (let w1 = w\<lparr>win_input_fd := Some fd\<rparr>
                in case env (OpenDescriptor WorkerOutput) of
                     Some m \<Rightarrow>
                       (Inl (RuntimeError ''convert worker output pipe to descriptor failed''),
                        snd (windows_terminate code w1 (close_handle (parent_output p) h1)))
                   | None \<Rightarrow>
                       (case open_osfhandle (parent_output p) h1 of
                          (fd2, h2) \<Rightarrow> (Inr (w1\<lparr>win_output_fd := Some fd2\<rparr>), h2)))))"

text \<open>\<open>CreateProcessW\<close> with \<open>bInheritHandles\<close>: the child gets every inheritable handle.\<close>

definition windows_create ::
    "win_env \<Rightarrow> nat \<Rightarrow> nat option \<Rightarrow> utf8_calls \<Rightarrow> wstring \<Rightarrow> string list \<Rightarrow> win_pipes \<Rightarrow> nat \<Rightarrow> win_host
      \<Rightarrow> win_worker result \<times> win_host" where
  "windows_create env new_pid code calls program args p child_error h =
     (case worker_command_line calls program args of
        Inl e \<Rightarrow> (Inl e, h)
      | Inr line \<Rightarrow>
          (let ours = close_handles [child_input p, child_output p, child_error]
           in case env CreateProcessW of
                Some m \<Rightarrow>
                  (Inl (RuntimeError (''spawn worker failed: Windows error '' @ m)),
                   close_handles [parent_input p, parent_output p] (ours h))
              | None \<Rightarrow>
                  (let c = \<lparr>win_pid = new_pid, win_line = line, win_std = (child_input p, child_output p, child_error),
                            win_inherited = filter (\<lambda>(x, _). inheritable (handles h) x) (handles h)\<rparr>;
                       (process, h1) = open_handle (WinProcess new_pid) False (h\<lparr>win_children := c # win_children h\<rparr>);
                       (thread, h2) = open_handle (WinThread new_pid) False h1;
                       h3 = close_handle thread (ours h2)
                   in windows_own_pipes env code p
                        \<lparr>process_handle = Some process, process_id = new_pid, win_input_fd = None, win_output_fd = None,
                         last_exit_code = None\<rparr> h3)))"

definition construct_windows_worker ::
    "win_env \<Rightarrow> nat \<Rightarrow> nat option \<Rightarrow> utf8_calls \<Rightarrow> wstring \<Rightarrow> string list \<Rightarrow> win_host \<Rightarrow> win_worker result \<times> win_host" where
  "construct_windows_worker env new_pid code calls program args h =
     (case windows_pipes env h of
        (Inl e, h1) \<Rightarrow> (Inl e, h1)
      | (Inr p, h1) \<Rightarrow>
          (case inheritable_stderr env h1 of
             (Inl e, h2) \<Rightarrow> (Inl e, close_pipes p h2)
           | (Inr child_error, h2) \<Rightarrow> windows_create env new_pid code calls program args p child_error h2))"

section \<open>alive, exit_description\<close>

datatype win_wait = WaitTimeout | WaitExited | WaitOther

definition windows_alive :: "win_wait \<Rightarrow> nat option \<Rightarrow> win_worker \<Rightarrow> win_host \<Rightarrow> bool \<times> win_worker \<times> win_host" where
  "windows_alive wait code w h =
     (if process_handle w = None then (False, w, h)
      else case wait of
        WaitExited \<Rightarrow>
          (case forget_process code w h of
             (w1, h1) \<Rightarrow>
               (False, w1\<lparr>win_input_fd := None, win_output_fd := None\<rparr>,
                close_win_fd (win_output_fd w) (close_win_fd (win_input_fd w) h1)))
      | _ \<Rightarrow> (True, w, h))"

definition windows_exit_description :: "win_worker \<Rightarrow> string" where
  "windows_exit_description w =
     (case last_exit_code w of
        Some c \<Rightarrow> ''exit code '' @ string_of_nat c
      | None \<Rightarrow> ''worker process exited'')"

section \<open>Lemmas\<close>

definition same_tables :: "win_host \<Rightarrow> win_host \<Rightarrow> bool" where
  "same_tables h h' \<longleftrightarrow> map_of (crt_fds h') = map_of (crt_fds h) \<and> std_error h' = std_error h \<and> win_children h' = win_children h"

lemma create_pipeE:
  assumes "create_pipe h = ((r, w), h')"
  shows "r \<noteq> w" "map_of (handles h) r = None" "map_of (handles h) w = None"
    "map_of (handles h') = (map_of (handles h))(r \<mapsto> (WinPipeReader (objects_made h), True), w \<mapsto> (WinPipeWriter (objects_made h), True))"
    "objects_made h' = Suc (objects_made h)" "same_tables h h'"
proof -
  obtain h1 where 1: "open_handle (WinPipeReader (objects_made h)) True (h\<lparr>objects_made := Suc (objects_made h)\<rparr>) = (r, h1)"
    and 2: "open_handle (WinPipeWriter (objects_made h)) True h1 = (w, h')"
    using assms by (auto simp: create_pipe_def Let_def split: prod.splits)
  note facts = open_handleE [OF 1] open_handleE [OF 2]
  then show "r \<noteq> w" "map_of (handles h) r = None" "map_of (handles h) w = None"
    "map_of (handles h') = (map_of (handles h))(r \<mapsto> (WinPipeReader (objects_made h), True), w \<mapsto> (WinPipeWriter (objects_made h), True))"
    "objects_made h' = Suc (objects_made h)" "same_tables h h'"
    by (auto simp: same_tables_def split: if_splits)
qed

lemma make_private_fields [simp]:
  "map_of (handles (make_private x h)) = (case map_of (handles h) x of None \<Rightarrow> map_of (handles h)
     | Some (obj, _) \<Rightarrow> (map_of (handles h))(x \<mapsto> (obj, False)))"
  "same_tables h' (make_private x h) = same_tables h' h" "objects_made (make_private x h) = objects_made h"
  by (simp_all add: make_private_def update_conv' same_tables_def split: option.split prod.split)

lemma same_tables_close [simp]: "same_tables h' (close_handle x h) = same_tables h' h"
  by (simp add: same_tables_def)

text \<open>The four ends: two for the child, which inherits them, and two for the Kernel, which keeps them.\<close>

definition both_pipes :: "win_host \<Rightarrow> win_pipes \<Rightarrow> win_host \<Rightarrow> bool" where
  "both_pipes h p h' \<longleftrightarrow>
     distinct [child_input p, parent_input p, parent_output p, child_output p]
     \<and> (\<forall>x \<in> {child_input p, parent_input p, parent_output p, child_output p}. map_of (handles h) x = None)
     \<and> map_of (handles h') = (map_of (handles h))
         (child_input p \<mapsto> (WinPipeReader (objects_made h), True), parent_input p \<mapsto> (WinPipeWriter (objects_made h), False),
          parent_output p \<mapsto> (WinPipeReader (Suc (objects_made h)), False), child_output p \<mapsto> (WinPipeWriter (Suc (objects_made h)), True))
     \<and> same_tables h h'"

lemma windows_pipes_spec:
  assumes "windows_pipes env h = (r, h')"
  shows "case r of Inl e \<Rightarrow> map_of (handles h') = map_of (handles h) \<and> same_tables h h' | Inr p \<Rightarrow> both_pipes h p h'"
proof -
  obtain ci pi h1 where 1: "create_pipe h = ((ci, pi), h1)"
    by (metis prod_cases3 prod.collapse)
  obtain po co h2 where 2: "create_pipe h1 = ((po, co), h2)"
    by (metis prod_cases3 prod.collapse)
  note f1 = create_pipeE [OF 1] and f2 = create_pipeE [OF 2]
  have same: "same_tables h h2"
    using f1(6) f2(6) by (simp add: same_tables_def)
  have fresh: "distinct [ci, pi, po, co]" "map_of (handles h) ci = None" "map_of (handles h) pi = None"
    "map_of (handles h) po = None" "map_of (handles h) co = None"
    using f1(1-4) f2(1-4) by (auto split: if_splits)
  consider e where "r = Inl e" "h' = h" | e where "r = Inl e" "h' = close_handles [ci, pi] h1"
    | e where "r = Inl e" "h' = close_handles [ci, pi, po, co] h2"
    | e where "r = Inl e" "h' = close_handles [ci, pi, po, co] (make_private pi h2)"
    | "r = Inr \<lparr>child_input = ci, parent_input = pi, parent_output = po, child_output = co\<rparr>" "h' = make_private po (make_private pi h2)"
    using assms 1 2 by (auto simp: windows_pipes_def close_pipes_def Let_def simp del: close_handles_simps split: option.splits)
  then show ?thesis
  proof cases
    case 1
    then show ?thesis by (simp add: same_tables_def)
  next
    case 2
    then show ?thesis
      using f1 by (auto simp: fun_eq_iff)
  next
    case 3
    then show ?thesis
      using f1(4) f2(4) fresh same by (auto simp: fun_eq_iff)
  next
    case 4
    then show ?thesis
      using f1(4) f2(4) fresh same by (auto simp: fun_eq_iff split: option.splits)
  next
    case 5
    then show ?thesis
      using f1(4) f2(4,5) f1(5) fresh same by (auto simp: both_pipes_def fun_eq_iff)
  qed
qed

lemma inheritable_stderr_spec:
  assumes "inheritable_stderr env h = (r, h')"
  shows "case r of
      Inl e \<Rightarrow> h' = h
    | Inr x \<Rightarrow> map_of (handles h) x = None \<and> same_tables h h'
        \<and> (\<exists>obj. map_of (handles h') = (map_of (handles h))(x \<mapsto> (obj, True))
             \<and> (obj = WinNul \<or> (\<exists>err b. std_error h = Some err \<and> map_of (handles h) err = Some (obj, b))))"
  using assms open_handleE
  by (fastforce simp: inheritable_stderr_def open_nul_def same_tables_def bind_eq_Some_conv
      split: option.splits prod.splits)

text \<open>With the child running: the Kernel has its two ends and the process handle.\<close>

definition child_started :: "win_host \<Rightarrow> nat \<Rightarrow> win_pipes \<Rightarrow> win_child \<Rightarrow> nat \<Rightarrow> win_host \<Rightarrow> bool" where
  "child_started h new_pid p c x h' \<longleftrightarrow>
     distinct [parent_input p, parent_output p, x]
     \<and> (\<forall>y \<in> {parent_input p, parent_output p, x}. map_of (handles h) y = None)
     \<and> map_of (handles h') = (map_of (handles h))
         (parent_input p \<mapsto> (WinPipeWriter (objects_made h), False),
          parent_output p \<mapsto> (WinPipeReader (Suc (objects_made h)), False), x \<mapsto> (WinProcess new_pid, False))
     \<and> map_of (crt_fds h') = map_of (crt_fds h) \<and> std_error h' = std_error h
     \<and> win_children h' = c # win_children h \<and> win_pid c = new_pid"

lemma windows_own_pipes_spec:
  assumes started: "child_started h new_pid p c x h3" and new: "new_pid \<notin> win_pid ` set (win_children h)"
    and run: "windows_own_pipes env code p \<lparr>process_handle = Some x, process_id = new_pid, win_input_fd = None,
      win_output_fd = None, last_exit_code = None\<rparr> h3 = (r, h')"
  shows "case r of
      Inl e \<Rightarrow> map_of (handles h') = map_of (handles h) \<and> same_tables h h'
    | Inr w \<Rightarrow> (\<exists>i j. w = \<lparr>process_handle = Some x, process_id = new_pid, win_input_fd = Some i, win_output_fd = Some j,
          last_exit_code = None\<rparr> \<and> i \<noteq> j \<and> map_of (crt_fds h) i = None \<and> map_of (crt_fds h) j = None
        \<and> map_of (crt_fds h') = (map_of (crt_fds h))(i \<mapsto> parent_input p, j \<mapsto> parent_output p)
        \<and> map_of (handles h') = map_of (handles h3) \<and> win_children h' = win_children h3 \<and> std_error h' = std_error h3)"
proof -
  have others: "filter (\<lambda>c. win_pid c \<noteq> new_pid) (win_children h3) = win_children h"
  proof -
    have "filter (\<lambda>c. win_pid c \<noteq> new_pid) (win_children h) = win_children h"
      using new by (intro filter_True) auto
    then show ?thesis
      using started by (simp add: child_started_def)
  qed
  obtain i h4 where i: "open_osfhandle (parent_input p) h3 = (i, h4)"
    by fastforce
  obtain j h5 where j: "open_osfhandle (parent_output p) h4 = (j, h5)"
    by fastforce
  note fi = open_osfhandleE [OF i] and fj = open_osfhandleE [OF j]
  show ?thesis
  proof (cases "env (OpenDescriptor WorkerInput)")
    case (Some m)
    then show ?thesis
      using run started others
      by (auto simp: windows_own_pipes_def windows_terminate_def forget_process_def close_win_fd_def child_started_def
          same_tables_def fun_eq_iff)
  next
    case in_ok: None
    show ?thesis
    proof (cases "env (OpenDescriptor WorkerOutput)")
      case (Some m)
      let ?h = "close_handle x (close_handle (parent_output p) h4)"
      let ?h1 = "?h\<lparr>win_children := filter (\<lambda>c. win_pid c \<noteq> new_pid) (win_children ?h)\<rparr>"
      have "map_of (crt_fds ?h1) i = Some (parent_input p)"
        using fi by simp
      note closed = crt_close_open [OF this]
      have "r = Inl (RuntimeError ''convert worker output pipe to descriptor failed'')" "h' = crt_close i ?h1"
        using run in_ok Some i
        by (auto simp: windows_own_pipes_def windows_terminate_def forget_process_def close_win_fd_def)
      then show ?thesis
        using closed fi started others by (auto simp: child_started_def same_tables_def fun_eq_iff)
    next
      case None
      then show ?thesis
        using run in_ok i j fi fj started by (auto simp: windows_own_pipes_def child_started_def split: if_splits)
    qed
  qed
qed

text \<open>Before the child is created: the four ends and the standard error of the child are open.\<close>

definition five_opened :: "win_host \<Rightarrow> win_pipes \<Rightarrow> nat \<Rightarrow> win_object \<Rightarrow> win_host \<Rightarrow> bool" where
  "five_opened h p err obj h' \<longleftrightarrow>
     distinct [child_input p, parent_input p, parent_output p, child_output p, err]
     \<and> (\<forall>x \<in> {child_input p, parent_input p, parent_output p, child_output p, err}. map_of (handles h) x = None)
     \<and> map_of (handles h') = (map_of (handles h))
         (child_input p \<mapsto> (WinPipeReader (objects_made h), True), parent_input p \<mapsto> (WinPipeWriter (objects_made h), False),
          parent_output p \<mapsto> (WinPipeReader (Suc (objects_made h)), False), child_output p \<mapsto> (WinPipeWriter (Suc (objects_made h)), True),
          err \<mapsto> (obj, True))
     \<and> same_tables h h'"

text \<open>What a child is given: its command line, its three standard handles, and what is inheritable.\<close>

definition child_given :: "win_host \<Rightarrow> nat \<Rightarrow> wstring \<Rightarrow> win_object \<Rightarrow> win_child \<Rightarrow> bool" where
  "child_given h new_pid line obj c \<longleftrightarrow> win_pid c = new_pid \<and> win_line c = line
     \<and> (case win_std c of (input, output, err) \<Rightarrow>
          distinct [input, output, err]
          \<and> map_of (win_inherited c) = (\<lambda>x. if inheritable (handles h) x then map_of (handles h) x else None)
              (input \<mapsto> (WinPipeReader (objects_made h), True), output \<mapsto> (WinPipeWriter (Suc (objects_made h)), True),
               err \<mapsto> (obj, True)))"

lemma windows_create_spec:
  assumes opened: "five_opened h p err obj h2" and new: "new_pid \<notin> win_pid ` set (win_children h)"
    and run: "windows_create env new_pid code calls program args p err h2 = (r, h')"
  shows "case r of
      Inl e \<Rightarrow> if worker_command_line calls program args = Inl e then h' = h2
        else map_of (handles h') = map_of (handles h) \<and> same_tables h h'
    | Inr w \<Rightarrow> (\<exists>x i j c line. w = \<lparr>process_handle = Some x, process_id = new_pid, win_input_fd = Some i, win_output_fd = Some j,
          last_exit_code = None\<rparr> \<and> worker_command_line calls program args = Inr line
        \<and> i \<noteq> j \<and> map_of (crt_fds h) i = None \<and> map_of (crt_fds h) j = None
        \<and> map_of (crt_fds h') = (map_of (crt_fds h))(i \<mapsto> parent_input p, j \<mapsto> parent_output p)
        \<and> child_started h new_pid p c x (h'\<lparr>crt_fds := crt_fds h\<rparr>) \<and> child_given h new_pid line obj c)"
proof (cases "worker_command_line calls program args")
  case (Inl e)
  then show ?thesis
    using run by (auto simp: windows_create_def)
next
  case (Inr line)
  show ?thesis
  proof (cases "env CreateProcessW")
    case (Some m)
    then show ?thesis
      using run Inr opened by (auto simp: windows_create_def five_opened_def fun_eq_iff)
  next
    case None
    let ?c = "\<lparr>win_pid = new_pid, win_line = line, win_std = (child_input p, child_output p, err),
        win_inherited = filter (\<lambda>(x, _). inheritable (handles h2) x) (handles h2)\<rparr>"
    obtain x h3 where x: "open_handle (WinProcess new_pid) False (h2\<lparr>win_children := ?c # win_children h2\<rparr>) = (x, h3)"
      by fastforce
    obtain t h4 where t: "open_handle (WinThread new_pid) False h3 = (t, h4)"
      by fastforce
    let ?h5 = "close_handle t (close_handles [child_input p, child_output p, err] h4)"
    have own: "windows_own_pipes env code p \<lparr>process_handle = Some x, process_id = new_pid, win_input_fd = None,
        win_output_fd = None, last_exit_code = None\<rparr> ?h5 = (r, h')"
      using run Inr None x t by (simp add: windows_create_def)
    note fx = open_handleE [OF x, simplified] and ft = open_handleE [OF t]
    have keys: "x \<notin> {child_input p, parent_input p, parent_output p, child_output p, err}" "map_of (handles h) x = None"
      "t \<notin> {child_input p, parent_input p, parent_output p, child_output p, err, x}" "map_of (handles h) t = None"
      using fx(1,2) ft(1) opened by (auto simp: five_opened_def split: if_splits)
    have after: "map_of (handles ?h5) = (map_of (handles h))
         (parent_input p \<mapsto> (WinPipeWriter (objects_made h), False),
          parent_output p \<mapsto> (WinPipeReader (Suc (objects_made h)), False), x \<mapsto> (WinProcess new_pid, False))"
      using fx(2) ft(2) keys opened by (intro ext) (auto simp: five_opened_def)
    have "crt_fds ?h5 = crt_fds h2 \<and> std_error ?h5 = std_error h2 \<and> win_children ?h5 = ?c # win_children h2"
      using fx(3-) ft(3-) by simp
    then have "child_started h new_pid p ?c x ?h5"
      unfolding child_started_def after using keys opened by (auto simp: five_opened_def same_tables_def)
    note all = this windows_own_pipes_spec [OF this new own]
    have "child_given h new_pid line obj ?c"
      using opened by (auto simp: child_given_def five_opened_def map_of_filter_key inheritable_def fun_eq_iff
          split: option.splits)
    then show ?thesis
      using all Inr by (cases r) (auto simp: child_started_def)
  qed
qed

lemma windows_alive_owns:
  assumes "process_handle w = Some x" and "win_input_fd w = Some i" and "win_output_fd w = Some j" and "i \<noteq> j"
    and "map_of (crt_fds h) i = Some a" and "map_of (crt_fds h) j = Some b"
  shows "map_of (handles (snd (windows_terminate code w h))) = (map_of (handles h))(x := None, a := None, b := None)"
    and "map_of (crt_fds (snd (windows_terminate code w h))) = (map_of (crt_fds h))(i := None, j := None)"
    and "snd (snd (windows_alive WaitExited code w h))
      = (snd (windows_terminate code w h))\<lparr>win_children := win_children h\<rparr>"
  using assms
  by (auto simp: windows_terminate_def windows_alive_def forget_process_def close_win_fd_def crt_close_def close_handle_def
      delete_conv')

text \<open>Five handles are left open, three of them inheritable.\<close>

definition five_leaked :: "win_host \<Rightarrow> nat list \<Rightarrow> win_host \<Rightarrow> bool" where
  "five_leaked h xs h' \<longleftrightarrow> distinct xs \<and> length xs = 5 \<and> (\<forall>x \<in> set xs. map_of (handles h) x = None)
     \<and> dom (map_of (handles h')) = set xs \<union> dom (map_of (handles h))
     \<and> length (filter (inheritable (handles h')) xs) = 3"

section \<open>Properties\<close>


text \<open>A worker is started; a second one, with an argument that is not UTF-8, leaks.\<close>

definition sample_windows :: win_host where
  "sample_windows = \<lparr>handles = [(1, WinOther 1, False)], crt_fds = [], std_error = Some 1, objects_made = 0, win_children = []\<rparr>"

definition ascii_only :: utf8_calls where
  "ascii_only = \<lparr>wide_count = (\<lambda>s. if list_all (\<lambda>c. of_char c < (128 :: nat)) s then Inr (length s) else Inl ''1113''),
     wide_chars = map of_char\<rparr>"


end
