(* ===== verification/Windows_Reader.thy ===== *)
theory Windows_Reader
  imports Protocol
begin

text \<open>
  The incremental reader on Windows: the Windows branch of
  \<open>IncrementalFrameReader::read_available\<close> of \<open>kernel/src/protocol.cpp\<close>. A pipe of Windows is not
  nonblocking; the loop asks how many bytes are there and reads no more than those. What it does
  with them is shared with the other branch (theory \<open>Protocol\<close>).
\<close>

section \<open>The reading loop\<close>

text \<open>
  What \<open>PeekNamedPipe\<close> finds in one turn of the loop: bytes, none, a pipe whose other end is closed,
  or an error. \<open>_read\<close> of as many bytes as are there returns them, unless it fails itself.
\<close>

datatype peek_event =
    PeekData byte "byte list"
  | PeekEmpty
  | PeekBroken
  | PeekFailed string
  | BadDescriptor
  | DataLost byte "byte list" string

definition unpeek :: "byte list \<Rightarrow> peek_event list \<Rightarrow> peek_event list" where
  "unpeek bs es = (case bs of [] \<Rightarrow> es | c # cs \<Rightarrow> PeekData c cs # es)"

definition int_max :: nat where
  "int_max = 2147483647"

function windows_fill_buffer ::
    "nat \<Rightarrow> byte list \<Rightarrow> peek_event list \<Rightarrow> exn option \<times> byte list \<times> peek_event list" where
  "windows_fill_buffer done buf es =
     (if done \<ge> kReadBudget then (None, buf, es)
      else let requested = min kChunkSize (kReadBudget - done) in
        (case es of
            [] \<Rightarrow> (None, buf, [])
          | BadDescriptor # es' \<Rightarrow> (Some (RuntimeError ''worker IPC descriptor is invalid''), buf, es)
          | PeekBroken # es' \<Rightarrow>
              (Some (if buf = [] then RuntimeError ''peer closed framed IPC''
                     else FramingError ''peer closed during partial framed IPC''), buf, es)
          | PeekFailed m # es' \<Rightarrow> (Some (RuntimeError (''worker IPC peek failed: Windows error '' @ m)), buf, es')
          | PeekEmpty # es' \<Rightarrow> (None, buf, es')
          | PeekData b bs # es' \<Rightarrow>
              (let amount = min requested (min (length (b # bs)) int_max);
                   got = take amount (b # bs); es'' = unpeek (drop amount (b # bs)) es' in
               if length got > kMaxBufferedFrame - min (length buf) kMaxBufferedFrame
               then (Some (FramingError ''worker frame exceeds bounded incremental buffer''), buf, es'')
               else windows_fill_buffer (done + length got) (buf @ got) es'')
          | DataLost b bs m # es' \<Rightarrow> (Some (RuntimeError (''IPC read failed: '' @ m)), buf, es')))"
  by pat_completeness auto
termination
proof (relation "measure (\<lambda>(n, buf, es). (kReadBudget - n) + length es)", goal_cases)
  case 1
  show ?case by simp
next
  case (2 n buf es r x es' b bs am xa xb)
  then have "0 < length xa"
    by (simp add: kChunkSize_def int_max_def)
  moreover have "length xb \<le> length es"
    using 2 by (simp add: unpeek_def split: list.splits)
  moreover have "n < kReadBudget"
    using 2 by simp
  ultimately show ?case
    by (simp only: in_measure split_conv)
qed

declare windows_fill_buffer.simps [simp del]

definition windows_read_available ::
    "byte list \<Rightarrow> peek_event list \<Rightarrow> Frame option result \<times> byte list \<times> peek_event list" where
  "windows_read_available buf es =
     (case windows_fill_buffer 0 buf es of
        (Some e, buf', es') \<Rightarrow> (Inl e, buf', es')
      | (None, buf', es') \<Rightarrow> (case take_frame buf' of (r, buf'') \<Rightarrow> (r, buf'', es')))"

section \<open>The same as on POSIX\<close>

text \<open>What a nonblocking \<open>read\<close> answers where \<open>PeekNamedPipe\<close> finds the same.\<close>

fun posix_event :: "peek_event \<Rightarrow> read_event" where
  "posix_event (PeekData b bs) = Chunk b bs"
| "posix_event PeekEmpty = WouldBlock"
| "posix_event PeekBroken = Eof"
| "posix_event (PeekFailed m) = ReadError m"
| "posix_event BadDescriptor = ReadError ''Bad file descriptor''"
| "posix_event (DataLost b bs m) = ReadError m"

fun no_failure :: "peek_event \<Rightarrow> bool" where
  "no_failure (PeekFailed m) = False"
| "no_failure BadDescriptor = False"
| "no_failure (DataLost b bs m) = False"
| "no_failure _ = True"

lemma unpeek_posix [simp]: "map posix_event (unpeek bs es) = unread bs (map posix_event es)"
  by (simp add: unpeek_def unread_def split: list.split)

lemma unpeek_no_failure [simp]: "list_all no_failure (unpeek bs es) = list_all no_failure es"
  by (simp add: unpeek_def split: list.split)

text \<open>At most a chunk is requested, so the bound of \<open>int\<close> never matters.\<close>

lemma peek_amount:
  assumes "amount = min (min kChunkSize r) (min (length bs) int_max)"
  shows "take amount bs = take (min kChunkSize r) bs" and "drop amount bs = drop (min kChunkSize r) bs"
proof -
  have "min (min kChunkSize r) (min (length bs) int_max) = min (min kChunkSize r) (length bs)"
    by (simp add: kChunkSize_def int_max_def min_def)
  then show "take amount bs = take (min kChunkSize r) bs" and "drop amount bs = drop (min kChunkSize r) bs"
    unfolding assms by (auto simp: min_def)
qed

text \<open>
  The two loops on the same pipe: they leave the same buffer and one ends with an exception when
  the other does. The exception and what is left in the pipe differ only when a system call failed.
\<close>

lemma windows_fill_buffer_posix:
  "case windows_fill_buffer n buf es of (e, buf', es') \<Rightarrow>
     \<exists>e2 es2. fill_buffer n buf (map posix_event es) = (e2, buf', es2) \<and> (e2 = None \<longleftrightarrow> e = None)
       \<and> (e = None \<or> list_all no_failure es \<longrightarrow> e2 = e \<and> es2 = map posix_event es')
       \<and> (list_all no_failure es \<longrightarrow> list_all no_failure es')"
proof (induction n buf es rule: windows_fill_buffer.induct)
  case (1 n buf es)
  show ?case
  proof (cases "kReadBudget \<le> n \<or> es = []")
    case True
    then show ?thesis
      by (auto simp: fill_buffer.simps [of n] windows_fill_buffer.simps [of n])
  next
    case False
    then obtain e es' where es: "es = e # es'" and budget: "\<not> kReadBudget \<le> n"
      by (auto simp: neq_Nil_conv)
    show ?thesis
    proof (cases e)
      case (PeekData b bs)
      define r where "r = min kChunkSize (kReadBudget - n)"
      define amount where "amount = min r (min (length (b # bs)) int_max)"
      have same: "take amount (b # bs) = take r (b # bs)" "drop amount (b # bs) = drop r (b # bs)"
        using peek_amount [of amount "kReadBudget - n" "b # bs"] by (simp_all add: amount_def r_def)
      have win: "windows_fill_buffer n buf es =
          (if kMaxBufferedFrame - min (length buf) kMaxBufferedFrame < length (take r (b # bs))
           then (Some (FramingError ''worker frame exceeds bounded incremental buffer''), buf, unpeek (drop r (b # bs)) es')
           else windows_fill_buffer (n + length (take r (b # bs))) (buf @ take r (b # bs)) (unpeek (drop r (b # bs)) es'))"
        using budget unfolding same [symmetric] unfolding amount_def r_def
        by (subst windows_fill_buffer.simps) (simp only: es PeekData list.case peek_event.case Let_def if_False)
      have posix: "fill_buffer n buf (map posix_event es) =
          (if kMaxBufferedFrame - min (length buf) kMaxBufferedFrame < length (take r (b # bs))
           then (Some (FramingError ''worker frame exceeds bounded incremental buffer''), buf, unread (drop r (b # bs)) (map posix_event es'))
           else fill_buffer (n + length (take r (b # bs))) (buf @ take r (b # bs)) (unread (drop r (b # bs)) (map posix_event es')))"
        using fill_buffer_Chunk [OF budget r_def refl refl] by (simp add: es PeekData)
      have calm: "list_all no_failure es = list_all no_failure (unpeek (drop r (b # bs)) es')"
        by (simp add: es PeekData unpeek_no_failure)
      show ?thesis
      proof (cases "kMaxBufferedFrame - min (length buf) kMaxBufferedFrame < length (take r (b # bs))")
        case True
        then show ?thesis
          unfolding win posix calm by simp
      next
        case fits: False
        note ih = "1.IH" [OF budget r_def es PeekData amount_def refl refl, unfolded same, OF fits]
        show ?thesis
          unfolding win posix if_not_P [OF fits] calm using ih by (simp only: unpeek_posix)
      qed
    qed (use budget es in \<open>simp_all add: fill_buffer.simps [of n] windows_fill_buffer.simps [of n]\<close>)
  qed
qed

text \<open>
  The reader of Windows returns the frames of the other one, keeps the same buffer, and raises an
  exception when the other one does.
\<close>

lemma windows_read_available_posix:
  assumes "windows_read_available buf es = (r, buf', es')"
  shows "\<exists>r2 es2. read_available buf (map posix_event es) = (r2, buf', es2) \<and> isl r2 = isl r
    \<and> (\<not> isl r \<or> list_all no_failure es \<longrightarrow> r2 = r \<and> es2 = map posix_event es')
    \<and> (list_all no_failure es \<longrightarrow> list_all no_failure es')"
proof -
  obtain e b rest where fill: "windows_fill_buffer 0 buf es = (e, b, rest)"
    by (metis prod_cases3)
  then show ?thesis
    using assms windows_fill_buffer_posix [of 0 buf es]
    by (auto simp: read_available_def windows_read_available_def split: prod.splits option.splits)
qed

end
