(* ===== verification/Windows_Execute.thy ===== *)
theory Windows_Execute
  imports Worker_Execute Windows_Workers Windows_Reader
begin

text \<open>
  One attempt on a worker process on Windows: \<open>WorkerProcess::execute\<close> of
  \<open>kernel/src/worker_runtime.cpp\<close> with its Windows branches. The pipe to the worker is not
  nonblocking, so \<open>_write\<close> may not return; there is no \<open>poll\<close>, the loops sleep; and what is read
  comes from the reader of theory \<open>Windows_Reader\<close>. As in theory \<open>Worker_Execute\<close>, a turn is a record
  of the answers of one round.
\<close>

section \<open>The worker and its environment\<close>

record win_process =
  win_members :: win_worker
  win_engine_id :: string
  win_reader :: "byte list"

type_synonym win_state = "win_process \<times> win_host"

text \<open>What \<open>WaitForSingleObject\<close> and \<open>GetExitCodeProcess\<close> answer.\<close>

type_synonym win_exit = "win_wait \<times> nat option"

datatype win_write = WinWrote nat | WinWriteFailed string | WinWriteBlocks

record win_write_turn =
  wwt_stopping :: bool
  wwt_cancelled :: "bool result"
  wwt_now :: i64
  wwt_exit :: win_exit
  wwt_write :: win_write
  wwt_exit_failed :: win_exit

record win_read_turn =
  wrt_arrived :: "peek_event list"
  wrt_exit_failed :: win_exit
  wrt_stopping :: bool
  wrt_cancelled :: "bool result"
  wrt_now :: i64
  wrt_late :: "peek_event list"
  wrt_exit_late :: win_exit
  wrt_exit :: win_exit

definition check_alive :: "win_exit \<Rightarrow> win_state \<Rightarrow> bool \<times> win_state" where
  "check_alive x s =
     (case windows_alive (fst x) (snd x) (win_members (fst s)) (snd s) of
        (b, m, h) \<Rightarrow> (b, (fst s)\<lparr>win_members := m\<rparr>, h))"

definition end_worker :: "nat option \<Rightarrow> win_state \<Rightarrow> win_state" where
  "end_worker killed s =
     (case windows_terminate killed (win_members (fst s)) (snd s) of (m, h) \<Rightarrow> ((fst s)\<lparr>win_members := m\<rparr>, h))"

definition win_crash :: "win_state \<Rightarrow> WorkerOutcome" where
  "win_crash s = outcome Crashed (''WORKER_CRASH: '' @ windows_exit_description (win_members (fst s)))"

section \<open>Writing the request\<close>

text \<open>\<open>_write\<close> is given at most \<open>INT_MAX\<close> bytes and writes at most what it is given.\<close>

fun windows_write_loop ::
    "exec_call \<Rightarrow> nat option \<Rightarrow> byte list \<Rightarrow> win_write_turn list \<Rightarrow> win_state \<Rightarrow>
     WorkerOutcome option io \<times> win_state \<times> byte list" where
  "windows_write_loop call killed [] ts s = (Return None, s, [])"
| "windows_write_loop call killed (b # bs) [] s = (Blocked, s, [])"
| "windows_write_loop call killed (b # bs) (t # ts) s =
     (if wwt_stopping t then (Return (Some (outcome Stopped [])), end_worker killed s, [])
      else case wwt_cancelled t of
        Inl e \<Rightarrow> (Throw e, s, [])
      | Inr True \<Rightarrow> (Return (Some (outcome Cancelled ''cancelled'')), end_worker killed s, [])
      | Inr False \<Rightarrow>
          if stop_reached call (wwt_now t)
          then (Return (Some (timeout_outcome call)), end_worker killed s, [])
          else case check_alive (wwt_exit t) s of
            (False, s1) \<Rightarrow> (Return (Some (win_crash s1)), s1, [])
          | (True, s1) \<Rightarrow>
              (case wwt_write t of
                 WinWriteBlocks \<Rightarrow> (Blocked, s1, [])
               | WinWrote k \<Rightarrow>
                   (let n = min k (min (length (b # bs)) int_max)
                    in if n > 0
                       then (case windows_write_loop call killed (drop n (b # bs)) ts s1 of
                               (r, s2, sent) \<Rightarrow> (r, s2, take n (b # bs) @ sent))
                       else windows_write_loop call killed (b # bs) ts s1)
               | WinWriteFailed m \<Rightarrow>
                   (case check_alive (wwt_exit_failed t) s1 of
                      (False, s2) \<Rightarrow> (Return (Some (win_crash s2)), s2, [])
                    | (True, s2) \<Rightarrow>
                        (Return (Some (outcome Crashed
                           (''WORKER_IPC_FAILURE: request write failed: '' @ m))), end_worker killed s2, []))))"

section \<open>Reading the answer\<close>

definition windows_finish_response ::
    "exec_call \<Rightarrow> nat option \<Rightarrow> Frame \<Rightarrow> win_state \<Rightarrow> WorkerOutcome \<times> win_state" where
  "windows_finish_response call killed f s =
     (if correlation_id f \<noteq> call_correlation call
      then (outcome TechnicalFailure ''WORKER_PROTOCOL_FAILURE: correlation id mismatch'', end_worker killed s)
      else if frame_type f = WorkerResult
      then (\<lparr>outcome_kind = Succeeded, outcome_payload = payload f, technical_failure_text = []\<rparr>, s)
      else if frame_type f = WorkerFailure
      then (outcome TechnicalFailure
              (case map_of (metadata f) ''technical_failure'' of
                 None \<Rightarrow> ''WORKER_PROTOCOL_FAILURE: missing technical failure''
               | Some m \<Rightarrow> m), s)
      else (outcome TechnicalFailure ''WORKER_PROTOCOL_FAILURE: unexpected worker response'',
            end_worker killed s))"

definition windows_poll_response ::
    "exec_call \<Rightarrow> nat option \<Rightarrow> win_exit \<Rightarrow> peek_event list \<Rightarrow> win_state \<Rightarrow>
     WorkerOutcome option \<times> win_state \<times> peek_event list" where
  "windows_poll_response call killed x pipe s =
     (case windows_read_available (win_reader (fst s)) pipe of
        (r, buf, rest) \<Rightarrow>
          (let s0 = ((fst s)\<lparr>win_reader := buf\<rparr>, snd s)
           in case r of
                Inl e \<Rightarrow>
                  (case check_alive x s0 of
                     (False, s1) \<Rightarrow> (Some (win_crash s1), s1, rest)
                   | (True, s1) \<Rightarrow>
                       (Some (outcome TechnicalFailure (''WORKER_PROTOCOL_FAILURE: '' @ what e)),
                        end_worker killed s1, rest))
              | Inr None \<Rightarrow> (None, s0, rest)
              | Inr (Some f) \<Rightarrow> (case windows_finish_response call killed f s0 of (out, s1) \<Rightarrow> (Some out, s1, rest))))"

fun windows_read_loop ::
    "exec_call \<Rightarrow> nat option \<Rightarrow> peek_event list \<Rightarrow> win_read_turn list \<Rightarrow> win_state \<Rightarrow>
     WorkerOutcome io \<times> win_state \<times> peek_event list" where
  "windows_read_loop call killed pipe [] s = (Blocked, s, pipe)"
| "windows_read_loop call killed pipe (t # ts) s =
     (case windows_poll_response call killed (wrt_exit_failed t) (pipe @ wrt_arrived t) s of
        (Some out, s1, rest) \<Rightarrow> (Return out, s1, rest)
      | (None, s1, rest) \<Rightarrow>
          if wrt_stopping t then (Return (outcome Stopped []), end_worker killed s1, rest)
          else case wrt_cancelled t of
            Inl e \<Rightarrow> (Throw e, s1, rest)
          | Inr True \<Rightarrow>
              (case windows_poll_response call killed (wrt_exit_late t) (rest @ wrt_late t) s1 of
                 (Some out, s2, rest2) \<Rightarrow> (Return out, s2, rest2)
               | (None, s2, rest2) \<Rightarrow> (Return (outcome Cancelled ''cancelled''), end_worker killed s2, rest2))
          | Inr False \<Rightarrow>
              if stop_reached call (wrt_now t) then
                (case windows_poll_response call killed (wrt_exit_late t) (rest @ wrt_late t) s1 of
                   (Some out, s2, rest2) \<Rightarrow> (Return out, s2, rest2)
                 | (None, s2, rest2) \<Rightarrow> (Return (timeout_outcome call), end_worker killed s2, rest2))
              else case check_alive (wrt_exit t) s1 of
                (False, s2) \<Rightarrow> (Return (win_crash s2), s2, rest)
              | (True, s2) \<Rightarrow> windows_read_loop call killed rest ts s2)"

section \<open>The whole attempt\<close>

record win_exec_env =
  wenv_exit :: win_exit
  wenv_writes :: "win_write_turn list"
  wenv_pipe :: "peek_event list"
  wenv_reads :: "win_read_turn list"

definition win_execute_request :: "win_process \<Rightarrow> u64 \<Rightarrow> i64 \<Rightarrow> byte list \<Rightarrow> Frame" where
  "win_execute_request p correlation started payload_bytes =
     \<lparr>frame_type = WorkerExecute, correlation_id = correlation,
      metadata = map_assign_all [(''engine_id'', win_engine_id p),
                                 (''attempt_started_at_ms'', string_of_int started)] [],
      payload = payload_bytes\<rparr>"

definition windows_execute ::
    "exec_call \<Rightarrow> nat option \<Rightarrow> win_exec_env \<Rightarrow> byte list \<Rightarrow> i64 \<Rightarrow> win_state \<Rightarrow>
     WorkerOutcome io \<times> win_state \<times> byte list" where
  "windows_execute call killed env payload_bytes started s =
     (case check_alive (wenv_exit env) s of
        (False, s1) \<Rightarrow> (Return (win_crash s1), s1, [])
      | (True, s1) \<Rightarrow>
          (case encode_frame (win_execute_request (fst s1) (call_correlation call) started payload_bytes) of
             Inl e \<Rightarrow> (Return (outcome TechnicalFailure (''WORKER_PROTOCOL_FAILURE: '' @ what e)),
                       end_worker killed s1, [])
           | Inr request \<Rightarrow>
               (case windows_write_loop call killed request (wenv_writes env) s1 of
                  (Return (Some out), s2, sent) \<Rightarrow> (Return out, s2, sent)
                | (Throw e, s2, sent) \<Rightarrow> (Throw e, s2, sent)
                | (Blocked, s2, sent) \<Rightarrow> (Blocked, s2, sent)
                | (Return None, s2, sent) \<Rightarrow>
                    (case windows_read_loop call killed (wenv_pipe env) (wenv_reads env) s2 of
                       (r, s3, _) \<Rightarrow> (r, s3, sent)))))"

section \<open>The environment of the other branch\<close>

text \<open>
  What a POSIX system would answer in the same situation. A \<open>_write\<close> that does not return is the
  last thing that happens.
\<close>

fun posix_wait :: "win_exit \<Rightarrow> wait_result" where
  "posix_wait (WaitTimeout, _) = Running"
| "posix_wait (WaitExited, _) = Exited 0"
| "posix_wait (WaitOther, _) = WaitError"

definition posix_write_turn :: "win_write_turn \<Rightarrow> write_turn" where
  "posix_write_turn t =
     \<lparr>wt_stopping = wwt_stopping t, wt_cancelled = wwt_cancelled t, wt_now = wwt_now t, wt_wait = posix_wait (wwt_exit t),
      wt_write = (case wwt_write t of WinWrote n \<Rightarrow> Wrote (min n int_max) | WinWriteFailed m \<Rightarrow> WriteFailed m
        | WinWriteBlocks \<Rightarrow> WriteRetry),
      wt_wait_failed = posix_wait (wwt_exit_failed t), wt_poll_error = None\<rparr>"

fun posix_write_turns :: "win_write_turn list \<Rightarrow> write_turn list" where
  "posix_write_turns [] = []"
| "posix_write_turns (t # ts) =
     posix_write_turn t # (if wwt_write t = WinWriteBlocks then [] else posix_write_turns ts)"

definition posix_read_turn :: "win_read_turn \<Rightarrow> read_turn" where
  "posix_read_turn t =
     \<lparr>rt_arrived = map posix_event (wrt_arrived t), rt_wait_failed = posix_wait (wrt_exit_failed t),
      rt_stopping = wrt_stopping t, rt_cancelled = wrt_cancelled t, rt_now = wrt_now t,
      rt_late = map posix_event (wrt_late t), rt_wait_late = posix_wait (wrt_exit_late t),
      rt_wait = posix_wait (wrt_exit t), rt_poll_error = None\<rparr>"

definition posix_env :: "win_exec_env \<Rightarrow> exec_env" where
  "posix_env env =
     \<lparr>env_wait = posix_wait (wenv_exit env), env_writes = posix_write_turns (wenv_writes env),
      env_pipe = map posix_event (wenv_pipe env), env_reads = map posix_read_turn (wenv_reads env)\<rparr>"

text \<open>No system call on the pipe from the worker fails.\<close>

definition calm_pipe :: "win_exec_env \<Rightarrow> bool" where
  "calm_pipe env \<longleftrightarrow> list_all no_failure (wenv_pipe env)
     \<and> list_all (\<lambda>t. list_all no_failure (wrt_arrived t) \<and> list_all no_failure (wrt_late t)) (wenv_reads env)"

section \<open>The two branches side by side\<close>

text \<open>The same worker, and what became of the handles and descriptors of the Kernel.\<close>

definition same_worker :: "win_process \<Rightarrow> WorkerProcess \<Rightarrow> bool" where
  "same_worker p w \<longleftrightarrow> (process_handle (win_members p) = None \<longleftrightarrow> pid w < 0)
     \<and> win_engine_id p = worker_engine_id w \<and> win_reader p = response_reader w"

definition handles_kept :: "win_state \<Rightarrow> win_state \<Rightarrow> bool" where
  "handles_kept s s' \<longleftrightarrow>
     (if process_handle (win_members (fst s')) = process_handle (win_members (fst s))
      then win_members (fst s') = win_members (fst s) \<and> snd s' = snd s
      else process_handle (win_members (fst s')) = None
        \<and> handles (snd s') = handles (snd (windows_terminate None (win_members (fst s)) (snd s)))
        \<and> crt_fds (snd s') = crt_fds (snd (windows_terminate None (win_members (fst s)) (snd s))))"

text \<open>
  The same outcome. How a process ended is told in words of the operating system, and so is the
  failure of a system call on the pipe.
\<close>

definition same_outcome :: "bool \<Rightarrow> WorkerOutcome \<Rightarrow> WorkerOutcome \<Rightarrow> bool" where
  "same_outcome calm a b \<longleftrightarrow>
     (a = b
      \<or> (\<exists>d d'. a = outcome Crashed (''WORKER_CRASH: '' @ d) \<and> b = outcome Crashed (''WORKER_CRASH: '' @ d'))
      \<or> \<not> calm \<and> (\<exists>d d'. a = outcome TechnicalFailure (''WORKER_PROTOCOL_FAILURE: '' @ d)
          \<and> b = outcome TechnicalFailure (''WORKER_PROTOCOL_FAILURE: '' @ d')))"

lemma same_outcome_refl [simp]: "same_outcome calm a a"
  by (simp add: same_outcome_def)

lemma same_outcome_crash [simp]: "same_outcome calm (win_crash s) (crash_outcome w)"
  by (auto simp: same_outcome_def win_crash_def crash_outcome_def)

lemma handles_kept_refl [simp]: "handles_kept s s"
  by (simp add: handles_kept_def)

lemma handles_kept_reader [simp]: "handles_kept (p\<lparr>win_reader := buf\<rparr>, h) s = handles_kept (p, h) s"
  by (simp add: handles_kept_def)

lemma handles_kept_reader' [simp]: "handles_kept s (p\<lparr>win_reader := buf\<rparr>, h) = handles_kept s (p, h)"
  by (simp add: handles_kept_def)

text \<open>A worker whose process has not been seen to end.\<close>

definition running_worker :: "win_state \<Rightarrow> bool" where
  "running_worker s \<longleftrightarrow> process_handle (win_members (fst s)) \<noteq> None"

lemma close_win_fd_children [simp]:
  "handles (close_win_fd fd (h\<lparr>win_children := cs\<rparr>)) = handles (close_win_fd fd h)"
  "crt_fds (close_win_fd fd (h\<lparr>win_children := cs\<rparr>)) = crt_fds (close_win_fd fd h)"
  "close_win_fd fd (h\<lparr>win_children := cs\<rparr>) = (close_win_fd fd h)\<lparr>win_children := cs\<rparr>"
  by (simp_all add: close_win_fd_def crt_close_def close_handle_def split: option.split)

lemma check_alive_sim:
  assumes "same_worker (fst s) w" and "check_alive x s = (b, s1)"
  obtains w1 where "process_alive (posix_wait x) w = (b, w1)" "same_worker (fst s1) w1" "handles_kept s s1"
    "b \<Longrightarrow> s1 = s \<and> w1 = w \<and> running_worker s"
proof -
  obtain p h where s: "s = (p, h)"
    by fastforce
  obtain a code where x: "x = (a, code)"
    by fastforce
  have "\<exists>w1. process_alive (posix_wait x) w = (b, w1) \<and> same_worker (fst s1) w1 \<and> handles_kept s s1
    \<and> (b \<longrightarrow> s1 = s \<and> w1 = w \<and> running_worker s)"
    using assms unfolding s x
    by (cases a; cases "process_handle (win_members p)")
      (auto simp: check_alive_def windows_alive_def forget_process_def same_worker_def process_alive_def
        handles_kept_def running_worker_def windows_terminate_def)
  then show thesis
    using that by blast
qed

lemma end_worker_sim:
  assumes "same_worker (fst s) w" and "running_worker s"
  shows "same_worker (fst (end_worker killed s)) (end_process call w)" and "handles_kept s (end_worker killed s)"
  using assms
  by (auto simp: end_worker_def windows_terminate_def forget_process_def same_worker_def handles_kept_def running_worker_def
      end_process_def terminate_process_def split: option.split)

section \<open>Simulation of the loops\<close>

lemma posix_write_turn_fields [simp]:
  "wt_stopping (posix_write_turn t) = wwt_stopping t" "wt_cancelled (posix_write_turn t) = wwt_cancelled t"
  "wt_now (posix_write_turn t) = wwt_now t" "wt_wait (posix_write_turn t) = posix_wait (wwt_exit t)"
  "wt_wait_failed (posix_write_turn t) = posix_wait (wwt_exit_failed t)" "wt_poll_error (posix_write_turn t) = None"
  "wt_write (posix_write_turn t) = (case wwt_write t of WinWrote n \<Rightarrow> Wrote (min n int_max) | WinWriteFailed m \<Rightarrow> WriteFailed m
    | WinWriteBlocks \<Rightarrow> WriteRetry)"
  by (simp_all add: posix_write_turn_def)

text \<open>What the two writing loops have in common when they start from the same worker.\<close>

definition writes_alike ::
    "bool \<Rightarrow> win_state \<Rightarrow> WorkerOutcome option io \<times> win_state \<times> byte list \<Rightarrow>
     WorkerOutcome option io \<times> WorkerProcess \<times> byte list \<Rightarrow> bool" where
  "writes_alike calm s a b \<longleftrightarrow>
     (case (a, b) of ((r, s', sent), (r2, w', sent2)) \<Rightarrow>
        rel_io (rel_option (same_outcome calm)) r r2 \<and> sent = sent2 \<and> same_worker (fst s') w' \<and> handles_kept s s'
        \<and> (r = Return None \<longrightarrow> s' = s))"

lemma windows_write_loop_sim:
  "same_worker (fst s) w \<Longrightarrow> running_worker s \<Longrightarrow>
     writes_alike calm s (windows_write_loop call killed bs ts s) (write_loop call bs (posix_write_turns ts) w)"
proof (induction ts arbitrary: bs)
  case Nil
  then show ?case
    by (cases bs) (simp_all add: writes_alike_def)
next
  case (Cons t ts)
  note same = Cons.prems(1) and run = Cons.prems(2)
  show ?case
  proof (cases bs)
    case Nil
    then show ?thesis
      using same by (simp add: writes_alike_def)
  next
    case bs: (Cons b cs)
    define us where "us = (if wwt_write t = WinWriteBlocks then [] else posix_write_turns ts)"
    have turns: "posix_write_turns (t # ts) = posix_write_turn t # us"
      by (simp add: us_def)
    note step = write_loop.simps(3) [of call b cs "posix_write_turn t" us w]
    show ?thesis
    proof (cases "wwt_stopping t \<or> wwt_cancelled t \<noteq> Inr False \<or> stop_reached call (wwt_now t)")
      case True
      then show ?thesis
        unfolding bs turns using end_worker_sim [OF same run] same
        by (auto simp: step writes_alike_def split: sum.splits bool.splits)
    next
      case go: False
      obtain b1 s1 where alive: "check_alive (wwt_exit t) s = (b1, s1)"
        by (metis surj_pair)
      obtain w1 where alive2: "process_alive (posix_wait (wwt_exit t)) w = (b1, w1)"
        and ended: "same_worker (fst s1) w1" "handles_kept s s1" and live: "b1 \<Longrightarrow> s1 = s \<and> w1 = w \<and> running_worker s"
        using check_alive_sim [OF same alive] by blast
      show ?thesis
      proof (cases b1)
        case False
        then show ?thesis
          unfolding bs turns using go alive alive2 ended by (auto simp: step writes_alike_def)
      next
        case True
        then have alive: "check_alive (wwt_exit t) s = (True, s)" "process_alive (posix_wait (wwt_exit t)) w = (True, w)"
          using alive alive2 live by auto
        show ?thesis
        proof (cases "wwt_write t")
          case WinWriteBlocks
          then show ?thesis
            unfolding bs turns step using go alive same by (auto simp: us_def writes_alike_def)
        next
          case (WinWriteFailed m)
          obtain b2 s2 where again: "check_alive (wwt_exit_failed t) s = (b2, s2)"
            by (metis surj_pair)
          obtain w2 where "process_alive (posix_wait (wwt_exit_failed t)) w = (b2, w2)" "same_worker (fst s2) w2"
            "handles_kept s s2" "b2 \<Longrightarrow> s2 = s \<and> w2 = w \<and> running_worker s"
            using check_alive_sim [OF same again] by blast
          then show ?thesis
            unfolding bs turns using go alive WinWriteFailed again end_worker_sim [OF same run]
            by (cases b2) (auto simp: step writes_alike_def)
        next
          case (WinWrote k)
          define n where "n = min k (min (length bs) int_max)"
          have cut: "take (min k int_max) bs = take n bs" "drop (min k int_max) bs = drop n bs"
            "0 < min k int_max \<longleftrightarrow> 0 < n"
            by (auto simp: n_def min_def int_max_def bs)
          have posix: "write_loop call bs (posix_write_turns (t # ts)) w =
              (if n > 0 then (case write_loop call (drop n bs) (posix_write_turns ts) w of
                  (r, w2, sent) \<Rightarrow> (r, w2, take n bs @ sent))
               else write_loop call bs (posix_write_turns ts) w)"
            unfolding cut [symmetric] unfolding bs turns step using go alive(2) WinWrote by (simp add: us_def)
          have win: "windows_write_loop call killed bs (t # ts) s =
              (if n > 0 then (case windows_write_loop call killed (drop n bs) ts s of
                  (r, s2, sent) \<Rightarrow> (r, s2, take n bs @ sent))
               else windows_write_loop call killed bs ts s)"
            unfolding n_def unfolding bs windows_write_loop.simps(3) using go alive(1) WinWrote by (simp only: Let_def) simp
          show ?thesis
            unfolding win posix using Cons.IH [OF same run, of "drop n bs"] Cons.IH [OF same run, of bs]
            by (auto simp: writes_alike_def)
        qed
      qed
    qed
  qed
qed

lemma finish_response_sim:
  assumes "same_worker (fst s) w" and "running_worker s"
    and "windows_finish_response call killed f s = (out, s')" and "finish_response call f w = (out2, w')"
  shows "out = out2" and "same_worker (fst s') w'" and "handles_kept s s'"
  using assms end_worker_sim [OF assms(1,2), where killed = killed]
  by (auto simp: windows_finish_response_def finish_response_def split: if_splits)

lemma handles_kept_same:
  assumes "win_members (fst s1) = win_members (fst s)" and "snd s1 = snd s"
  shows "handles_kept s1 s' = handles_kept s s'" and "running_worker s1 = running_worker s"
  using assms by (simp_all add: handles_kept_def running_worker_def)

text \<open>One call of the reader with the handling of its exception.\<close>

definition polls_alike ::
    "bool \<Rightarrow> win_state \<Rightarrow> WorkerOutcome option \<times> win_state \<times> peek_event list \<Rightarrow>
     WorkerOutcome option \<times> WorkerProcess \<times> read_event list \<Rightarrow> bool" where
  "polls_alike calm s a b \<longleftrightarrow>
     (case (a, b) of ((out, s', rest), (out2, w', rest2)) \<Rightarrow>
        rel_option (same_outcome calm) out out2 \<and> same_worker (fst s') w' \<and> handles_kept s s'
        \<and> (out = None \<longrightarrow> rest2 = map posix_event rest \<and> win_members (fst s') = win_members (fst s) \<and> snd s' = snd s)
        \<and> (calm \<longrightarrow> list_all no_failure rest))"

lemma windows_poll_response_sim:
  assumes same: "same_worker (fst s) w" and run: "running_worker s" and calm: "calm \<longrightarrow> list_all no_failure pipe"
  shows "polls_alike calm s (windows_poll_response call killed x pipe s)
    (poll_response call (posix_wait x) (map posix_event pipe) w)"
proof -
  obtain r buf rest where read: "windows_read_available (win_reader (fst s)) pipe = (r, buf, rest)"
    by (metis prod_cases3)
  obtain r2 rest2 where read2: "read_available (response_reader w) (map posix_event pipe) = (r2, buf, rest2)"
    and kinds: "isl r2 = isl r" and alike: "\<not> isl r \<or> list_all no_failure pipe \<longrightarrow> r2 = r \<and> rest2 = map posix_event rest"
    and calm': "calm \<longrightarrow> list_all no_failure rest"
    using windows_read_available_posix [OF read] same calm by (auto simp: same_worker_def)
  define s0 where "s0 = ((fst s)\<lparr>win_reader := buf\<rparr>, snd s)"
  define w0 where "w0 = w\<lparr>response_reader := buf\<rparr>"
  have s0: "same_worker (fst s0) w0" "win_members (fst s0) = win_members (fst s)" "snd s0 = snd s"
    using same by (simp_all add: same_worker_def s0_def w0_def)
  note kept = handles_kept_same [OF s0(2,3)]
  have run0: "running_worker s0"
    using run kept by simp
  show ?thesis
  proof (cases r)
    case (Inl e)
    then obtain e2 where e2: "r2 = Inl e2" "calm \<longrightarrow> e2 = e"
      using kinds alike calm by (cases r2) auto
    obtain b s1 where alive: "check_alive x s0 = (b, s1)"
      by (metis surj_pair)
    obtain w1 where w1: "process_alive (posix_wait x) w0 = (b, w1)" "same_worker (fst s1) w1" "handles_kept s0 s1"
      "b \<Longrightarrow> s1 = s0 \<and> w1 = w0 \<and> running_worker s0"
      using check_alive_sim [OF s0(1) alive] by blast
    show ?thesis
    proof (cases b)
      case False
      then show ?thesis
        using Inl e2 read read2 alive w1 calm' kept
        by (simp add: windows_poll_response_def poll_response_def s0_def [symmetric] w0_def [symmetric] polls_alike_def)
    next
      case True
      have "same_outcome calm (outcome TechnicalFailure (''WORKER_PROTOCOL_FAILURE: '' @ what e))
          (outcome TechnicalFailure (''WORKER_PROTOCOL_FAILURE: '' @ what e2))"
        using e2(2) by (auto simp: same_outcome_def)
      then show ?thesis
        using True Inl e2(1) read read2 alive w1 calm' kept end_worker_sim [OF s0(1) run0, where killed = killed]
        by (simp add: windows_poll_response_def poll_response_def s0_def [symmetric] w0_def [symmetric] polls_alike_def)
    qed
  next
    case (Inr fo)
    then have r2: "r2 = Inr fo" "rest2 = map posix_event rest"
      using alike by auto
    show ?thesis
    proof (cases fo)
      case None
      then show ?thesis
        using Inr r2 read read2 calm' s0 kept(1) [of s0]
        by (simp add: windows_poll_response_def poll_response_def s0_def [symmetric] w0_def [symmetric] polls_alike_def)
    next
      case (Some f)
      obtain out s1 where fin: "windows_finish_response call killed f s0 = (out, s1)"
        by (metis surj_pair)
      obtain out2 w1 where fin2: "finish_response call f w0 = (out2, w1)"
        by fastforce
      show ?thesis
        using Some Inr r2 read read2 fin fin2 calm' kept finish_response_sim [OF s0(1) run0 fin fin2]
        by (simp add: windows_poll_response_def poll_response_def s0_def [symmetric] w0_def [symmetric] polls_alike_def)
    qed
  qed
qed

lemma posix_read_turn_fields [simp]:
  "rt_arrived (posix_read_turn t) = map posix_event (wrt_arrived t)" "rt_late (posix_read_turn t) = map posix_event (wrt_late t)"
  "rt_wait_failed (posix_read_turn t) = posix_wait (wrt_exit_failed t)" "rt_wait_late (posix_read_turn t) = posix_wait (wrt_exit_late t)"
  "rt_wait (posix_read_turn t) = posix_wait (wrt_exit t)" "rt_stopping (posix_read_turn t) = wrt_stopping t"
  "rt_cancelled (posix_read_turn t) = wrt_cancelled t" "rt_now (posix_read_turn t) = wrt_now t"
  "rt_poll_error (posix_read_turn t) = None"
  by (simp_all add: posix_read_turn_def)

definition reads_alike ::
    "bool \<Rightarrow> win_state \<Rightarrow> WorkerOutcome io \<times> win_state \<times> peek_event list \<Rightarrow>
     WorkerOutcome io \<times> WorkerProcess \<times> read_event list \<Rightarrow> bool" where
  "reads_alike calm s a b \<longleftrightarrow>
     (case (a, b) of ((r, s', rest), (r2, w', rest2)) \<Rightarrow>
        rel_io (same_outcome calm) r r2 \<and> same_worker (fst s') w' \<and> handles_kept s s')"

abbreviation calm_turn :: "win_read_turn \<Rightarrow> bool" where
  "calm_turn t \<equiv> list_all no_failure (wrt_arrived t) \<and> list_all no_failure (wrt_late t)"

lemma windows_read_loop_sim:
  "same_worker (fst s) w \<Longrightarrow> running_worker s \<Longrightarrow> calm \<longrightarrow> list_all no_failure pipe \<and> list_all calm_turn ts \<Longrightarrow>
     reads_alike calm s (windows_read_loop call killed pipe ts s)
       (read_loop call (map posix_event pipe) (map posix_read_turn ts) w)"
proof (induction ts arbitrary: pipe s w)
  case Nil
  then show ?case
    by (simp add: reads_alike_def)
next
  case (Cons t ts)
  note same = Cons.prems(1) and run = Cons.prems(2) and calm = Cons.prems(3)
  note step = read_loop.simps(2) [of call "map posix_event pipe" "posix_read_turn t" "map posix_read_turn ts" w]
  obtain o1 s1 rest where poll: "windows_poll_response call killed (wrt_exit_failed t) (pipe @ wrt_arrived t) s = (o1, s1, rest)"
    by (metis prod_cases3)
  obtain o2 w1 rest2 where poll2: "poll_response call (posix_wait (wrt_exit_failed t)) (map posix_event (pipe @ wrt_arrived t)) w = (o2, w1, rest2)"
    by (metis prod_cases3)
  have sim: "rel_option (same_outcome calm) o1 o2" "same_worker (fst s1) w1" "handles_kept s s1"
    "o1 = None \<Longrightarrow> rest2 = map posix_event rest \<and> win_members (fst s1) = win_members (fst s) \<and> snd s1 = snd s"
    "calm \<Longrightarrow> list_all no_failure rest"
    using windows_poll_response_sim [OF same run, of calm "pipe @ wrt_arrived t" call killed "wrt_exit_failed t"] calm
    unfolding poll poll2 polls_alike_def by auto
  show ?case
  proof (cases o1)
    case (Some out)
    then obtain out2 where "o2 = Some out2" "same_outcome calm out out2"
      using sim(1) by (cases o2) auto
    then show ?thesis
      using Some poll poll2 sim by (simp add: step reads_alike_def)
  next
    case None
    then have none: "o2 = None" "rest2 = map posix_event rest" "win_members (fst s1) = win_members (fst s)" "snd s1 = snd s"
      using sim by (cases o2; simp)+
    note kept = handles_kept_same [OF none(3,4)]
    have run1: "running_worker s1"
      using run kept by simp
    obtain o3 s3 rest3 where late: "windows_poll_response call killed (wrt_exit_late t) (rest @ wrt_late t) s1 = (o3, s3, rest3)"
      by (metis prod_cases3)
    obtain o4 w4 rest4 where late2: "poll_response call (posix_wait (wrt_exit_late t)) (map posix_event (rest @ wrt_late t)) w1 = (o4, w4, rest4)"
      by (metis prod_cases3)
    have last: "rel_option (same_outcome calm) o3 o4" "same_worker (fst s3) w4" "handles_kept s1 s3"
      "o3 = None \<Longrightarrow> win_members (fst s3) = win_members (fst s1) \<and> snd s3 = snd s1"
      using windows_poll_response_sim [OF sim(2) run1, of calm "rest @ wrt_late t" call killed "wrt_exit_late t"] calm sim(5)
      unfolding late late2 polls_alike_def by auto
    obtain b s5 where alive: "check_alive (wrt_exit t) s1 = (b, s5)"
      by (metis surj_pair)
    obtain w5 where w5: "process_alive (posix_wait (wrt_exit t)) w1 = (b, w5)" "same_worker (fst s5) w5" "handles_kept s1 s5"
      "b \<Longrightarrow> s5 = s1 \<and> w5 = w1 \<and> running_worker s1"
      using check_alive_sim [OF sim(2) alive] by blast
    have ended: "reads_alike calm s (case (o3, s3, rest3) of (Some out, s2, rest2) \<Rightarrow> (Return out, s2, rest2)
          | (None, s2, rest2) \<Rightarrow> (Return out, end_worker killed s2, rest2))
        (case (o4, w4, rest4) of (Some out, w2, rest2) \<Rightarrow> (Return out, w2, rest2)
          | (None, w2, rest2) \<Rightarrow> (Return out, end_process call w2, rest2))" for out
    proof (cases o3)
      case None
      then have "running_worker s3" "o4 = None" "handles_kept s (end_worker killed s3)
          \<longleftrightarrow> handles_kept s3 (end_worker killed s3)"
        using last(1) last(4) run1 handles_kept_same [of s3 s1] kept by (cases o4; simp)+
      with None show ?thesis
        using end_worker_sim [OF last(2), where killed = killed] by (simp add: reads_alike_def)
    next
      case (Some o')
      then show ?thesis
        using last kept by (cases o4) (simp_all add: reads_alike_def)
    qed
    show ?thesis
    proof (cases "wrt_stopping t \<or> wrt_cancelled t \<noteq> Inr False \<or> stop_reached call (wrt_now t)")
      case True
      then show ?thesis
        using None none poll poll2 late late2 ended [of "timeout_outcome call"] ended [of "outcome Cancelled ''cancelled''"]
          end_worker_sim [OF sim(2) run1, where killed = killed] kept sim(2,3)
        by (cases "wrt_cancelled t") (auto simp: step reads_alike_def split: bool.splits)
    next
      case go: False
      show ?thesis
      proof (cases b)
        case False
        then show ?thesis
          using go None none poll poll2 alive w5 kept by (simp add: step reads_alike_def)
      next
        case True
        have "reads_alike calm s1 (windows_read_loop call killed rest ts s1)
            (read_loop call (map posix_event rest) (map posix_read_turn ts) w1)"
          using Cons.IH [OF sim(2) run1, of rest] calm sim(5) by simp
        then show ?thesis
          using True go None none poll poll2 alive w5 kept by (simp add: step reads_alike_def split: prod.splits)
      qed
    qed
  qed
qed

text \<open>
  Here the branches differ: a \<open>_write\<close> to a worker that does not read its input keeps the attempt,
  whatever the clock, the cancellation and the Kernel say afterwards.
\<close>

lemma windows_write_ignores_stop:
  assumes "\<not> wwt_stopping t" and "wwt_cancelled t = Inr False" and "\<not> stop_reached call (wwt_now t)"
    and "wwt_write t = WinWriteBlocks" and "check_alive (wwt_exit t) s = (True, s1)"
  shows "windows_write_loop call killed (b # bs) (t # ts) s = (Blocked, s1, [])"
  using assms by simp

section \<open>Properties\<close>


text \<open>An attempt whose worker does not answer times out; its three handles are closed.\<close>

definition sample_win_state :: win_state where
  "sample_win_state =
     (\<lparr>win_members = \<lparr>process_handle = Some 5, process_id = 7, win_input_fd = Some 3, win_output_fd = Some 4, last_exit_code = None\<rparr>,
       win_engine_id = worker_engine_id sample_worker, win_reader = []\<rparr>,
      \<lparr>handles = [(1, WinOther 1, False), (5, WinProcess 7, False), (6, WinPipeWriter 0, False), (8, WinPipeReader 1, False)],
       crt_fds = [(3, 6), (4, 8)], std_error = Some 1, objects_made = 2, win_children = []\<rparr>)"

definition sample_win_read :: "i64 \<Rightarrow> win_read_turn" where
  "sample_win_read now =
     \<lparr>wrt_arrived = [], wrt_exit_failed = (WaitTimeout, None), wrt_stopping = False, wrt_cancelled = Inr False, wrt_now = now,
      wrt_late = [], wrt_exit_late = (WaitTimeout, None), wrt_exit = (WaitTimeout, None)\<rparr>"

definition sample_win_env :: win_exec_env where
  "sample_win_env =
     \<lparr>wenv_exit = (WaitTimeout, None),
      wenv_writes = [\<lparr>wwt_stopping = False, wwt_cancelled = Inr False, wwt_now = 20, wwt_exit = (WaitTimeout, None),
        wwt_write = WinWrote 100000, wwt_exit_failed = (WaitTimeout, None)\<rparr>],
      wenv_pipe = [], wenv_reads = [sample_win_read 500, sample_win_read 1000]\<rparr>"


end
