(* ===== verification/Windows_Endpoint.thy ===== *)
theory Windows_Endpoint
  imports Windows_Handles
begin

text \<open>
  The local endpoint on Windows: the Windows branches of \<open>kernel/src/local_ipc.cpp\<close>. \<open>accept_for\<close>
  makes one instance of the named pipe for each client; the constructor keeps a lock file of the
  data directory open without sharing it, so that a second Kernel on that directory cannot open it.
\<close>

section \<open>accept_for\<close>

datatype connect_answer = ConnectDone | ConnectAlready | ConnectPending | ConnectFailed string
datatype pipe_wait = PipeSignaled | PipeTimeout | PipeWaitFailed string
datatype overlapped_answer = OverlappedDone | OverlappedAlready | OverlappedFailed string

text \<open>What the system calls of one \<open>accept_for\<close> answer; a call that is not made has no effect.\<close>

record pipe_env =
  pipe_create_error :: "string option"
  pipe_event_error :: "string option"
  pipe_connect :: connect_answer
  pipe_wait :: pipe_wait
  pipe_overlapped :: overlapped_answer
  pipe_fd_failed :: bool

text \<open>Whether a client is connected; \<open>Inr False\<close>: none came within the timeout.\<close>

definition pipe_connected :: "pipe_env \<Rightarrow> bool result" where
  "pipe_connected env =
     (let failed = (\<lambda>m. Inl (RuntimeError (''connect Windows named pipe failed: Windows error '' @ m)))
      in case pipe_connect env of
           ConnectDone \<Rightarrow> Inr True
         | ConnectAlready \<Rightarrow> Inr True
         | ConnectFailed m \<Rightarrow> failed m
         | ConnectPending \<Rightarrow>
             (case pipe_wait env of
                PipeSignaled \<Rightarrow>
                  (case pipe_overlapped env of
                     OverlappedDone \<Rightarrow> Inr True
                   | OverlappedAlready \<Rightarrow> Inr True
                   | OverlappedFailed m \<Rightarrow> failed m)
              | PipeTimeout \<Rightarrow> Inr False
              | PipeWaitFailed m \<Rightarrow>
                  Inl (RuntimeError (''wait for Windows named-pipe client failed: Windows error '' @ m))))"

text \<open>Neither handle is inheritable: both are created without security attributes.\<close>

definition windows_accept_for :: "pipe_env \<Rightarrow> win_host \<Rightarrow> nat option result \<times> win_host" where
  "windows_accept_for env h =
     (case pipe_create_error env of
        Some m \<Rightarrow> (Inl (RuntimeError (''create Windows named pipe failed: Windows error '' @ m)), h)
      | None \<Rightarrow>
          (case open_handle (WinNamedPipe (objects_made h)) False (h\<lparr>objects_made := Suc (objects_made h)\<rparr>) of
             (pipe, h1) \<Rightarrow>
               (case pipe_event_error env of
                  Some m \<Rightarrow>
                    (Inl (RuntimeError (''create Windows named-pipe event failed: Windows error '' @ m)), close_handle pipe h1)
                | None \<Rightarrow>
                    (case open_handle (WinEvent (objects_made h)) False h1 of
                       (event, h2) \<Rightarrow>
                         (case pipe_connected env of
                            Inl e \<Rightarrow> (Inl e, close_handles [event, pipe] h2)
                          | Inr False \<Rightarrow> (Inr None, close_handles [event, pipe] h2)
                          | Inr True \<Rightarrow>
                              if pipe_fd_failed env
                              then (Inl (RuntimeError ''convert Windows named pipe to framed IPC descriptor failed''),
                                    close_handles [event, pipe] h2)
                              else (case open_osfhandle pipe (close_handle event h2) of
                                      (fd, h3) \<Rightarrow> (Inr (Some fd), h3)))))))"

text \<open>\<open>close_local_ipc\<close> of a descriptor.\<close>

definition windows_close_ipc :: "nat option \<Rightarrow> win_host \<Rightarrow> win_host" where
  "windows_close_ipc fd h = (case fd of None \<Rightarrow> h | Some n \<Rightarrow> crt_close n h)"

section \<open>The lock of the data directory\<close>

datatype win_phase = CheckName | MakeDataDir | OpenLockFile | ServingPipe | CloseLockFile | RemoveLockFile | WinEnded

record win_impl =
  win_phase :: win_phase
  lock_handle :: bool
  win_error :: "exn option"

text \<open>Which process has the lock file open, and whether the file exists.\<close>

record win_files =
  lock_opener :: "nat option"
  lock_file :: bool

definition new_win_impl :: win_impl where
  "new_win_impl = \<lparr>win_phase = CheckName, lock_handle = False, win_error = None\<rparr>"

text \<open>
  The constructor has no handler: an exception leaves it, and the destructor of \<open>Impl\<close> is not run.
\<close>

definition leave :: "string \<Rightarrow> win_impl \<Rightarrow> win_impl" where
  "leave m impl = impl\<lparr>win_phase := WinEnded, win_error := Some (RuntimeError m)\<rparr>"

definition pipe_prefix :: "16 word list" where
  "pipe_prefix = [92, 92, 46, 92, 112, 105, 112, 101, 92]"

text \<open>
  One call of process \<open>i\<close>. A file that is open without sharing can be neither opened nor removed.
  \<open>answer\<close> is the error of the call, if it fails for another reason.
\<close>

definition windows_impl_step ::
    "16 word list \<Rightarrow> string option \<Rightarrow> nat \<Rightarrow> win_impl \<Rightarrow> win_files \<Rightarrow> win_impl \<times> win_files" where
  "windows_impl_step endpoint answer i impl fs =
     (case win_phase impl of
        CheckName \<Rightarrow>
          (if take (length pipe_prefix) endpoint \<noteq> pipe_prefix
           then (leave ''Windows Kernel endpoint must be a local named pipe'' impl, fs)
           else (impl\<lparr>win_phase := MakeDataDir\<rparr>, fs))
      | MakeDataDir \<Rightarrow>
          (case answer of Some m \<Rightarrow> (leave m impl, fs) | None \<Rightarrow> (impl\<lparr>win_phase := OpenLockFile\<rparr>, fs))
      | OpenLockFile \<Rightarrow>
          (case (if lock_opener fs \<noteq> None then Some ''32'' else answer) of
             Some m \<Rightarrow> (leave (''acquire Kernel endpoint lock failed: Windows error '' @ m) impl, fs)
           | None \<Rightarrow>
               (impl\<lparr>win_phase := ServingPipe, lock_handle := True\<rparr>, fs\<lparr>lock_opener := Some i, lock_file := True\<rparr>))
      | ServingPipe \<Rightarrow> (impl\<lparr>win_phase := CloseLockFile\<rparr>, fs)
      | CloseLockFile \<Rightarrow>
          (impl\<lparr>win_phase := RemoveLockFile, lock_handle := False\<rparr>,
           if lock_handle impl then fs\<lparr>lock_opener := None\<rparr> else fs)
      | RemoveLockFile \<Rightarrow>
          (impl\<lparr>win_phase := WinEnded\<rparr>,
           if answer = None \<and> lock_opener fs = None then fs\<lparr>lock_file := False\<rparr> else fs)
      | WinEnded \<Rightarrow> (impl, fs))"

definition win_killed :: "nat \<Rightarrow> win_impl \<Rightarrow> win_files \<Rightarrow> win_impl \<times> win_files" where
  "win_killed i impl fs =
     (impl\<lparr>win_phase := WinEnded, lock_handle := False\<rparr>,
      if lock_handle impl then fs\<lparr>lock_opener := None\<rparr> else fs)"

record win_machine =
  win_files :: win_files
  win_impls :: "win_impl list"

text \<open>Each process on the data directory has an endpoint of its own choice.\<close>

inductive win_machine_step :: "win_machine \<Rightarrow> win_machine \<Rightarrow> bool" where
  launched: "win_machine_step m (m\<lparr>win_impls := win_impls m @ [new_win_impl]\<rparr>)"
| called: "i < length (win_impls m) \<Longrightarrow>
    windows_impl_step endpoint answer i (win_impls m ! i) (win_files m) = (impl, fs) \<Longrightarrow>
    win_machine_step m \<lparr>win_files = fs, win_impls = (win_impls m)[i := impl]\<rparr>"
| killed: "i < length (win_impls m) \<Longrightarrow> win_killed i (win_impls m ! i) (win_files m) = (impl, fs) \<Longrightarrow>
    win_machine_step m \<lparr>win_files = fs, win_impls = (win_impls m)[i := impl]\<rparr>"

definition win_machine_start :: "win_machine \<Rightarrow> bool" where
  "win_machine_start m \<longleftrightarrow> win_impls m = [] \<and> lock_opener (win_files m) = None"

section \<open>Lemmas\<close>

text \<open>A process has the lock file open exactly in the phases between opening and closing it.\<close>

definition holds_file :: "win_impl \<Rightarrow> bool" where
  "holds_file impl \<longleftrightarrow> win_phase impl = ServingPipe \<or> win_phase impl = CloseLockFile"

definition win_machine_ok :: "win_machine \<Rightarrow> bool" where
  "win_machine_ok m \<longleftrightarrow>
     (\<forall>i < length (win_impls m). lock_handle (win_impls m ! i) = holds_file (win_impls m ! i)
        \<and> (holds_file (win_impls m ! i) \<longleftrightarrow> lock_opener (win_files m) = Some i))
     \<and> (\<forall>i. lock_opener (win_files m) = Some i \<longrightarrow> i < length (win_impls m) \<and> lock_file (win_files m))"

lemma win_machine_step_ok: "win_machine_step m m' \<Longrightarrow> win_machine_ok m \<Longrightarrow> win_machine_ok m'"
proof (induction rule: win_machine_step.induct)
  case (launched m)
  then have "lock_opener (win_files m) \<noteq> Some (length (win_impls m))"
    unfolding win_machine_ok_def by blast
  with launched show ?case
    unfolding win_machine_ok_def by (auto simp: nth_append less_Suc_eq new_win_impl_def holds_file_def)
next
  case (called i m endpoint answer impl fs)
  have own: "lock_handle (win_impls m ! i) = holds_file (win_impls m ! i)"
    "holds_file (win_impls m ! i) \<longleftrightarrow> lock_opener (win_files m) = Some i"
    using called(1,3) by (simp_all add: win_machine_ok_def)
  have "lock_handle impl = holds_file impl \<and> (holds_file impl \<longleftrightarrow> lock_opener fs = Some i)
      \<and> (\<forall>j. j \<noteq> i \<longrightarrow> (lock_opener fs = Some j \<longleftrightarrow> lock_opener (win_files m) = Some j))
      \<and> (lock_opener fs \<noteq> None \<longrightarrow> lock_file fs \<or> lock_opener (win_files m) \<noteq> None \<and> lock_file fs = lock_file (win_files m))"
    using called(2) own
    by (cases "win_phase (win_impls m ! i)")
       (auto simp: windows_impl_step_def leave_def holds_file_def split: if_splits option.splits)
  then show ?case
    using called(1,3) unfolding win_machine_ok_def by (auto simp: nth_list_update)
next
  case (killed i m impl fs)
  have own: "lock_handle (win_impls m ! i) = holds_file (win_impls m ! i)"
    "holds_file (win_impls m ! i) \<longleftrightarrow> lock_opener (win_files m) = Some i"
    using killed(1,3) by (simp_all add: win_machine_ok_def)
  have "lock_handle impl = holds_file impl \<and> (holds_file impl \<longleftrightarrow> lock_opener fs = Some i)
      \<and> (\<forall>j. j \<noteq> i \<longrightarrow> (lock_opener fs = Some j \<longleftrightarrow> lock_opener (win_files m) = Some j))
      \<and> (lock_opener fs \<noteq> None \<longrightarrow> lock_opener (win_files m) \<noteq> None) \<and> lock_file fs = lock_file (win_files m)"
    using killed(2) own by (auto simp: win_killed_def holds_file_def split: if_splits)
  then show ?case
    using killed(1,3) unfolding win_machine_ok_def by (auto simp: nth_list_update)
qed

interpretation win_machines: step_system win_machine_step win_machine_start win_machine_ok
proof
  show "win_machine_ok m" if "win_machine_start m" for m
    using that by (simp add: win_machine_start_def win_machine_ok_def)
qed (rule win_machine_step_ok)

text \<open>Every call on the way to a descriptor succeeds, and a client is there.\<close>

definition client_ready :: "pipe_env \<Rightarrow> bool" where
  "client_ready env \<longleftrightarrow> pipe_create_error env = None \<and> pipe_event_error env = None
     \<and> pipe_connected env = Inr True \<and> \<not> pipe_fd_failed env"

section \<open>Properties\<close>

text \<open>
  Accepting on Windows neither loses nor lends handles: whatever its system calls answer, a
  call that throws or finds no client leaves the handles and the descriptors of the Kernel as they
  were; one that returns a descriptor adds that descriptor, which is new, and the one handle it
  owns, the instance of the pipe, which no worker inherits; and closing the descriptor gives both
  back. The descriptor is returned exactly when a client is connected and can be given one.
\<close>

lemma windows_accept_keeps_handles:
  "case windows_accept_for env h of
     (Inr (Some fd), h') \<Rightarrow>
       \<exists>x. map_of (crt_fds h) fd = None \<and> map_of (handles h) x = None
         \<and> map_of (crt_fds h') = (map_of (crt_fds h))(fd \<mapsto> x)
         \<and> map_of (handles h') = (map_of (handles h))(x \<mapsto> (WinNamedPipe (objects_made h), False))
         \<and> map_of (handles (windows_close_ipc (Some fd) h')) = map_of (handles h)
         \<and> map_of (crt_fds (windows_close_ipc (Some fd) h')) = map_of (crt_fds h)
         \<and> client_ready env
   | (r, h') \<Rightarrow> map_of (handles h') = map_of (handles h) \<and> map_of (crt_fds h') = map_of (crt_fds h)
       \<and> \<not> client_ready env"
proof (cases "pipe_create_error env")
  case (Some m)
  then show ?thesis by (simp add: windows_accept_for_def client_ready_def)
next
  case None
  obtain pipe h1 where p: "open_handle (WinNamedPipe (objects_made h)) False (h\<lparr>objects_made := Suc (objects_made h)\<rparr>) = (pipe, h1)"
    by fastforce
  obtain event h2 where e: "open_handle (WinEvent (objects_made h)) False h1 = (event, h2)"
    by fastforce
  obtain fd h3 where f: "open_osfhandle pipe (close_handle event h2) = (fd, h3)"
    by fastforce
  note fp = open_handleE [OF p, simplified] and fe = open_handleE [OF e] and ff = open_osfhandleE [OF f, simplified]
  have keys: "event \<noteq> pipe" "map_of (handles h) event = None"
    using fe(1) fp(2) by (auto split: if_splits)
  have shut: "map_of (handles (close_handles [event, pipe] h2)) = map_of (handles h)" "crt_fds (close_handles [event, pipe] h2) = crt_fds h"
    using fp fe keys by (auto simp: fun_eq_iff)
  have alone: "map_of (handles (close_handle pipe h1)) = map_of (handles h)" "crt_fds (close_handle pipe h1) = crt_fds h"
    using fp by (auto simp: fun_eq_iff)
  show ?thesis
  proof (cases "pipe_event_error env = None \<and> pipe_connected env = Inr True \<and> \<not> pipe_fd_failed env")
    case True
    have opened: "map_of (crt_fds h3) = (map_of (crt_fds h))(fd \<mapsto> pipe)" "map_of (crt_fds h) fd = None"
      "map_of (handles h3) = (map_of (handles h))(pipe \<mapsto> (WinNamedPipe (objects_made h), False))"
      using fp fe ff keys by (auto simp: fun_eq_iff)
    then have closed: "map_of (handles (crt_close fd h3)) = map_of (handles h)" "map_of (crt_fds (crt_close fd h3)) = map_of (crt_fds h)"
      using crt_close_open [of h3 fd pipe] fp(1) by (auto simp: fun_eq_iff)
    have "windows_accept_for env h = (Inr (Some fd), h3)"
      using True None p e f by (simp add: windows_accept_for_def)
    with opened closed True None fp(1) show ?thesis
      by (auto simp: windows_close_ipc_def client_ready_def)
  next
    case False
    then have "windows_accept_for env h \<in> (range Inl \<union> {Inr None}) \<times> {close_handle pipe h1, close_handles [event, pipe] h2}"
      using None p e by (auto simp: windows_accept_for_def simp del: close_handles_simps split: option.splits sum.splits bool.splits)
    then show ?thesis
      using False shut alone by (auto simp: client_ready_def simp del: close_handles_simps)
  qed
qed

text \<open>
  C24: On Windows a data directory has one Kernel: however many processes are started on it, with
  whatever endpoints, fail, end or are killed, at most one serves; while it does, the lock file
  exists and is open in that process alone; and when no process is left it can be opened again. A
  process that ends does not remove the lock file of one that was started meanwhile.
\<close>

theorem windows_data_dir_has_one_kernel:
  assumes "win_machine_start m0" and "win_machine_step\<^sup>*\<^sup>* m0 m"
  shows "(\<forall>i < length (win_impls m). win_phase (win_impls m ! i) = ServingPipe \<longrightarrow>
            lock_opener (win_files m) = Some i \<and> lock_file (win_files m)
            \<and> (\<forall>j < length (win_impls m). win_phase (win_impls m ! j) = ServingPipe \<longrightarrow> j = i))
    \<and> ((\<forall>i < length (win_impls m). win_phase (win_impls m ! i) = WinEnded) \<longrightarrow> lock_opener (win_files m) = None)"
proof -
  have ok: "win_machine_ok m"
    by (rule win_machines.reachable_invar [OF assms])
  have serving: "lock_opener (win_files m) = Some i"
    if "i < length (win_impls m)" "win_phase (win_impls m ! i) = ServingPipe" for i
    using ok that by (auto simp: win_machine_ok_def holds_file_def)
  have ended: "lock_opener (win_files m) = None" if "\<forall>i < length (win_impls m). win_phase (win_impls m ! i) = WinEnded"
  proof (cases "lock_opener (win_files m)")
    case (Some i)
    then have "i < length (win_impls m)" "holds_file (win_impls m ! i)"
      using ok by (auto simp: win_machine_ok_def)
    then show ?thesis
      using that by (simp add: holds_file_def)
  qed simp
  have exists: "lock_file (win_files m)" if "lock_opener (win_files m) = Some i" for i
    using ok that by (auto simp: win_machine_ok_def)
  have "j = i" if "i < length (win_impls m)" "win_phase (win_impls m ! i) = ServingPipe"
    "j < length (win_impls m)" "win_phase (win_impls m ! j) = ServingPipe" for i j
    using serving [OF that(1,2)] serving [OF that(3,4)] by simp
  then show ?thesis
    using serving ended exists by blast
qed

text \<open>A first process serves; a second one finds the lock file open.\<close>

definition local_pipe :: "16 word list" where
  "local_pipe = pipe_prefix @ [109]"

fun win_calls :: "nat list \<Rightarrow> win_machine \<Rightarrow> win_machine" where
  "win_calls [] m = m"
| "win_calls (i # is) m =
     (case windows_impl_step local_pipe None i (win_impls m ! i) (win_files m) of
        (impl, fs) \<Rightarrow> win_calls is \<lparr>win_files = fs, win_impls = (win_impls m)[i := impl]\<rparr>)"

lemma win_calls_steps: "list_all (\<lambda>i. i < length (win_impls m)) is \<Longrightarrow> win_machine_step\<^sup>*\<^sup>* m (win_calls is m)"
proof (induction "is" arbitrary: m)
  case (Cons i "is")
  obtain impl fs where call: "windows_impl_step local_pipe None i (win_impls m ! i) (win_files m) = (impl, fs)"
    by fastforce
  have "win_machine_step m \<lparr>win_files = fs, win_impls = (win_impls m)[i := impl]\<rparr>"
    using Cons.prems call by (intro win_machine_step.called) simp_all
  moreover have "win_machine_step\<^sup>*\<^sup>* \<lparr>win_files = fs, win_impls = (win_impls m)[i := impl]\<rparr> (win_calls (i # is) m)"
    using Cons call by simp
  ultimately show ?case
    by (rule converse_rtranclp_into_rtranclp)
qed simp

definition sample_win_machine :: win_machine where
  "sample_win_machine = \<lparr>win_files = \<lparr>lock_opener = None, lock_file = False\<rparr>, win_impls = []\<rparr>"

theorem windows_data_dir_has_one_kernel_witness:
  "let m = win_calls [0, 0, 0, 1, 1, 1] (sample_win_machine\<lparr>win_impls := [new_win_impl, new_win_impl]\<rparr>)
   in win_phase (win_impls m ! 0) = ServingPipe \<and> lock_opener (win_files m) = Some 0
      \<and> win_error (win_impls m ! 1) = Some (RuntimeError ''acquire Kernel endpoint lock failed: Windows error 32'')"
proof -
  let ?m1 = "sample_win_machine\<lparr>win_impls := [new_win_impl, new_win_impl]\<rparr>"
  let ?m = "win_calls [0, 0, 0, 1, 1, 1] ?m1"
  have start: "win_machine_start sample_win_machine"
    by (simp add: win_machine_start_def sample_win_machine_def)
  have "win_machine_step sample_win_machine (sample_win_machine\<lparr>win_impls := [new_win_impl]\<rparr>)"
    "win_machine_step (sample_win_machine\<lparr>win_impls := [new_win_impl]\<rparr>) ?m1"
    using win_machine_step.launched [of sample_win_machine] win_machine_step.launched [of "sample_win_machine\<lparr>win_impls := [new_win_impl]\<rparr>"]
    by (simp_all add: sample_win_machine_def)
  then have "win_machine_step\<^sup>*\<^sup>* sample_win_machine ?m"
    using win_calls_steps [of ?m1 "[0, 0, 0, 1, 1, 1]"] by (simp add: converse_rtranclp_into_rtranclp del: win_calls.simps)
  from windows_data_dir_has_one_kernel [OF start this]
  have "\<forall>i < length (win_impls ?m). win_phase (win_impls ?m ! i) = ServingPipe \<longrightarrow> lock_opener (win_files ?m) = Some i"
    by blast
  moreover have "length (win_impls ?m) = 2" "win_phase (win_impls ?m ! 0) = ServingPipe"
    "win_error (win_impls ?m ! 1) = Some (RuntimeError ''acquire Kernel endpoint lock failed: Windows error 32'')"
    by (simp_all add: windows_impl_step_def local_pipe_def pipe_prefix_def sample_win_machine_def new_win_impl_def leave_def)
  ultimately show ?thesis
    by (simp add: Let_def del: win_calls.simps)
qed

end
