(* ===== verification/Spec2Isabelle.thy ===== *)
theory Spec2Isabelle
  imports Kernel_Run Spawn Worker_Leases Store_Transactions Store_Rows Llama_Worker Windows_Execute Windows_Endpoint
begin

text \<open>
  \<^bold>\<open>Verification of the native Kernel of MADRE.\<close>

  \<^bold>\<open>The program.\<close> \<open>madre-kernel\<close> (\<open>src/kernel/src\<close>) accepts Works from local clients, keeps them in
  an SQLite database, and runs each of them as a sequence of attempts on worker processes within
  configured limits of CPU slots, memory and GPU memory. Its parts are the framed protocol
  (\<open>protocol.cpp\<close>) spoken with clients and with workers; the Work store (\<open>store.cpp\<close>); resource
  accounting, the pool of worker processes and the exchange of one attempt (\<open>worker_runtime.cpp\<close>);
  the local endpoint (\<open>local_ipc.cpp\<close>); and the Kernel itself (\<open>main.cpp\<close>): command line, engine
  inventory and selection, request handlers, scheduler, attempts and accept loop. One worker is
  part of the repository, around the llama.cpp library (\<open>src/kernel/workers/llamacpp/main.cpp\<close>).

  A client connects to the endpoint, says hello and sends one request. A submission becomes a row
  of the store and an input file. The scheduler takes the most urgent eligible Work, selects an
  engine, reserves its resources, acquires a worker and starts an attempt; the attempt sends the
  input to the worker, waits for its answer, writes the result file and settles the row. The client
  asks for the result and acknowledges it. After a crash the next start settles what was running.

  \<^bold>\<open>The theories\<close>, in the order of their imports.

    \<^item> \<open>Prelude\<close>: machine types, exceptions as values, 64-bit signed arithmetic with its
      wrap-around, list and word lemmas, the locale \<open>step_system\<close> (invariants of a step relation).
    \<^item> \<open>Cxx_Std\<close>: \<open>std::map\<close> (locale \<open>std_map\<close>, interpreted on the association lists the model
      uses), \<open>std::stoi\<close> and its relatives, \<open>std::to_string\<close>, hexadecimal formatting.
    \<^item> \<open>Protocol\<close>: \<open>protocol.hpp\<close> and \<open>protocol.cpp\<close>. Header and metadata codecs, \<open>read_frame\<close>,
      \<open>write_frame\<close> and \<open>IncrementalFrameReader::read_available\<close>. A written frame is the frame that
      is read, however the bytes are cut; the two readers agree; what each accepts and holds.
    \<^item> \<open>Store\<close>, \<open>Store_Invariant\<close>, \<open>Store_Contract\<close>: \<open>store.cpp\<close>, every method of \<open>WorkStore\<close> on the
      two tables. The invariant of the tables; the lifecycle of a row as an abstract relation; the
      locale \<open>store_operation\<close> (the contract of one operation), interpreted on each method; the order
      of the queue, retries, recovery, acknowledgement.
    \<^item> \<open>Store_Transactions\<close>: the five methods that use \<open>BEGIN\<close>, \<open>COMMIT\<close> and \<open>ROLLBACK\<close>, one SQLite call
      at a time on a connection with its committed and its uncommitted tables, and opening and
      closing the database. They do what \<open>Store\<close> says in one step, and a crash tears nothing.
    \<^item> \<open>Store_Rows\<close>: the SQL text of the store. Rows as maps from column names to values, each
      statement with its clauses and the values bound to it, \<open>read_work\<close> with its column positions.
      The locale \<open>row_update\<close> (the contract of one statement), interpreted on each: the statements do
      to rows what \<open>Store\<close> does to records, and a record survives the table.
    \<^item> \<open>Resources\<close>: \<open>ResourceManager\<close> and its leases. The locale \<open>lease_pool\<close>, interpreted on the
      manager: in every history the counters are the sums over the leases and within the capacity.
    \<^item> \<open>Engines\<close>: engine descriptors and \<open>select_engine\<close>.
    \<^item> \<open>Workers\<close>: \<open>WorkerPool\<close> (acquire, release, idle sweep, shutdown) on a heap of process
      objects. No process serves two leases; warm workers are reused; the sweep is exact.
    \<^item> \<open>Worker_Leases\<close>: the objects of \<open>WorkerPool::Lease\<close> with their moves and destructor, refining
      the histories of the pool: each worker is owned once and given back once.
    \<^item> \<open>Spawn\<close>: the constructor of \<open>WorkerProcess\<close> on the descriptor tables of the Kernel and of
      the worker. No descriptor leaks, none is lent to another worker.
    \<^item> \<open>Worker_Execute\<close>: \<open>WorkerProcess::execute\<close>, its writing and its reading loop. An attempt ends
      only with an answer of its own, and in time.
    \<^item> \<open>Kernel\<close>: payload files, request handlers, the body of a connection, one round of
      \<open>scheduler_loop\<close>, \<open>execute_worker\<close>, and the constructor (\<open>start_kernel\<close>). Handlers and rounds
      come twice: in one piece, as the code reads (\<open>handle\<close>, \<open>scheduler_round\<close>), and as sequences of
      steps, one for each call on shared state (\<open>request_step\<close>, \<open>scheduler_step\<close>).
    \<^item> \<open>Kernel_Steps\<close>: the steps in sequence are the piece.
    \<^item> \<open>Kernel_Requests\<close>: what the handlers promise to a client.
    \<^item> \<open>Kernel_Data\<close>: the invariant \<open>ok_data\<close> that ties rows, payload files and attempts in progress
      together, and its preservation by every step.
    \<^item> \<open>Kernel_System\<close>: the running Kernel as the step relation \<open>sys_step\<close>, in which the steps of
      requests, of the scheduler and of attempts and crashes with a restart interleave freely; its
      invariant adds \<open>ok_leases\<close>.
    \<^item> \<open>Kernel_Guarantees\<close>: what follows for every reachable state. One attempt at a time, results
      kept until acknowledged, leases that match the attempts, attempts that end and settle their
      Work, a scheduler that is never stuck.
    \<^item> \<open>Options\<close>: the command line of \<open>main.cpp\<close>, inventory and launch table, \<open>main\<close> up to the run.
    \<^item> \<open>Endpoint\<close>: \<open>LocalIpcServer\<close>, one system call at a time, with several processes on the same
      endpoint that may fail or be killed anywhere. At most one serves.
    \<^item> \<open>Kernel_Run\<close>: \<open>Kernel::run\<close>, the destructor and \<open>main\<close>; the accept loop is a run of \<open>sys_step\<close>.
    \<^item> \<open>Llama_Worker\<close>: the llama.cpp worker. Its answers are those the Kernel expects, and it uses
      the library within its bounds.
    \<^item> \<open>Windows_Command_Line\<close>, \<open>Windows_Handles\<close>, \<open>Windows_Workers\<close>: the Windows branches of the worker
      process. Quoting and the documented rules by which a program cuts its command line; the tables
      of handles and descriptors; constructor, \<open>alive\<close> and \<open>terminate\<close>. Arguments arrive as given; where
      handles are kept, inherited, given back and, on one path, leaked.
    \<^item> \<open>Windows_Reader\<close>, \<open>Windows_Execute\<close>: reading and \<open>execute\<close> with their Windows branches, simulated by
      those of \<open>Protocol\<close> and \<open>Worker_Execute\<close>.
    \<^item> \<open>Windows_Endpoint\<close>: the named pipe and the lock of the data directory. One Kernel serves a data
      directory; accepting keeps the handles.

  \<^bold>\<open>How code becomes definitions.\<close> An exception is the value \<open>Inl e\<close>, with the text of \<open>what()\<close>. A
  blocking call may also not return: \<open>Blocked\<close>. A descriptor is the script of what the operating
  system answers to successive calls, and a loop that polls takes a list of turns, one for each
  round, with the clock, flags and answers that round sees; the theorems hold for every script, so
  no fuel bounds the behaviours. A script that is used up means that the call still waits. The other
  loops are structural or have a termination proof. A call of SQLite that the code checks may fail:
  a \<open>sqlite_fault\<close> names the first failing call of an operation. Clock, random numbers and file
  system faults are arguments. Signed 64-bit sums are written with their wrap-around where the
  sources can overflow; unsigned values are words.

  \<^bold>\<open>Interleaving.\<close> Each method of the store, the resource manager and the pool holds a mutex and is
  one step. A request, a scheduler round and an attempt are sequences of steps, one for each such
  call or access to the payload files, and between any two of them the other threads may take
  theirs; one request is served at a time, as in the code. That the steps in sequence are the
  handlers and the round as the code has them is proved, and so is that a method of the store, run
  call by call in its transaction, is one step. A scheduler round has at most nine steps, a
  request at most four and one for each listed engine, an attempt at most five.

  \<^bold>\<open>Library code.\<close> The llama.cpp library is the record \<open>llama\<close>, an argument of the worker's
  definitions, on which nothing is assumed; so are the conversions of Windows (\<open>utf8_calls\<close>) and the
  reading of a text as an integer by SQLite (\<open>conv\<close>). SQLite is modelled by the operations on rows
  that its statements denote, as the sources use them; a \<open>ROLLBACK\<close> is taken to work. The rules by
  which the C runtime of Windows cuts a command line are those of its documentation.

  \<^bold>\<open>Not modelled.\<close> Preparing and finalizing SQL statements, beyond their failure; the condition
  variable and the sleeps, which only shorten or lengthen waits; data races on the members of a
  worker process (the model takes a call on it as atomic); clock, signals and console events beyond
  what they tell the code; the tests and the Java client, which are beside the Kernel.
\<close>

end
